(* ===== verification/Polliwog_Prelude.thy ===== *)
theory Polliwog_Prelude
  imports Main "HOL-Library.Word"
begin

text \<open>
  Shared vocabulary of the development: machine integers, byte memory and the spans
  that point into it, runs that may fault, and the generic lemmas and simplification
  collections the component theories use.

  A C++ call is a function from the state before to a \<open>run\<close>: \<open>Inr\<close> of the value and
  the state after, or \<open>Inl\<close> of a fault, where a fault is what the language does not
  give a value to (undefined behaviour, a failed \<open>assert\<close>, a loop that never ends).
  The errors of the library are values of \<open>error + 'a\<close> inside a run, never faults.
\<close>

section \<open>Machine integers and memory\<close>

type_synonym u8 = "8 word"
type_synonym u32 = "32 word"
type_synonym u64 = "64 word"
type_synonym c_int = "32 word"
type_synonym addr = nat
type_synonym memory = "addr \<Rightarrow> u8"

text \<open>\<open>std::span\<close>: a pointer and a \<open>std::size_t\<close>, which is 64 bits wide here.\<close>

record span =
  span_data :: addr
  span_size :: u64

definition empty_span :: span where
  "empty_span = \<lparr>span_data = 0, span_size = 0\<rparr>"

definition bytes_at :: "memory \<Rightarrow> addr \<Rightarrow> nat \<Rightarrow> u8 list" where
  "bytes_at m a n = map m [a..<a + n]"

definition span_bytes :: "memory \<Rightarrow> span \<Rightarrow> u8 list" where
  "span_bytes m s = bytes_at m (span_data s) (unat (span_size s))"

definition write_bytes :: "memory \<Rightarrow> addr \<Rightarrow> u8 list \<Rightarrow> memory" where
  "write_bytes m a xs = (\<lambda>x. if a \<le> x \<and> x < a + length xs then xs ! (x - a) else m x)"

definition same_outside :: "memory \<Rightarrow> memory \<Rightarrow> addr \<Rightarrow> nat \<Rightarrow> bool" where
  "same_outside m m' a n \<longleftrightarrow> (\<forall>x. x < a \<or> a + n \<le> x \<longrightarrow> m' x = m x)"

definition apart :: "addr \<Rightarrow> nat \<Rightarrow> addr \<Rightarrow> nat \<Rightarrow> bool" where
  "apart a n b k \<longleftrightarrow> a + n \<le> b \<or> b + k \<le> a"

text \<open>
  The spans of a call: apart, as the C libraries require, and with pointers that are not null
  (a null input is allowed when it is empty; zlib refuses a null output even for an empty span).
\<close>

definition spans_apart :: "span \<Rightarrow> span \<Rightarrow> bool" where
  "spans_apart i out \<longleftrightarrow> apart (span_data i) (unat (span_size i)) (span_data out) (unat (span_size out))"

definition spans_set :: "span \<Rightarrow> span \<Rightarrow> bool" where
  "spans_set i out \<longleftrightarrow> span_data out \<noteq> 0 \<and> (span_size i = 0 \<or> span_data i \<noteq> 0)"

definition spans_valid :: "span \<Rightarrow> span \<Rightarrow> bool" where
  "spans_valid i out \<longleftrightarrow> spans_apart i out \<and> spans_set i out"

lemmas spans_defs = spans_valid_def spans_apart_def spans_set_def

lemma empty_apart [simp]: "spans_apart empty_span out"
  by (simp add: spans_apart_def apart_def empty_span_def)

section \<open>Runs\<close>

datatype fault = Undefined_Behaviour | Assertion_Failed | Never_Returns

type_synonym 'a run = "fault + 'a"

definition chain :: "'a run \<Rightarrow> ('a \<Rightarrow> 'b run) \<Rightarrow> 'b run" where
  "chain r f = (case r of Inl e \<Rightarrow> Inl e | Inr x \<Rightarrow> f x)"

named_theorems run_simps
named_theorems mem_simps

lemma chain_simps [simp, run_simps]:
  "chain (Inl e) f = Inl e"
  "chain (Inr x) f = f x"
  by (simp_all add: chain_def)

lemma chain_Inr_iff [run_simps]:
  "chain r f = Inr y \<longleftrightarrow> (\<exists>x. r = Inr x \<and> f x = Inr y)"
  by (cases r) auto

lemma chain_InrE:
  assumes "chain r f = Inr y"
  obtains x where "r = Inr x" and "f x = Inr y"
  using assms by (auto simp: chain_Inr_iff)

lemma chain_assoc: "chain (chain r f) g = chain r (\<lambda>x. chain (f x) g)"
  by (cases r) simp_all

section \<open>Lemmas on memory\<close>

lemma length_bytes_at [simp, mem_simps]: "length (bytes_at m a n) = n"
  by (simp add: bytes_at_def)

lemma bytes_at_0 [simp, mem_simps]: "bytes_at m a 0 = []"
  by (simp add: bytes_at_def)

lemma nth_bytes_at [simp, mem_simps]: "i < n \<Longrightarrow> bytes_at m a n ! i = m (a + i)"
  by (simp add: bytes_at_def)

lemma bytes_at_eq_iff: "bytes_at m a n = bytes_at m' b n \<longleftrightarrow> (\<forall>i<n. m (a + i) = m' (b + i))"
  by (auto simp: list_eq_iff_nth_eq)

lemma take_bytes_at: "k \<le> n \<Longrightarrow> take k (bytes_at m a n) = bytes_at m a k"
  by (simp add: list_eq_iff_nth_eq)

lemma drop_bytes_at: "k \<le> n \<Longrightarrow> drop k (bytes_at m a n) = bytes_at m (a + k) (n - k)"
  by (simp add: list_eq_iff_nth_eq add.assoc)

lemma bytes_at_add: "bytes_at m a (n + k) = bytes_at m a n @ bytes_at m (a + n) k"
  by (rule nth_equalityI) (auto simp: nth_append)

lemma same_outside_refl [simp, mem_simps]: "same_outside m m a n"
  by (simp add: same_outside_def)

lemma same_outside_mono:
  "same_outside m m' a n \<Longrightarrow> b \<le> a \<Longrightarrow> a + n \<le> b + k \<Longrightarrow> same_outside m m' b k"
  by (auto simp: same_outside_def)

lemma same_outside_trans:
  "same_outside m m' a n \<Longrightarrow> same_outside m' m'' a n \<Longrightarrow> same_outside m m'' a n"
  by (auto simp: same_outside_def)

lemma same_outside_bytes:
  "same_outside m m' a n \<Longrightarrow> apart b k a n \<Longrightarrow> bytes_at m' b k = bytes_at m b k"
  by (auto simp: same_outside_def apart_def bytes_at_eq_iff)

lemma same_outside_write [mem_simps]:
  "length xs \<le> n \<Longrightarrow> same_outside m (write_bytes m a xs) a n"
  by (auto simp: same_outside_def write_bytes_def)

lemma bytes_at_write [simp, mem_simps]: "bytes_at (write_bytes m a xs) a (length xs) = xs"
  by (auto simp: list_eq_iff_nth_eq write_bytes_def)

lemma write_bytes_Nil [simp, mem_simps]: "write_bytes m a [] = m"
  by (rule ext) (auto simp: write_bytes_def)

lemma bytes_at_upd:
  "i < n \<Longrightarrow> bytes_at (m(a + i := b)) a n = (bytes_at m a n)[i := b]"
  by (auto simp: list_eq_iff_nth_eq nth_list_update)

lemma apart_sym: "apart a n b k \<longleftrightarrow> apart b k a n"
  by (auto simp: apart_def)

lemma spans_valid_head:
  assumes "spans_valid s b" "n \<le> span_size s"
  shows "spans_valid \<lparr>span_data = span_data s, span_size = n\<rparr> b"
  using assms by (auto simp: spans_defs apart_def word_le_nat_alt unat_eq_zero)

lemma apart_mono: "apart a n b k \<Longrightarrow> n' \<le> n \<Longrightarrow> k' \<le> k \<Longrightarrow> apart a n' b k'"
  by (auto simp: apart_def)

section \<open>Lemmas on words\<close>

text \<open>\<open>static_cast<uInt>\<close> of a \<open>std::size_t\<close> keeps the low 32 bits.\<close>

definition to_uInt :: "u64 \<Rightarrow> u32" where
  "to_uInt x = ucast x"

lemma unat_to_uInt: "unat (to_uInt x) = unat x mod 2 ^ 32"
  by (simp add: to_uInt_def unsigned_ucast_eq take_bit_eq_mod)

lemma unat_to_uInt_le: "unat (to_uInt x) \<le> unat x"
  by (simp add: unat_to_uInt)

lemma unat_to_uInt_small: "unat x < 2 ^ 32 \<Longrightarrow> unat (to_uInt x) = unat x"
  by (simp add: unat_to_uInt)

lemma u64_of_nat_small: "n < 2 ^ 64 \<Longrightarrow> unat (of_nat n :: u64) = n"
  by (simp add: unat_of_nat take_bit_nat_eq_self_iff)

lemma of_nat_unat_eq: "of_nat (unat x) = x"
  by simp

lemma unat_u32_less: "unat (x :: u32) < 2 ^ 32"
  using unsigned_less [of x] by simp

lemma unat_u64_less: "unat (x :: u64) < 2 ^ 64"
  using unsigned_less [of x] by simp

end
