(* ===== verification/Error_Format.thy ===== *)
theory Error_Format
  imports Polliwog_Prelude
begin

text \<open>
  The public vocabulary: \<open>include/polliwog/error.hpp\<close> (the error taxonomy, the error
  value and the names of its enumerators) and \<open>include/polliwog/format.hpp\<close> (the wire
  formats, their names and the typed levels).
\<close>

section \<open>error.hpp\<close>

datatype kind =
    Stream_Corrupt
  | Buffer_Too_Small
  | Level_Unsupported
  | Format_Mismatch
  | Backend_Failure
  | Out_Of_Memory
  | Internal_Contract_Violation

datatype backend_id = No_Backend | Zlib_Id | Zlib_Ng_Id | Zstd_Id | Lz4_Id

record error =
  err_k :: kind
  err_b :: backend_id
  err_pos :: u64
  err_note :: string

fun kind_name :: "kind \<Rightarrow> string" where
  "kind_name Stream_Corrupt = ''stream_corrupt''"
| "kind_name Buffer_Too_Small = ''buffer_too_small''"
| "kind_name Level_Unsupported = ''level_unsupported''"
| "kind_name Format_Mismatch = ''format_mismatch''"
| "kind_name Backend_Failure = ''backend_failure''"
| "kind_name Out_Of_Memory = ''out_of_memory''"
| "kind_name Internal_Contract_Violation = ''internal_contract_violation''"

fun backend_id_name :: "backend_id \<Rightarrow> string" where
  "backend_id_name No_Backend = ''none''"
| "backend_id_name Zlib_Id = ''zlib''"
| "backend_id_name Zlib_Ng_Id = ''zlib_ng''"
| "backend_id_name Zstd_Id = ''zstd''"
| "backend_id_name Lz4_Id = ''lz4''"

definition mk_error :: "kind \<Rightarrow> backend_id \<Rightarrow> u64 \<Rightarrow> string \<Rightarrow> error" where
  "mk_error k b p n = \<lparr>err_k = k, err_b = b, err_pos = p, err_note = n\<rparr>"

lemma mk_error_sel [simp]:
  "err_k (mk_error k b p n) = k" "err_b (mk_error k b p n) = b"
  "err_pos (mk_error k b p n) = p" "err_note (mk_error k b p n) = n"
  by (simp_all add: mk_error_def)

section \<open>format.hpp\<close>

datatype format = Fmt_Zlib | Fmt_Gzip | Fmt_Raw_Deflate | Fmt_Zstd | Fmt_Lz4_Frame

fun format_name :: "format \<Rightarrow> string" where
  "format_name Fmt_Zlib = ''zlib''"
| "format_name Fmt_Gzip = ''gzip''"
| "format_name Fmt_Raw_Deflate = ''raw_deflate''"
| "format_name Fmt_Zstd = ''zstd''"
| "format_name Fmt_Lz4_Frame = ''lz4_frame''"

text \<open>The levels are scoped enums over \<open>int\<close>: any \<open>int\<close> can be named by explicit init.\<close>

datatype zlib_level = Zlib_Level (zlib_level_int: c_int)
datatype zstd_level = Zstd_Level (zstd_level_int: c_int)

definition zlib_fastest :: zlib_level where "zlib_fastest = Zlib_Level 1"
definition zlib_default_level :: zlib_level where "zlib_default_level = Zlib_Level 6"
definition zlib_best :: zlib_level where "zlib_best = Zlib_Level 9"
definition zstd_fastest :: zstd_level where "zstd_fastest = Zstd_Level 1"
definition zstd_default_level :: zstd_level where "zstd_default_level = Zstd_Level 3"
definition zstd_best :: zstd_level where "zstd_best = Zstd_Level 19"

text \<open>The three enums are finite: quantifiers over them are decided by the library.\<close>

instantiation kind :: enum
begin

definition enum_kind :: "kind list" where
  "enum_kind = [Stream_Corrupt, Buffer_Too_Small, Level_Unsupported, Format_Mismatch, Backend_Failure, Out_Of_Memory, Internal_Contract_Violation]"

definition enum_all_kind :: "(kind \<Rightarrow> bool) \<Rightarrow> bool" where
  "enum_all_kind P \<longleftrightarrow> P Stream_Corrupt \<and> P Buffer_Too_Small \<and> P Level_Unsupported \<and> P Format_Mismatch \<and> P Backend_Failure \<and> P Out_Of_Memory \<and> P Internal_Contract_Violation"

definition enum_ex_kind :: "(kind \<Rightarrow> bool) \<Rightarrow> bool" where
  "enum_ex_kind P \<longleftrightarrow> P Stream_Corrupt \<or> P Buffer_Too_Small \<or> P Level_Unsupported \<or> P Format_Mismatch \<or> P Backend_Failure \<or> P Out_Of_Memory \<or> P Internal_Contract_Violation"

instance
proof
  show "(UNIV :: kind set) = set enum_class.enum"
    by (auto simp: enum_kind_def intro: kind.exhaust)
  show "distinct (enum_class.enum :: kind list)"
    by (simp add: enum_kind_def)
  show "enum_class.enum_all P \<longleftrightarrow> Ball UNIV P" for P :: "kind \<Rightarrow> bool"
    by (auto simp: enum_all_kind_def intro: kind.induct)
  show "enum_class.enum_ex P \<longleftrightarrow> Bex UNIV P" for P :: "kind \<Rightarrow> bool"
    by (auto simp: enum_ex_kind_def) (metis kind.exhaust)
qed

end

instantiation backend_id :: enum
begin

definition enum_backend_id :: "backend_id list" where
  "enum_backend_id = [No_Backend, Zlib_Id, Zlib_Ng_Id, Zstd_Id, Lz4_Id]"

definition enum_all_backend_id :: "(backend_id \<Rightarrow> bool) \<Rightarrow> bool" where
  "enum_all_backend_id P \<longleftrightarrow> P No_Backend \<and> P Zlib_Id \<and> P Zlib_Ng_Id \<and> P Zstd_Id \<and> P Lz4_Id"

definition enum_ex_backend_id :: "(backend_id \<Rightarrow> bool) \<Rightarrow> bool" where
  "enum_ex_backend_id P \<longleftrightarrow> P No_Backend \<or> P Zlib_Id \<or> P Zlib_Ng_Id \<or> P Zstd_Id \<or> P Lz4_Id"

instance
proof
  show "(UNIV :: backend_id set) = set enum_class.enum"
    by (auto simp: enum_backend_id_def intro: backend_id.exhaust)
  show "distinct (enum_class.enum :: backend_id list)"
    by (simp add: enum_backend_id_def)
  show "enum_class.enum_all P \<longleftrightarrow> Ball UNIV P" for P :: "backend_id \<Rightarrow> bool"
    by (auto simp: enum_all_backend_id_def intro: backend_id.induct)
  show "enum_class.enum_ex P \<longleftrightarrow> Bex UNIV P" for P :: "backend_id \<Rightarrow> bool"
    by (auto simp: enum_ex_backend_id_def) (metis backend_id.exhaust)
qed

end

instantiation format :: enum
begin

definition enum_format :: "format list" where
  "enum_format = [Fmt_Zlib, Fmt_Gzip, Fmt_Raw_Deflate, Fmt_Zstd, Fmt_Lz4_Frame]"

definition enum_all_format :: "(format \<Rightarrow> bool) \<Rightarrow> bool" where
  "enum_all_format P \<longleftrightarrow> P Fmt_Zlib \<and> P Fmt_Gzip \<and> P Fmt_Raw_Deflate \<and> P Fmt_Zstd \<and> P Fmt_Lz4_Frame"

definition enum_ex_format :: "(format \<Rightarrow> bool) \<Rightarrow> bool" where
  "enum_ex_format P \<longleftrightarrow> P Fmt_Zlib \<or> P Fmt_Gzip \<or> P Fmt_Raw_Deflate \<or> P Fmt_Zstd \<or> P Fmt_Lz4_Frame"

instance
proof
  show "(UNIV :: format set) = set enum_class.enum"
    by (auto simp: enum_format_def intro: format.exhaust)
  show "distinct (enum_class.enum :: format list)"
    by (simp add: enum_format_def)
  show "enum_class.enum_all P \<longleftrightarrow> Ball UNIV P" for P :: "format \<Rightarrow> bool"
    by (auto simp: enum_all_format_def intro: format.induct)
  show "enum_class.enum_ex P \<longleftrightarrow> Bex UNIV P" for P :: "format \<Rightarrow> bool"
    by (auto simp: enum_ex_format_def) (metis format.exhaust)
qed

end

text \<open>The library's formats that the zlib backend serves; every other is the zstd one or has
  no backend.\<close>

definition is_zlib_format :: "format \<Rightarrow> bool" where
  "is_zlib_format f \<longleftrightarrow> f = Fmt_Zlib \<or> f = Fmt_Gzip \<or> f = Fmt_Raw_Deflate"

lemma is_zlib_format_simps [simp]:
  "is_zlib_format Fmt_Zlib" "is_zlib_format Fmt_Gzip" "is_zlib_format Fmt_Raw_Deflate"
  "\<not> is_zlib_format Fmt_Zstd" "\<not> is_zlib_format Fmt_Lz4_Frame"
  by (simp_all add: is_zlib_format_def)

end
