(* ===== verification/Zlib_Api.thy ===== *)
theory Zlib_Api
  imports Error_Format
begin

text \<open>
  The boundary to zlib. zlib is not part of this repository: its entry points are the
  fields of a record \<open>zlib_api\<close> that every definition using them takes as an argument,
  and what the code relies on is stated here as predicates over such a record, each from
  the documentation of \<open>zlib.h\<close>. Nothing of zlib is implemented.

  \<open>'l\<close> is the width of zlib's \<open>uLong\<close>: 64 on Linux and macOS, 32 on Windows. \<open>'b\<close> is
  whatever zlib keeps behind the \<open>state\<close> pointer; those objects live in zlib's heap, a
  finite-or-not map from addresses, so that leaking or freeing one is visible.
\<close>

section \<open>The structure and the entry points\<close>

datatype zflush = Z_NO_FLUSH | Z_SYNC_FLUSH | Z_FINISH

datatype zret =
    Z_OK
  | Z_STREAM_END
  | Z_NEED_DICT
  | Z_ERRNO
  | Z_STREAM_ERROR
  | Z_DATA_ERROR
  | Z_MEM_ERROR
  | Z_BUF_ERROR
  | Z_VERSION_ERROR

text \<open>The number \<open>zlib.h\<close> gives a return code, used where the code compares a length to one.\<close>

fun zret_code :: "zret \<Rightarrow> int" where
  "zret_code Z_OK = 0"
| "zret_code Z_STREAM_END = 1"
| "zret_code Z_NEED_DICT = 2"
| "zret_code Z_ERRNO = -1"
| "zret_code Z_STREAM_ERROR = -2"
| "zret_code Z_DATA_ERROR = -3"
| "zret_code Z_MEM_ERROR = -4"
| "zret_code Z_BUF_ERROR = -5"
| "zret_code Z_VERSION_ERROR = -6"

record (overloaded) 'l z_stream =
  next_in :: addr
  avail_in :: u32
  total_in :: "'l word"
  next_out :: addr
  avail_out :: u32
  total_out :: "'l word"
  zstate :: addr
  zalloc :: addr
  zfree :: addr
  opaque :: addr

text \<open>\<open>new z_stream_s{}\<close> zeroes every field.\<close>

definition zero_stream :: "'l::len z_stream" where
  "zero_stream = \<lparr>next_in = 0, avail_in = 0, total_in = 0, next_out = 0, avail_out = 0,
     total_out = 0, zstate = 0, zalloc = 0, zfree = 0, opaque = 0\<rparr>"

type_synonym 'b lib_heap = "addr \<rightharpoonup> 'b"

type_synonym ('l, 'b) zlib_step =
  "'l z_stream \<Rightarrow> zflush \<Rightarrow> memory \<Rightarrow> 'b lib_heap \<Rightarrow> zret \<times> 'l z_stream \<times> memory \<times> 'b lib_heap"

record (overloaded) ('l, 'b) zlib_api =
  deflateInit2 :: "'l z_stream \<Rightarrow> int \<Rightarrow> int \<Rightarrow> int \<Rightarrow> int \<Rightarrow> int \<Rightarrow> 'b lib_heap
    \<Rightarrow> zret \<times> 'l z_stream \<times> 'b lib_heap"
  deflate :: "('l, 'b) zlib_step"
  deflateEnd :: "'l z_stream \<Rightarrow> 'b lib_heap \<Rightarrow> zret \<times> 'l z_stream \<times> 'b lib_heap"
  inflateInit2 :: "'l z_stream \<Rightarrow> int \<Rightarrow> 'b lib_heap \<Rightarrow> zret \<times> 'l z_stream \<times> 'b lib_heap"
  inflate :: "('l, 'b) zlib_step"
  inflateEnd :: "'l z_stream \<Rightarrow> 'b lib_heap \<Rightarrow> zret \<times> 'l z_stream \<times> 'b lib_heap"
  compressBound :: "'l word \<Rightarrow> 'l word"

section \<open>The documented behaviour: buffers, counters and allocations\<close>

text \<open>What a call took from the input window and put into the output window.\<close>

definition taken :: "'l z_stream \<Rightarrow> 'l z_stream \<Rightarrow> nat" where
  "taken st st' = unat (avail_in st) - unat (avail_in st')"

definition given :: "'l z_stream \<Rightarrow> 'l z_stream \<Rightarrow> nat" where
  "given st st' = unat (avail_out st) - unat (avail_out st')"

text \<open>
  \<open>zlib.h\<close>: the four buffer fields move together, the totals count the same bytes modulo
  the width of \<open>uLong\<close>, the state pointer stays, and only the output window up to the
  bytes produced is written.
\<close>

definition zio_ok :: "'l::len z_stream \<Rightarrow> memory \<Rightarrow> 'l z_stream \<Rightarrow> memory \<Rightarrow> bool" where
  "zio_ok st m st' m' \<longleftrightarrow>
     avail_in st' \<le> avail_in st \<and> avail_out st' \<le> avail_out st \<and>
     next_in st' = next_in st + taken st st' \<and> next_out st' = next_out st + given st st' \<and>
     total_in st' = total_in st + of_nat (taken st st') \<and>
     total_out st' = total_out st + of_nat (given st st') \<and>
     zstate st' = zstate st \<and>
     same_outside m m' (next_out st) (given st st')"

text \<open>A call works on its own object of the library's heap and allocates nothing.\<close>

definition only_object :: "addr \<Rightarrow> 'b lib_heap \<Rightarrow> 'b lib_heap \<Rightarrow> bool" where
  "only_object a L L' \<longleftrightarrow> dom L' = dom L \<and> (\<forall>x. x \<noteq> a \<longrightarrow> L' x = L x)"

definition zlib_step_ok :: "('l::len, 'b) zlib_step \<Rightarrow> bool" where
  "zlib_step_ok call \<longleftrightarrow> (\<forall>st fl m L r st' m' L'.
     0 \<notin> dom L \<longrightarrow> call st fl m L = (r, st', m', L') \<longrightarrow>
     zio_ok st m st' m' \<and> only_object (zstate st) L L')"

text \<open>
  An init call on a stream with no state either succeeds and gives it a fresh object, with
  the totals at zero, or fails and leaves it without one.
\<close>

definition zlib_init_ok ::
  "('l::len z_stream \<Rightarrow> 'b lib_heap \<Rightarrow> zret \<times> 'l z_stream \<times> 'b lib_heap) \<Rightarrow> bool" where
  "zlib_init_ok init \<longleftrightarrow> (\<forall>st L r st' L'.
     0 \<notin> dom L \<longrightarrow> zstate st = 0 \<longrightarrow> init st L = (r, st', L') \<longrightarrow>
     (if r = Z_OK
      then zstate st' \<noteq> 0 \<and> zstate st' \<notin> dom L \<and> dom L' = insert (zstate st') (dom L) \<and>
        (\<forall>x. x \<noteq> zstate st' \<longrightarrow> L' x = L x) \<and> total_in st' = 0 \<and> total_out st' = 0
      else zstate st' = 0 \<and> L' = L))"

text \<open>An end call frees the stream's object, and nothing when it has none.\<close>

definition zlib_end_ok ::
  "('l z_stream \<Rightarrow> 'b lib_heap \<Rightarrow> zret \<times> 'l z_stream \<times> 'b lib_heap) \<Rightarrow> bool" where
  "zlib_end_ok fin \<longleftrightarrow> (\<forall>st L r st' L'.
     0 \<notin> dom L \<longrightarrow> fin st L = (r, st', L') \<longrightarrow> L' = L(zstate st := None))"

definition zlib_heap_contract :: "('l::len, 'b) zlib_api \<Rightarrow> bool" where
  "zlib_heap_contract Z \<longleftrightarrow>
     (\<forall>lvl meth wb ml strat. zlib_init_ok (\<lambda>st. deflateInit2 Z st lvl meth wb ml strat)) \<and>
     zlib_step_ok (deflate Z) \<and> zlib_end_ok (deflateEnd Z) \<and>
     (\<forall>wb. zlib_init_ok (\<lambda>st. inflateInit2 Z st wb)) \<and>
     zlib_step_ok (inflate Z) \<and> zlib_end_ok (inflateEnd Z)"

section \<open>The documented behaviour: return codes\<close>

text \<open>
  \<open>zlib.h\<close>: \<open>deflate\<close> returns \<open>Z_STREAM_END\<close> only for \<open>Z_FINISH\<close> and only once all input
  is consumed; both calls stop only when the input is used up or the output is full.
\<close>

definition zlib_code_contract :: "('l::len, 'b) zlib_api \<Rightarrow> bool" where
  "zlib_code_contract Z \<longleftrightarrow>
     (\<forall>st fl m L r st' m' L'. deflate Z st fl m L = (r, st', m', L') \<longrightarrow>
        (r = Z_STREAM_END \<longrightarrow> fl = Z_FINISH \<and> avail_in st' = 0) \<and>
        (r = Z_OK \<or> r = Z_BUF_ERROR \<longrightarrow> avail_in st' = 0 \<or> avail_out st' = 0) \<and>
        (r = Z_OK \<and> fl = Z_FINISH \<longrightarrow> avail_out st' = 0)) \<and>
     (\<forall>st fl m L r st' m' L'. inflate Z st fl m L = (r, st', m', L') \<longrightarrow>
        (r = Z_OK \<or> r = Z_BUF_ERROR \<longrightarrow> avail_in st' = 0 \<or> avail_out st' = 0))"

text \<open>
  \<open>Z_BUF_ERROR\<close> means that no progress was possible, so a finishing call without input that
  returns it has given nothing.
\<close>

definition zlib_idle :: "('l::len, 'b) zlib_api \<Rightarrow> bool" where
  "zlib_idle Z \<longleftrightarrow> (\<forall>st m L st' m' L'.
     deflate Z st Z_FINISH m L = (Z_BUF_ERROR, st', m', L') \<longrightarrow> avail_in st = 0 \<longrightarrow> given st st' = 0)"

section \<open>The documented behaviour: the codec\<close>

text \<open>
  What the two halves of zlib mean to each other. \<open>enc wb lvl xs\<close> is the stream for \<open>xs\<close> at
  a level in the container that window bits \<open>wb\<close> select, and \<open>dec wb ys xs\<close> says that \<open>ys\<close> is
  one complete stream of \<open>xs\<close>. Both are parameters: nothing is said about deflate's format.

  \<open>zlib_encodes\<close>: a finishing call on a fresh stream, given at least \<open>compressBound\<close> bytes of
  output and reporting \<open>Z_STREAM_END\<close>, wrote exactly the stream. \<open>zlib_decodes\<close>: a finishing call
  on a complete stream with room for the data restores it. The windows must not overlap and the
  pointers that are used must not be null.
\<close>

definition zlib_encodes ::
  "('l::len, 'b) zlib_api \<Rightarrow> (int \<Rightarrow> int \<Rightarrow> u8 list \<Rightarrow> u8 list) \<Rightarrow> bool" where
  "zlib_encodes Z enc \<longleftrightarrow> (\<forall>lvl wb L0 st L a n b k m st1 st2 m2 L2.
     deflateInit2 Z zero_stream lvl 8 wb 8 0 L0 = (Z_OK, st, L) \<longrightarrow>
     apart a (unat n) b (unat k) \<longrightarrow>
     unat (compressBound Z (of_nat (unat n))) \<le> unat k \<longrightarrow>
     st1 = st\<lparr>next_in := a, avail_in := n, next_out := b, avail_out := k\<rparr> \<longrightarrow>
     deflate Z st1 Z_FINISH m L = (Z_STREAM_END, st2, m2, L2) \<longrightarrow>
     given st1 st2 = length (enc wb lvl (bytes_at m a (unat n))) \<and>
     bytes_at m2 b (given st1 st2) = enc wb lvl (bytes_at m a (unat n)))"

text \<open>
  \<open>zlib_finishes\<close> says of one size of input and one size of output that the finishing call on a
  fresh stream reports \<open>Z_STREAM_END\<close>. \<open>zlib.h\<close> promises it in two cases. \<open>zlib_bound_covers\<close>:
  \<open>compressBound\<close> bytes are enough for \<open>compress2\<close>, that is for the zlib container with the
  default window (window bits 15) at every level; of the gzip container it says nothing, and
  there it is false. \<open>zlib_deflate_bound\<close>: for every container and level, the size \<open>D wb lvl n\<close>
  that \<open>deflateBound\<close> gives for the fresh stream is enough; the program never asks for it.
\<close>

definition zlib_finishes :: "('l::len, 'b) zlib_api \<Rightarrow> int \<Rightarrow> int \<Rightarrow> u32 \<Rightarrow> u32 \<Rightarrow> bool" where
  "zlib_finishes Z wb lvl n k \<longleftrightarrow> (\<forall>L0 st L a b m.
     deflateInit2 Z zero_stream lvl 8 wb 8 0 L0 = (Z_OK, st, L) \<longrightarrow>
     apart a (unat n) b (unat k) \<longrightarrow> b \<noteq> 0 \<longrightarrow> n = 0 \<or> a \<noteq> 0 \<longrightarrow>
     fst (deflate Z (st\<lparr>next_in := a, avail_in := n, next_out := b, avail_out := k\<rparr>) Z_FINISH m L)
       = Z_STREAM_END)"

definition zlib_bound_covers :: "('l::len, 'b) zlib_api \<Rightarrow> bool" where
  "zlib_bound_covers Z \<longleftrightarrow> (\<forall>lvl n k.
     unat (compressBound Z (of_nat (unat n))) \<le> unat k \<longrightarrow> zlib_finishes Z 15 lvl n k)"

definition zlib_deflate_bound :: "('l::len, 'b) zlib_api \<Rightarrow> (int \<Rightarrow> int \<Rightarrow> nat \<Rightarrow> nat) \<Rightarrow> bool" where
  "zlib_deflate_bound Z D \<longleftrightarrow> (\<forall>wb lvl n k. D wb lvl (unat n) \<le> unat k \<longrightarrow> zlib_finishes Z wb lvl n k)"

definition zlib_decodes ::
  "('l::len, 'b) zlib_api \<Rightarrow> (int \<Rightarrow> u8 list \<Rightarrow> u8 list \<Rightarrow> bool) \<Rightarrow> bool" where
  "zlib_decodes Z dec \<longleftrightarrow> (\<forall>wb L0 st L a n b k m xs st1 r st2 m2 L2.
     inflateInit2 Z zero_stream wb L0 = (Z_OK, st, L) \<longrightarrow>
     apart a (unat n) b (unat k) \<longrightarrow> b \<noteq> 0 \<longrightarrow> n = 0 \<or> a \<noteq> 0 \<longrightarrow>
     dec wb (bytes_at m a (unat n)) xs \<longrightarrow> length xs \<le> unat k \<longrightarrow>
     st1 = st\<lparr>next_in := a, avail_in := n, next_out := b, avail_out := k\<rparr> \<longrightarrow>
     inflate Z st1 Z_FINISH m L = (r, st2, m2, L2) \<longrightarrow>
     r = Z_STREAM_END \<and> avail_in st2 = 0 \<and> given st1 st2 = length xs \<and>
     bytes_at m2 b (length xs) = xs)"

text \<open>
  \<open>zlib_formats_agree\<close>: what is encoded decodes, and the OS byte of a gzip header (offset 9)
  is informational, so any value there decodes to the same data (RFC 1952).
\<close>

definition zlib_formats_agree ::
  "(int \<Rightarrow> int \<Rightarrow> u8 list \<Rightarrow> u8 list) \<Rightarrow> (int \<Rightarrow> u8 list \<Rightarrow> u8 list \<Rightarrow> bool) \<Rightarrow> bool" where
  "zlib_formats_agree enc dec \<longleftrightarrow>
     (\<forall>wb lvl xs. dec wb (enc wb lvl xs) xs) \<and>
     (\<forall>ys xs v. dec 31 ys xs \<longrightarrow> 10 \<le> length ys \<longrightarrow> dec 31 (ys[9 := v]) xs)"

text \<open>The pointers that a call needs are not null.\<close>

definition windows_set :: "'l z_stream \<Rightarrow> bool" where
  "windows_set st \<longleftrightarrow> next_out st \<noteq> 0 \<and> (avail_in st = 0 \<or> next_in st \<noteq> 0)"

section \<open>Consequences used by the backend\<close>

lemma zio_okD:
  assumes "zio_ok st m st' m'"
  shows "taken st st' \<le> unat (avail_in st)" "given st st' \<le> unat (avail_out st)"
    "same_outside m m' (next_out st) (unat (avail_out st))"
proof -
  show "taken st st' \<le> unat (avail_in st)" by (simp add: taken_def)
  show g: "given st st' \<le> unat (avail_out st)" by (simp add: given_def)
  show "same_outside m m' (next_out st) (unat (avail_out st))"
    using assms g by (auto simp: zio_ok_def intro: same_outside_mono)
qed

lemma zlib_step_okD:
  assumes "zlib_step_ok call" "0 \<notin> dom L" "call st fl m L = (r, st', m', L')"
  shows "zio_ok st m st' m'" "only_object (zstate st) L L'"
  using assms by (auto simp: zlib_step_ok_def)

lemma only_object_refl [simp]: "only_object a L L"
  by (simp add: only_object_def)

text \<open>
  The 64-bit difference of two readings of a total is the number of bytes moved, as long
  as \<open>uLong\<close> is 64 bits wide.
\<close>

lemma total_diff_64:
  fixes t :: "64 word"
  shows "(ucast (t + of_nat n) :: u64) - ucast t = of_nat n"
  by simp

end
