(* ===== verification/Zstd_Api.thy ===== *)
theory Zstd_Api
  imports Error_Format
begin

text \<open>
  The boundary to zstd, in the same style as \<open>Zlib_Api\<close>: the stable entry points of
  \<open>zstd.h\<close> that the code calls are the fields of a record \<open>zstd_api\<close>, an argument of the
  definitions that use them, with the documented behaviour as predicates. The contexts live
  in the same library heap as zlib's states.
\<close>

section \<open>The buffers and the entry points\<close>

datatype zstd_c_parameter = ZSTD_c_compressionLevel

datatype zstd_end_op = ZSTD_e_continue | ZSTD_e_flush | ZSTD_e_end

record in_buffer =
  ib_src :: addr
  ib_size :: u64
  ib_pos :: u64

record out_buffer =
  ob_dst :: addr
  ob_size :: u64
  ob_pos :: u64

type_synonym 'b ctx_heap = "addr \<rightharpoonup> 'b"

type_synonym 'b zstd_step =
  "addr \<Rightarrow> out_buffer \<Rightarrow> in_buffer \<Rightarrow> memory \<Rightarrow> 'b ctx_heap
    \<Rightarrow> u64 \<times> out_buffer \<times> in_buffer \<times> memory \<times> 'b ctx_heap"

record 'b zstd_api =
  ZSTD_createCCtx :: "'b ctx_heap \<Rightarrow> addr \<times> 'b ctx_heap"
  ZSTD_freeCCtx :: "addr \<Rightarrow> 'b ctx_heap \<Rightarrow> 'b ctx_heap"
  ZSTD_CCtx_setParameter :: "addr \<Rightarrow> zstd_c_parameter \<Rightarrow> c_int \<Rightarrow> 'b ctx_heap \<Rightarrow> u64 \<times> 'b ctx_heap"
  ZSTD_compress :: "addr \<Rightarrow> u64 \<Rightarrow> addr \<Rightarrow> u64 \<Rightarrow> c_int \<Rightarrow> memory \<Rightarrow> u64 \<times> memory"
  ZSTD_compressStream2 :: "zstd_end_op \<Rightarrow> 'b zstd_step"
  ZSTD_createDCtx :: "'b ctx_heap \<Rightarrow> addr \<times> 'b ctx_heap"
  ZSTD_freeDCtx :: "addr \<Rightarrow> 'b ctx_heap \<Rightarrow> 'b ctx_heap"
  ZSTD_decompress :: "addr \<Rightarrow> u64 \<Rightarrow> addr \<Rightarrow> u64 \<Rightarrow> memory \<Rightarrow> u64 \<times> memory"
  ZSTD_decompressStream :: "'b zstd_step"
  ZSTD_isError :: "u64 \<Rightarrow> bool"
  ZSTD_getErrorName :: "u64 \<Rightarrow> string"
  ZSTD_compressBound :: "u64 \<Rightarrow> u64"

section \<open>The documented behaviour: buffers and allocations\<close>

definition zstd_create_ok :: "('b ctx_heap \<Rightarrow> addr \<times> 'b ctx_heap) \<Rightarrow> bool" where
  "zstd_create_ok create \<longleftrightarrow> (\<forall>L a L'. 0 \<notin> dom L \<longrightarrow> create L = (a, L') \<longrightarrow>
     (if a = 0 then L' = L
      else a \<notin> dom L \<and> dom L' = insert a (dom L) \<and> (\<forall>x. x \<noteq> a \<longrightarrow> L' x = L x)))"

definition zstd_free_ok :: "(addr \<Rightarrow> 'b ctx_heap \<Rightarrow> 'b ctx_heap) \<Rightarrow> bool" where
  "zstd_free_ok free \<longleftrightarrow> (\<forall>a L. free a L = L(a := None))"

text \<open>
  A streaming call moves the two positions forward within their buffers, writes only
  between the old and the new output position, and works on its own context.
\<close>

definition zstd_io_ok ::
  "out_buffer \<Rightarrow> in_buffer \<Rightarrow> memory \<Rightarrow> out_buffer \<Rightarrow> in_buffer \<Rightarrow> memory \<Rightarrow> bool" where
  "zstd_io_ok ob ib m ob' ib' m' \<longleftrightarrow>
     ob_dst ob' = ob_dst ob \<and> ob_size ob' = ob_size ob \<and>
     ob_pos ob \<le> ob_pos ob' \<and> ob_pos ob' \<le> ob_size ob \<and>
     ib_src ib' = ib_src ib \<and> ib_size ib' = ib_size ib \<and>
     ib_pos ib \<le> ib_pos ib' \<and> ib_pos ib' \<le> ib_size ib \<and>
     same_outside m m' (ob_dst ob + unat (ob_pos ob)) (unat (ob_pos ob' - ob_pos ob))"

definition zstd_step_ok :: "'b zstd_step \<Rightarrow> bool" where
  "zstd_step_ok call \<longleftrightarrow> (\<forall>a ob ib m L r ob' ib' m' L'.
     ob_pos ob \<le> ob_size ob \<longrightarrow> ib_pos ib \<le> ib_size ib \<longrightarrow>
     call a ob ib m L = (r, ob', ib', m', L') \<longrightarrow>
     zstd_io_ok ob ib m ob' ib' m' \<and> dom L' = dom L \<and> (\<forall>x. x \<noteq> a \<longrightarrow> L' x = L x))"

text \<open>
  A one-shot call returns the bytes it wrote, at most the capacity, or an error code, and
  writes only inside the destination. Its own context is gone when it returns.
\<close>

definition zstd_heap_contract :: "'b zstd_api \<Rightarrow> bool" where
  "zstd_heap_contract S \<longleftrightarrow>
     zstd_create_ok (ZSTD_createCCtx S) \<and> zstd_free_ok (ZSTD_freeCCtx S) \<and>
     (\<forall>a p v L r L'. ZSTD_CCtx_setParameter S a p v L = (r, L') \<longrightarrow>
        dom L' = dom L \<and> (\<forall>x. x \<noteq> a \<longrightarrow> L' x = L x)) \<and>
     (\<forall>d cap s n v m r m'. ZSTD_compress S d cap s n v m = (r, m') \<longrightarrow>
        (\<not> ZSTD_isError S r \<longrightarrow> r \<le> cap) \<and> same_outside m m' d (unat cap)) \<and>
     (\<forall>e. zstd_step_ok (ZSTD_compressStream2 S e)) \<and>
     zstd_create_ok (ZSTD_createDCtx S) \<and> zstd_free_ok (ZSTD_freeDCtx S) \<and>
     (\<forall>d cap s n m r m'. ZSTD_decompress S d cap s n m = (r, m') \<longrightarrow>
        (\<not> ZSTD_isError S r \<longrightarrow> r \<le> cap) \<and> same_outside m m' d (unat cap)) \<and>
     zstd_step_ok (ZSTD_decompressStream S)"

text \<open>
  The end directive: a call that leaves something to flush (a non-zero, non-error return)
  either filled the output or moved the output position; without workers it blocks until
  one of the two.
\<close>

definition zstd_end_progress :: "'b zstd_api \<Rightarrow> bool" where
  "zstd_end_progress S \<longleftrightarrow> (\<forall>a ob ib m L r ob' ib' m' L'.
     ob_pos ob \<le> ob_size ob \<longrightarrow> ib_pos ib \<le> ib_size ib \<longrightarrow>
     ZSTD_compressStream2 S ZSTD_e_end a ob ib m L = (r, ob', ib', m', L') \<longrightarrow>
     \<not> ZSTD_isError S r \<longrightarrow> r \<noteq> 0 \<longrightarrow> ob_pos ob' = ob_size ob' \<or> ob_pos ob < ob_pos ob')"

section \<open>The documented behaviour: the codec\<close>

text \<open>
  \<open>enc lvl xs\<close> is the frame for \<open>xs\<close> at a level and \<open>dec ys xs\<close> says that \<open>ys\<close> is a complete
  frame of \<open>xs\<close>; both are parameters. \<open>ZSTD_compress\<close> into at least \<open>ZSTD_compressBound\<close> bytes
  that reports no error wrote the frame, and \<open>ZSTD_decompress\<close> of a frame with room for the
  data restores it. The buffers must not overlap.
\<close>

definition zstd_encodes :: "'b zstd_api \<Rightarrow> (c_int \<Rightarrow> u8 list \<Rightarrow> u8 list) \<Rightarrow> bool" where
  "zstd_encodes S enc \<longleftrightarrow> (\<forall>d cap s n v m r m'.
     apart s (unat n) d (unat cap) \<longrightarrow> ZSTD_compressBound S n \<le> cap \<longrightarrow>
     \<not> ZSTD_isError S (ZSTD_compressBound S n) \<longrightarrow>
     ZSTD_compress S d cap s n v m = (r, m') \<longrightarrow> \<not> ZSTD_isError S r \<longrightarrow>
     unat r = length (enc v (bytes_at m s (unat n))) \<and>
     bytes_at m' d (unat r) = enc v (bytes_at m s (unat n)))"

definition zstd_decodes :: "'b zstd_api \<Rightarrow> (u8 list \<Rightarrow> u8 list \<Rightarrow> bool) \<Rightarrow> bool" where
  "zstd_decodes S dec \<longleftrightarrow> (\<forall>d cap s n m xs r m'.
     apart s (unat n) d (unat cap) \<longrightarrow> dec (bytes_at m s (unat n)) xs \<longrightarrow>
     length xs \<le> unat cap \<longrightarrow> ZSTD_decompress S d cap s n m = (r, m') \<longrightarrow>
     \<not> ZSTD_isError S r \<and> unat r = length xs \<and> bytes_at m' d (length xs) = xs)"

definition zstd_formats_agree ::
  "(c_int \<Rightarrow> u8 list \<Rightarrow> u8 list) \<Rightarrow> (u8 list \<Rightarrow> u8 list \<Rightarrow> bool) \<Rightarrow> bool" where
  "zstd_formats_agree enc dec \<longleftrightarrow> (\<forall>v xs. dec (enc v xs) xs)"

section \<open>Consequences used by the backend\<close>

lemma zstd_step_okD:
  assumes "zstd_step_ok call" "ob_pos ob \<le> ob_size ob" "ib_pos ib \<le> ib_size ib"
    "call a ob ib m L = (r, ob', ib', m', L')"
  shows "zstd_io_ok ob ib m ob' ib' m'" "dom L' = dom L" "\<forall>x. x \<noteq> a \<longrightarrow> L' x = L x"
  using assms by (auto simp: zstd_step_ok_def)

lemma zstd_io_ok_mem:
  assumes "zstd_io_ok ob ib m ob' ib' m'"
  shows "same_outside m m' (ob_dst ob) (unat (ob_size ob))"
proof -
  let ?p = "unat (ob_pos ob)" and ?p' = "unat (ob_pos ob')"
  have le: "?p \<le> ?p'" "?p' \<le> unat (ob_size ob)"
    using assms by (simp_all add: zstd_io_ok_def word_le_nat_alt)
  have "unat (ob_pos ob' - ob_pos ob) = ?p' - ?p"
    using assms by (simp add: zstd_io_ok_def unat_sub)
  then have "same_outside m m' (ob_dst ob + ?p) (?p' - ?p)"
    using assms by (simp add: zstd_io_ok_def)
  then show ?thesis
    by (rule same_outside_mono) (use le in linarith)+
qed

end
