(* ===== verification/World.thy ===== *)
theory World
  imports Zlib_Api Zstd_Api
begin

text \<open>
  The state a call runs in and the fixed environment it is compiled against.

  The world holds the caller's byte memory, the C++ heap cells of \<open>z_stream_s\<close> objects
  (what \<open>std::unique_ptr\<close> owns), and the heap of the two C libraries. The streaming layer
  extends it with the cells of its pimpl objects. The environment is the build: which
  backends are compiled in (\<open>POLLIWOG_HAS_ZLIB\<close>, \<open>POLLIWOG_HAS_ZSTD\<close>), whether \<open>assert\<close> is
  compiled out (\<open>NDEBUG\<close>), and the entry points of the C libraries.
\<close>

record (overloaded) ('l, 'b) world =
  mem :: memory
  zstreams :: "addr \<rightharpoonup> 'l z_stream"
  lib :: "addr \<rightharpoonup> 'b"
  brk :: addr

record (overloaded) ('l, 'b) env =
  has_zlib :: bool
  has_zstd :: bool
  ndebug :: bool
  zlib :: "('l, 'b) zlib_api"
  zstd :: "'b zstd_api"

text \<open>Null is never allocated, and cells from \<open>brk\<close> on are free.\<close>

definition wf_world :: "('l::len, 'b, 'm) world_scheme \<Rightarrow> bool" where
  "wf_world w \<longleftrightarrow> 0 \<notin> dom (zstreams w) \<and> 0 \<notin> dom (lib w) \<and> 0 < brk w \<and>
     (\<forall>a. brk w \<le> a \<longrightarrow> zstreams w a = None)"

text \<open>The environment's libraries keep their heap contracts.\<close>

definition env_ok :: "('l::len, 'b) env \<Rightarrow> bool" where
  "env_ok E \<longleftrightarrow> zlib_heap_contract (zlib E) \<and> zstd_heap_contract (zstd E)"

section \<open>Frames\<close>

text \<open>
  \<open>frame P S w w'\<close>: from \<open>w\<close> to \<open>w'\<close> only the stream cells in \<open>P\<close> and the library objects
  in \<open>S\<close> may differ, and nothing of what extends the world.
\<close>

definition frame ::
  "addr set \<Rightarrow> addr set \<Rightarrow> ('l::len, 'b, 'm) world_scheme \<Rightarrow> ('l, 'b, 'm) world_scheme \<Rightarrow> bool"
  where
  "frame P S w w' \<longleftrightarrow>
     (\<forall>a. a \<notin> P \<longrightarrow> zstreams w' a = zstreams w a) \<and>
     (\<forall>a. a \<notin> S \<longrightarrow> lib w' a = lib w a) \<and>
     brk w \<le> brk w' \<and>
     world.more w' = world.more w"

text \<open>The heaps are the same: nothing leaked, nothing freed that was there, nothing changed.\<close>

definition same_heap ::
  "('l::len, 'b, 'm) world_scheme \<Rightarrow> ('l, 'b, 'm) world_scheme \<Rightarrow> bool" where
  "same_heap w w' \<longleftrightarrow> zstreams w' = zstreams w \<and> lib w' = lib w \<and> world.more w' = world.more w"

named_theorems frame_intros

lemma frame_refl [simp, frame_intros]: "frame P S w w"
  by (simp add: frame_def)

lemma frame_trans:
  "frame P S w w' \<Longrightarrow> frame P S w' w'' \<Longrightarrow> frame P S w w''"
  by (auto simp: frame_def)

lemma frame_mono:
  "frame P S w w' \<Longrightarrow> P \<subseteq> P' \<Longrightarrow> S \<subseteq> S' \<Longrightarrow> frame P' S' w w'"
  by (auto simp: frame_def)

lemma frame_mem [simp, frame_intros]: "frame P S w (w\<lparr>mem := m\<rparr>)"
  by (simp add: frame_def)

lemma same_heap_refl [simp]: "same_heap w w"
  by (simp add: same_heap_def)

lemma frame_empty: "frame {} {} w w' \<Longrightarrow> same_heap w w'"
  by (auto simp: frame_def same_heap_def)

text \<open>Two stretches with fresh cells in between that are gone at the end restore the heap.\<close>

lemma frame_same_heap:
  assumes "frame P S w w'"
    and "\<And>a. a \<in> P \<Longrightarrow> zstreams w a = None \<and> zstreams w' a = None"
    and "\<And>a. a \<in> S \<Longrightarrow> lib w a = None \<and> lib w' a = None"
  shows "same_heap w w'"
proof -
  have "zstreams w' a = zstreams w a" for a
    using assms(1,2) by (cases "a \<in> P") (auto simp: frame_def)
  moreover have "lib w' a = lib w a" for a
    using assms(1,3) by (cases "a \<in> S") (auto simp: frame_def)
  ultimately show ?thesis
    using assms(1) by (auto simp: same_heap_def frame_def)
qed

section \<open>Cells of the C++ heap\<close>

definition new_zstream ::
  "'l::len z_stream \<Rightarrow> ('l, 'b, 'm) world_scheme \<Rightarrow> addr \<times> ('l, 'b, 'm) world_scheme" where
  "new_zstream z w = (brk w, w\<lparr>zstreams := (zstreams w)(brk w \<mapsto> z), brk := Suc (brk w)\<rparr>)"

definition delete_zstream ::
  "addr \<Rightarrow> ('l::len, 'b, 'm) world_scheme \<Rightarrow> ('l, 'b, 'm) world_scheme" where
  "delete_zstream p w = w\<lparr>zstreams := (zstreams w)(p := None)\<rparr>"

text \<open>Following a pointer that is null, or whose object is gone, is undefined.\<close>

definition deref_zstream ::
  "addr \<Rightarrow> ('l::len, 'b, 'm) world_scheme \<Rightarrow> 'l z_stream run" where
  "deref_zstream p w = (case zstreams w p of None \<Rightarrow> Inl Undefined_Behaviour | Some z \<Rightarrow> Inr z)"

lemma deref_zstream_Inr [run_simps]: "deref_zstream p w = Inr z \<longleftrightarrow> zstreams w p = Some z"
  by (simp add: deref_zstream_def split: option.splits)

lemma deref_zstream_Some [simp]: "zstreams w p = Some z \<Longrightarrow> deref_zstream p w = Inr z"
  by (simp add: deref_zstream_def)

lemma wf_world_delete: "wf_world w \<Longrightarrow> wf_world (delete_zstream p w)"
  by (auto simp: wf_world_def delete_zstream_def)

lemma wf_world_mem [simp]: "wf_world (w\<lparr>mem := m\<rparr>) = wf_world w"
  by (simp add: wf_world_def)

end
