(* ===== verification/Backend_Contract.thy ===== *)
theory Backend_Contract
  imports World
begin

text \<open>
  \<open>include/detail/backend.hpp\<close>: the progress value, the result type of every fallible
  backend expression, and the backend contract as locales. \<open>handle_op\<close> is what one
  operation on a handle promises, \<open>backend_op\<close> adds what its errors say, \<open>counted_op\<close> adds honest byte counts, \<open>raii_handle\<close> is
  what construction and destruction promise, and \<open>scoped_handle\<close> puts them together as the
  one-shot layer uses them: a handle that lives for the length of one block. The backends'
  theories interpret them on the model of the code.
\<close>

section \<open>Progress and results\<close>

record progress =
  pg_in :: u64
  pg_out :: u64
  pg_done :: bool

type_synonym op_result = "error + progress"

definition mk_progress :: "u64 \<Rightarrow> u64 \<Rightarrow> bool \<Rightarrow> progress" where
  "mk_progress i out d = \<lparr>pg_in = i, pg_out = out, pg_done = d\<rparr>"

lemma mk_progress_sel [simp]:
  "pg_in (mk_progress i out d) = i" "pg_out (mk_progress i out d) = out"
  "pg_done (mk_progress i out d) = d"
  by (simp_all add: mk_progress_def)

section \<open>Block scope\<close>

text \<open>
  A local object: constructed, used by the block, destroyed when the block is left, on every
  path that leaves it.
\<close>

definition scoped ::
  "('w \<Rightarrow> ('h \<times> 'w) run) \<Rightarrow> ('h \<Rightarrow> 'w \<Rightarrow> ('r \<times> 'w) run) \<Rightarrow> ('h \<Rightarrow> 'w \<Rightarrow> 'w run) \<Rightarrow> 'w
    \<Rightarrow> ('r \<times> 'w) run" where
  "scoped create body destroy w =
     chain (create w) (\<lambda>(h, w1).
     chain (body h w1) (\<lambda>(r, w2).
     chain (destroy h w2) (\<lambda>w3. Inr (r, w3))))"

lemma scopedE:
  assumes "scoped create body destroy w = Inr (r, w')"
  obtains h w1 w2 where "create w = Inr (h, w1)" "body h w1 = Inr (r, w2)" "destroy h w2 = Inr w'"
  using assms by (auto simp: scoped_def chain_Inr_iff)

section \<open>The contract of an operation\<close>

locale handle_op =
  fixes op :: "'h \<Rightarrow> span \<Rightarrow> span \<Rightarrow> ('l::len, 'b, 'm) world_scheme
      \<Rightarrow> ((error + 'p) \<times> ('l, 'b, 'm) world_scheme) run"
    and cells :: "'h \<Rightarrow> ('l, 'b, 'm) world_scheme \<Rightarrow> addr set"
    and objects :: "'h \<Rightarrow> ('l, 'b, 'm) world_scheme \<Rightarrow> addr set"
    and ready :: "'h \<Rightarrow> ('l, 'b, 'm) world_scheme \<Rightarrow> bool"
    and lawful :: bool
  assumes op_defined: "lawful \<Longrightarrow> wf_world w \<Longrightarrow> ready h w \<Longrightarrow> \<exists>r w'. op h i out w = Inr (r, w')"
    and op_frame: "lawful \<Longrightarrow> wf_world w \<Longrightarrow> ready h w \<Longrightarrow> op h i out w = Inr (r, w') \<Longrightarrow>
      frame (cells h w) (objects h w) w w' \<and> wf_world w' \<and> ready h w' \<and>
      cells h w' = cells h w \<and> objects h w' = objects h w"
    and op_writes: "lawful \<Longrightarrow> wf_world w \<Longrightarrow> ready h w \<Longrightarrow> op h i out w = Inr (r, w') \<Longrightarrow>
      same_outside (mem w) (mem w') (span_data out) (unat (span_size out))"
begin

text \<open>A list of calls on one handle, stopping at the first error, as a streaming caller does.\<close>

fun calls :: "'h \<Rightarrow> (span \<times> span) list \<Rightarrow> ('l, 'b, 'm) world_scheme
    \<Rightarrow> ((error + 'p) list \<times> ('l, 'b, 'm) world_scheme) run" where
  "calls h [] w = Inr ([], w)"
| "calls h ((i, out) # xs) w = chain (op h i out w) (\<lambda>(r, w1).
     case r of Inl e \<Rightarrow> Inr ([Inl e], w1)
     | Inr p \<Rightarrow> chain (calls h xs w1) (\<lambda>(rs, w2). Inr (Inr p # rs, w2)))"

lemma calls_frame:
  assumes "lawful"
  shows "wf_world w \<Longrightarrow> ready h w \<Longrightarrow>
    \<exists>rs w'. calls h xs w = Inr (rs, w') \<and> frame (cells h w) (objects h w) w w' \<and> wf_world w' \<and>
      ready h w' \<and> cells h w' = cells h w \<and> objects h w' = objects h w"
proof (induction xs arbitrary: w)
  case Nil
  then show ?case by simp
next
  case (Cons x xs)
  obtain i out where x: "x = (i, out)" by force
  from op_defined [OF assms Cons.prems] obtain r w1 where op: "op h i out w = Inr (r, w1)"
    by blast
  note fr = op_frame [OF assms Cons.prems op]
  show ?case
  proof (cases r)
    case (Inl e)
    then show ?thesis using op fr x by auto
  next
    case (Inr p)
    from Cons.IH [of w1] fr obtain rs w' where "calls h xs w1 = Inr (rs, w')"
      "frame (cells h w) (objects h w) w1 w'" "wf_world w'" "ready h w'"
      "cells h w' = cells h w" "objects h w' = objects h w"
      by auto
    then show ?thesis using op fr x Inr by (auto intro: frame_trans)
  qed
qed

end

text \<open>An operation of a backend reports progress, and its errors name the backend.\<close>

locale backend_op = handle_op op cells objects ready lawful
  for op :: "'h \<Rightarrow> span \<Rightarrow> span \<Rightarrow> ('l::len, 'b, 'm) world_scheme
      \<Rightarrow> (op_result \<times> ('l, 'b, 'm) world_scheme) run"
    and cells objects ready and ident :: backend_id and lawful +
  assumes op_error: "op h i out w = Inr (Inl e, w') \<Longrightarrow> err_b e = ident \<and>
      err_k e \<in> {Backend_Failure, Stream_Corrupt, Buffer_Too_Small}"

text \<open>Honest counts: never more than the spans hold.\<close>

locale counted_op = backend_op op cells objects ready ident lawful
  for op :: "'h \<Rightarrow> span \<Rightarrow> span \<Rightarrow> ('l::len, 'b, 'm) world_scheme
      \<Rightarrow> (op_result \<times> ('l, 'b, 'm) world_scheme) run"
    and cells objects ready ident lawful +
  assumes op_counts: "lawful \<Longrightarrow> wf_world w \<Longrightarrow> ready h w \<Longrightarrow> op h i out w = Inr (Inr p, w') \<Longrightarrow>
      pg_in p \<le> span_size i \<and> pg_out p \<le> span_size out"

section \<open>The contract of a handle's lifetime\<close>

locale raii_handle =
  fixes create :: "('l::len, 'b, 'm) world_scheme \<Rightarrow> ('h \<times> ('l, 'b, 'm) world_scheme) run"
    and destroy :: "'h \<Rightarrow> ('l, 'b, 'm) world_scheme \<Rightarrow> ('l, 'b, 'm) world_scheme run"
    and cells :: "'h \<Rightarrow> ('l, 'b, 'm) world_scheme \<Rightarrow> addr set"
    and objects :: "'h \<Rightarrow> ('l, 'b, 'm) world_scheme \<Rightarrow> addr set"
    and ready :: "'h \<Rightarrow> ('l, 'b, 'm) world_scheme \<Rightarrow> bool"
    and lawful :: bool
  assumes create_fresh: "lawful \<Longrightarrow> wf_world w \<Longrightarrow> create w = Inr (h, w') \<Longrightarrow>
      wf_world w' \<and> ready h w' \<and> frame (cells h w') (objects h w') w w' \<and> mem w' = mem w \<and>
      (\<forall>a \<in> cells h w'. zstreams w a = None) \<and> (\<forall>a \<in> objects h w'. lib w a = None)"
    and destroy_frees: "lawful \<Longrightarrow> wf_world w \<Longrightarrow> ready h w \<Longrightarrow>
      \<exists>w'. destroy h w = Inr w' \<and> wf_world w' \<and> frame (cells h w) (objects h w) w w' \<and>
        mem w' = mem w \<and>
        (\<forall>a \<in> cells h w. zstreams w' a = None) \<and> (\<forall>a \<in> objects h w. lib w' a = None)"
begin

lemma scoped_restores:
  assumes "lawful" "wf_world w" and run: "scoped create body destroy w = Inr (r, w')"
    and body: "\<And>h w1 r w2. wf_world w1 \<Longrightarrow> ready h w1 \<Longrightarrow> body h w1 = Inr (r, w2) \<Longrightarrow>
      frame (cells h w1) (objects h w1) w1 w2 \<and> wf_world w2 \<and> ready h w2 \<and>
      cells h w2 = cells h w1 \<and> objects h w2 = objects h w1"
  shows "same_heap w w'"
proof -
  from run obtain h w1 w2 where mk: "create w = Inr (h, w1)" and bd: "body h w1 = Inr (r, w2)"
    and ds: "destroy h w2 = Inr w'"
    by (rule scopedE)
  note m = create_fresh [OF assms(1,2) mk]
  then have b: "frame (cells h w1) (objects h w1) w1 w2" "wf_world w2" "ready h w2"
    "cells h w2 = cells h w1" "objects h w2 = objects h w1"
    using body bd by blast+
  from destroy_frees [OF assms(1) b(2,3)] ds b
  have d: "frame (cells h w1) (objects h w1) w2 w'"
    "\<forall>a \<in> cells h w1. zstreams w' a = None" "\<forall>a \<in> objects h w1. lib w' a = None"
    by auto
  have "frame (cells h w1) (objects h w1) w w'"
    using m b(1) d(1) by (blast intro: frame_trans)
  then show ?thesis
    by (rule frame_same_heap) (use m d in auto)
qed

lemma scoped_mem:
  assumes "lawful" "wf_world w" and run: "scoped create body destroy w = Inr (r, w')"
    and body: "\<And>h w1 r w2. wf_world w1 \<Longrightarrow> ready h w1 \<Longrightarrow> body h w1 = Inr (r, w2) \<Longrightarrow>
      wf_world w2 \<and> ready h w2 \<and> same_outside (mem w1) (mem w2) a n"
  shows "same_outside (mem w) (mem w') a n"
proof -
  from run obtain h w1 w2 where mk: "create w = Inr (h, w1)" and bd: "body h w1 = Inr (r, w2)"
    and ds: "destroy h w2 = Inr w'"
    by (rule scopedE)
  note m = create_fresh [OF assms(1,2) mk]
  then have b: "wf_world w2" "ready h w2" "same_outside (mem w1) (mem w2) a n"
    using body bd by blast+
  with destroy_frees [OF assms(1) b(1,2)] ds m show ?thesis by auto
qed

lemma scoped_wf:
  assumes "lawful" "wf_world w" and run: "scoped create body destroy w = Inr (r, w')"
    and body: "\<And>h w1 r w2. wf_world w1 \<Longrightarrow> ready h w1 \<Longrightarrow> body h w1 = Inr (r, w2) \<Longrightarrow>
      wf_world w2 \<and> ready h w2"
  shows "wf_world w'"
proof -
  from run obtain h w1 w2 where mk: "create w = Inr (h, w1)" and bd: "body h w1 = Inr (r, w2)"
    and ds: "destroy h w2 = Inr w'"
    by (rule scopedE)
  from create_fresh [OF assms(1,2) mk] body bd have "wf_world w2" "ready h w2" by blast+
  with destroy_frees [OF assms(1)] ds show ?thesis by force
qed

end

section \<open>A handle in a block\<close>

locale scoped_handle =
  raii_handle create destroy cells objects ready lawful +
  backend_op op cells objects ready ident lawful
  for create :: "('l::len, 'b, 'm) world_scheme \<Rightarrow> ('h \<times> ('l, 'b, 'm) world_scheme) run"
    and destroy cells objects ready lawful
    and op :: "'h \<Rightarrow> span \<Rightarrow> span \<Rightarrow> ('l, 'b, 'm) world_scheme
      \<Rightarrow> (op_result \<times> ('l, 'b, 'm) world_scheme) run"
    and ident
begin

text \<open>One call on a local handle, followed by something that only touches memory.\<close>

lemma one_call_restores:
  assumes "lawful" "wf_world w"
    and "scoped create (\<lambda>h w1. chain (op h i out w1) after) destroy w = Inr (r, w')"
    and after: "\<And>x w1 r w2. after (x, w1) = Inr (r, w2) \<Longrightarrow> \<exists>m. w2 = w1\<lparr>mem := m\<rparr>"
    and keeps: "\<And>h w1 m. cells h (w1\<lparr>mem := m\<rparr>) = cells h w1 \<and>
      objects h (w1\<lparr>mem := m\<rparr>) = objects h w1 \<and> ready h (w1\<lparr>mem := m\<rparr>) = ready h w1"
  shows "same_heap w w'"
proof (rule scoped_restores [OF assms(1-3)])
  fix h w1 r w2
  assume w1: "wf_world w1" "ready h w1" and "chain (op h i out w1) after = Inr (r, w2)"
  then obtain x w3 where op: "op h i out w1 = Inr (x, w3)" and "after (x, w3) = Inr (r, w2)"
    by (auto simp: chain_Inr_iff)
  with after obtain m where w2: "w2 = w3\<lparr>mem := m\<rparr>" by blast
  note fr = op_frame [OF assms(1) w1 op]
  then have "frame (cells h w1) (objects h w1) w1 w2"
    unfolding w2 by (blast intro: frame_trans frame_mem)
  then show "frame (cells h w1) (objects h w1) w1 w2 \<and> wf_world w2 \<and> ready h w2 \<and>
      cells h w2 = cells h w1 \<and> objects h w2 = objects h w1"
    using fr keeps by (simp add: w2)
qed

lemma one_call_writes:
  assumes "lawful" "wf_world w"
    and "scoped create (\<lambda>h w1. chain (op h i out w1) after) destroy w = Inr (r, w')"
    and after: "\<And>x w1 r w2. after (x, w1) = Inr (r, w2) \<Longrightarrow>
      \<exists>m. w2 = w1\<lparr>mem := m\<rparr> \<and> same_outside (mem w1) m (span_data out) (unat (span_size out))"
    and keeps: "\<And>h w1 m. ready h (w1\<lparr>mem := m\<rparr>) = ready h w1"
  shows "same_outside (mem w) (mem w') (span_data out) (unat (span_size out))"
proof (rule scoped_mem [OF assms(1-3)])
  fix h w1 r w2
  assume w1: "wf_world w1" "ready h w1" and "chain (op h i out w1) after = Inr (r, w2)"
  then obtain x w3 where op: "op h i out w1 = Inr (x, w3)" and "after (x, w3) = Inr (r, w2)"
    by (auto simp: chain_Inr_iff)
  with after obtain m where w2: "w2 = w3\<lparr>mem := m\<rparr>"
    and m: "same_outside (mem w3) m (span_data out) (unat (span_size out))" by blast
  from op_frame [OF assms(1) w1 op] have "wf_world w2" "ready h w2"
    by (simp_all add: w2 keeps)
  moreover have "same_outside (mem w1) (mem w2) (span_data out) (unat (span_size out))"
    using op_writes [OF assms(1) w1 op] m by (simp add: w2) (rule same_outside_trans)
  ultimately show "wf_world w2 \<and> ready h w2 \<and>
      same_outside (mem w1) (mem w2) (span_data out) (unat (span_size out))" by blast
qed

lemma one_call:
  assumes "lawful" "wf_world w"
    and "scoped create (\<lambda>h w1. chain (op h i out w1) after) destroy w = Inr (r, w')"
    and after: "\<And>x w1 r w2. after (x, w1) = Inr (r, w2) \<Longrightarrow>
      \<exists>m. w2 = w1\<lparr>mem := m\<rparr> \<and> same_outside (mem w1) m (span_data out) (unat (span_size out))"
    and keeps: "\<And>h w1 m. cells h (w1\<lparr>mem := m\<rparr>) = cells h w1 \<and>
      objects h (w1\<lparr>mem := m\<rparr>) = objects h w1 \<and> ready h (w1\<lparr>mem := m\<rparr>) = ready h w1"
  shows "wf_world w' \<and> same_heap w w' \<and>
    same_outside (mem w) (mem w') (span_data out) (unat (span_size out))"
proof (intro conjI)
  show "wf_world w'"
  proof (rule scoped_wf [OF assms(1-3)])
    fix h w1 r w2
    assume w1: "wf_world w1" "ready h w1" and "chain (op h i out w1) after = Inr (r, w2)"
    then obtain x w3 where op: "op h i out w1 = Inr (x, w3)" and "after (x, w3) = Inr (r, w2)"
      by (auto simp: chain_Inr_iff)
    with after obtain m where "w2 = w3\<lparr>mem := m\<rparr>" by blast
    with op_frame [OF assms(1) w1 op] keeps show "wf_world w2 \<and> ready h w2" by simp
  qed
  show "same_heap w w'"
    by (rule one_call_restores [OF assms(1-3) _ keeps]) (use after in blast)
  show "same_outside (mem w) (mem w') (span_data out) (unat (span_size out))"
    by (rule one_call_writes [OF assms(1-3) after]) (simp_all add: keeps)
qed

lemma one_call_value:
  assumes "lawful" "wf_world w" and mk: "create w = Inr (h, w1)"
    and op: "op h i out w1 = Inr (x, w2)" and af: "after (x, w2) = Inr (r, w2\<lparr>mem := m\<rparr>)"
    and keeps: "\<And>h w1 m. ready h (w1\<lparr>mem := m\<rparr>) = ready h w1"
  shows "\<exists>w'. scoped create (\<lambda>h w1. chain (op h i out w1) after) destroy w = Inr (r, w') \<and>
    mem w' = m"
proof -
  from create_fresh [OF assms(1-3)] have w1: "wf_world w1" "ready h w1" by blast+
  from op_frame [OF assms(1) w1 op] have "wf_world (w2\<lparr>mem := m\<rparr>)" "ready h (w2\<lparr>mem := m\<rparr>)"
    by (simp_all add: keeps)
  from destroy_frees [OF assms(1) this] obtain w3
    where "destroy h (w2\<lparr>mem := m\<rparr>) = Inr w3" "mem w3 = m" by auto
  with mk op af show ?thesis by (simp add: scoped_def)
qed

lemma one_call_returns:
  assumes "lawful" "wf_world w" and mk: "create w = Inr (h, w1)"
    and after: "\<And>x w2. op h i out w1 = Inr (x, w2) \<Longrightarrow> wf_world w1 \<Longrightarrow> ready h w1 \<Longrightarrow>
      \<exists>r m. after (x, w2) = Inr (r, w2\<lparr>mem := m\<rparr>)"
    and keeps: "\<And>h w1 m. ready h (w1\<lparr>mem := m\<rparr>) = ready h w1"
  shows "\<exists>r w'. scoped create (\<lambda>h w1. chain (op h i out w1) after) destroy w = Inr (r, w')"
proof -
  from create_fresh [OF assms(1-3)] have w1: "wf_world w1" "ready h w1" by blast+
  from op_defined [OF assms(1) w1] obtain x w2 where op: "op h i out w1 = Inr (x, w2)" by blast
  from after [OF op w1] obtain r m where "after (x, w2) = Inr (r, w2\<lparr>mem := m\<rparr>)" by blast
  from one_call_value [where after = after, OF assms(1-3) op this keeps] show ?thesis by blast
qed

end

end
