(* ===== verification/Zlib_Backend.thy ===== *)
theory Zlib_Backend
  imports Backend_Contract
begin

text \<open>
  \<open>src/detail/zlib.hpp\<close> and \<open>src/detail/zlib.cpp\<close>: the two move-only handles over
  \<open>z_stream\<close>, their construction, destruction, moves and operations, and the stateless
  backend type. A handle is the \<open>std::unique_ptr\<close> it owns: an address, 0 when moved from.
\<close>

section \<open>Window bits\<close>

fun window_bits_for :: "format \<Rightarrow> int" where
  "window_bits_for Fmt_Zlib = 15"
| "window_bits_for Fmt_Gzip = 15 + 16"
| "window_bits_for Fmt_Raw_Deflate = -15"
| "window_bits_for _ = 15"

section \<open>Shared shape of the calls\<close>

text \<open>
  Every operation points the stream at the two spans (sizes cut to \<open>uInt\<close>), remembers the
  totals, makes one call, and reads the totals back as 64-bit differences.
\<close>

definition set_windows :: "span \<Rightarrow> span \<Rightarrow> 'l z_stream \<Rightarrow> 'l z_stream" where
  "set_windows i out st = st\<lparr>next_in := span_data i, avail_in := to_uInt (span_size i),
     next_out := span_data out, avail_out := to_uInt (span_size out)\<rparr>"

record 'w zcall_result =
  zc_ret :: zret
  zc_consumed :: u64
  zc_produced :: u64
  zc_total_in :: u64
  zc_world :: 'w

definition zcall ::
  "('l::len, 'b) zlib_step \<Rightarrow> addr \<Rightarrow> zflush \<Rightarrow> span \<Rightarrow> span \<Rightarrow> ('l, 'b, 'm) world_scheme
    \<Rightarrow> ('l, 'b, 'm) world_scheme zcall_result run" where
  "zcall call p fl i out w = chain (deref_zstream p w) (\<lambda>st0.
     let st = set_windows i out st0;
         before_in = ucast (total_in st) :: u64;
         before_out = ucast (total_out st) :: u64;
         (ret, st', m, L) = call st fl (mem w) (lib w)
     in Inr \<lparr>zc_ret = ret,
             zc_consumed = ucast (total_in st') - before_in,
             zc_produced = ucast (total_out st') - before_out,
             zc_total_in = ucast (total_in st'),
             zc_world = w\<lparr>mem := m, lib := L, zstreams := (zstreams w)(p \<mapsto> st')\<rparr>\<rparr>)"

section \<open>zlib_squeezer\<close>

record zlib_squeezer =
  zsq_stream :: addr

definition zlib_squeezer_new ::
  "('l::len, 'b) env \<Rightarrow> format \<Rightarrow> zlib_level \<Rightarrow> ('l, 'b, 'm) world_scheme
    \<Rightarrow> (zlib_squeezer \<times> ('l, 'b, 'm) world_scheme) run" where
  "zlib_squeezer_new E f lvl w =
     (let (p, w1) = new_zstream zero_stream w;
          st = zero_stream\<lparr>zalloc := 0, zfree := 0, opaque := 0\<rparr>;
          wbits = window_bits_for f;
          (ret, st', L) = deflateInit2 (zlib E) st (sint (zlib_level_int lvl)) 8 wbits 8 0 (lib w1);
          w2 = w1\<lparr>lib := L, zstreams := (zstreams w1)(p \<mapsto> st')\<rparr>
      in if ret \<noteq> Z_OK \<and> \<not> ndebug E then Inl Assertion_Failed
         else Inr (\<lparr>zsq_stream = p\<rparr>, w2))"

text \<open>The defaulted move constructor: the new handle, and the old one left null.\<close>

definition zlib_squeezer_move :: "zlib_squeezer \<Rightarrow> zlib_squeezer \<times> zlib_squeezer" where
  "zlib_squeezer_move other = (\<lparr>zsq_stream = zsq_stream other\<rparr>, \<lparr>zsq_stream = 0\<rparr>)"

text \<open>
  The defaulted move assignment is \<open>unique_ptr\<close>'s: the target's old stream is deleted with
  plain \<open>delete\<close>. The handle's destructor, and with it \<open>deflateEnd\<close>, does not run. \<open>same\<close>
  says whether the two sides are one object; resetting a \<open>unique_ptr\<close> to what it has just
  released changes nothing.
\<close>

definition zlib_squeezer_assign ::
  "bool \<Rightarrow> zlib_squeezer \<Rightarrow> zlib_squeezer \<Rightarrow> ('l::len, 'b, 'm) world_scheme
    \<Rightarrow> (zlib_squeezer \<times> zlib_squeezer) \<times> ('l, 'b, 'm) world_scheme" where
  "zlib_squeezer_assign same self other w =
     (if same then ((self, self), w)
      else ((\<lparr>zsq_stream = zsq_stream other\<rparr>, \<lparr>zsq_stream = 0\<rparr>),
        if zsq_stream self = 0 then w else delete_zstream (zsq_stream self) w))"

definition zlib_squeezer_delete ::
  "('l::len, 'b) env \<Rightarrow> zlib_squeezer \<Rightarrow> ('l, 'b, 'm) world_scheme \<Rightarrow> ('l, 'b, 'm) world_scheme run"
  where
  "zlib_squeezer_delete E h w =
     (if zsq_stream h = 0 then Inr w
      else chain (deref_zstream (zsq_stream h) w) (\<lambda>st.
        let (_, _, L) = deflateEnd (zlib E) st (lib w)
        in Inr (delete_zstream (zsq_stream h) (w\<lparr>lib := L\<rparr>))))"

definition zlib_squeezer_push ::
  "('l::len, 'b) env \<Rightarrow> zlib_squeezer \<Rightarrow> span \<Rightarrow> span \<Rightarrow> ('l, 'b, 'm) world_scheme
    \<Rightarrow> (op_result \<times> ('l, 'b, 'm) world_scheme) run" where
  "zlib_squeezer_push E h i out w =
     chain (zcall (deflate (zlib E)) (zsq_stream h) Z_FINISH i out w) (\<lambda>c.
       if zc_ret c \<noteq> Z_STREAM_END \<and> zc_ret c \<noteq> Z_OK
       then Inr (Inl (mk_error Backend_Failure Zlib_Id 0 ''deflate''), zc_world c)
       else Inr (Inr (mk_progress (zc_consumed c) (zc_produced c) (zc_ret c = Z_STREAM_END)),
                 zc_world c))"

definition zlib_squeezer_push_more ::
  "('l::len, 'b) env \<Rightarrow> zlib_squeezer \<Rightarrow> span \<Rightarrow> span \<Rightarrow> ('l, 'b, 'm) world_scheme
    \<Rightarrow> (op_result \<times> ('l, 'b, 'm) world_scheme) run" where
  "zlib_squeezer_push_more E h i out w =
     chain (zcall (deflate (zlib E)) (zsq_stream h) Z_NO_FLUSH i out w) (\<lambda>c.
       if zc_ret c \<noteq> Z_OK \<and> zc_ret c \<noteq> Z_BUF_ERROR
       then Inr (Inl (mk_error Backend_Failure Zlib_Id 0 ''deflate''), zc_world c)
       else Inr (Inr (mk_progress (zc_consumed c) (zc_produced c) False), zc_world c))"

definition zlib_squeezer_flush ::
  "('l::len, 'b) env \<Rightarrow> zlib_squeezer \<Rightarrow> span \<Rightarrow> ('l, 'b, 'm) world_scheme
    \<Rightarrow> (op_result \<times> ('l, 'b, 'm) world_scheme) run" where
  "zlib_squeezer_flush E h out w =
     chain (zcall (deflate (zlib E)) (zsq_stream h) Z_SYNC_FLUSH empty_span out w) (\<lambda>c.
       if zc_ret c \<noteq> Z_OK \<and> zc_ret c \<noteq> Z_BUF_ERROR
       then Inr (Inl (mk_error Backend_Failure Zlib_Id 0 ''deflate flush''), zc_world c)
       else Inr (Inr (mk_progress 0 (zc_produced c) False), zc_world c))"

definition zlib_squeezer_finish ::
  "('l::len, 'b) env \<Rightarrow> zlib_squeezer \<Rightarrow> span \<Rightarrow> ('l, 'b, 'm) world_scheme
    \<Rightarrow> (op_result \<times> ('l, 'b, 'm) world_scheme) run" where
  "zlib_squeezer_finish E h out w = zlib_squeezer_push E h empty_span out w"

section \<open>zlib_sweller\<close>

record zlib_sweller =
  zsw_stream :: addr

definition zlib_sweller_new ::
  "('l::len, 'b) env \<Rightarrow> format \<Rightarrow> ('l, 'b, 'm) world_scheme
    \<Rightarrow> (zlib_sweller \<times> ('l, 'b, 'm) world_scheme) run" where
  "zlib_sweller_new E f w =
     (let (p, w1) = new_zstream zero_stream w;
          st = zero_stream\<lparr>zalloc := 0, zfree := 0, opaque := 0, next_in := 0, avail_in := 0\<rparr>;
          wbits = window_bits_for f;
          (ret, st', L) = inflateInit2 (zlib E) st wbits (lib w1);
          w2 = w1\<lparr>lib := L, zstreams := (zstreams w1)(p \<mapsto> st')\<rparr>
      in if ret \<noteq> Z_OK \<and> \<not> ndebug E then Inl Assertion_Failed
         else Inr (\<lparr>zsw_stream = p\<rparr>, w2))"

definition zlib_sweller_move :: "zlib_sweller \<Rightarrow> zlib_sweller \<times> zlib_sweller" where
  "zlib_sweller_move other = (\<lparr>zsw_stream = zsw_stream other\<rparr>, \<lparr>zsw_stream = 0\<rparr>)"

definition zlib_sweller_assign ::
  "bool \<Rightarrow> zlib_sweller \<Rightarrow> zlib_sweller \<Rightarrow> ('l::len, 'b, 'm) world_scheme
    \<Rightarrow> (zlib_sweller \<times> zlib_sweller) \<times> ('l, 'b, 'm) world_scheme" where
  "zlib_sweller_assign same self other w =
     (if same then ((self, self), w)
      else ((\<lparr>zsw_stream = zsw_stream other\<rparr>, \<lparr>zsw_stream = 0\<rparr>),
        if zsw_stream self = 0 then w else delete_zstream (zsw_stream self) w))"

definition zlib_sweller_delete ::
  "('l::len, 'b) env \<Rightarrow> zlib_sweller \<Rightarrow> ('l, 'b, 'm) world_scheme \<Rightarrow> ('l, 'b, 'm) world_scheme run"
  where
  "zlib_sweller_delete E h w =
     (if zsw_stream h = 0 then Inr w
      else chain (deref_zstream (zsw_stream h) w) (\<lambda>st.
        let (_, _, L) = inflateEnd (zlib E) st (lib w)
        in Inr (delete_zstream (zsw_stream h) (w\<lparr>lib := L\<rparr>))))"

definition zlib_sweller_push ::
  "('l::len, 'b) env \<Rightarrow> zlib_sweller \<Rightarrow> span \<Rightarrow> span \<Rightarrow> ('l, 'b, 'm) world_scheme
    \<Rightarrow> (op_result \<times> ('l, 'b, 'm) world_scheme) run" where
  "zlib_sweller_push E h i out w =
     chain (zcall (inflate (zlib E)) (zsw_stream h) Z_FINISH i out w) (\<lambda>c.
       if zc_ret c = Z_STREAM_END then
         (if zc_consumed c < span_size i
          then Inr (Inl (mk_error Stream_Corrupt Zlib_Id (zc_total_in c)
                      ''extra data after end of stream''), zc_world c)
          else Inr (Inr (mk_progress (zc_consumed c) (zc_produced c) True), zc_world c))
       else if zc_ret c = Z_OK \<or> zc_ret c = Z_BUF_ERROR then
         (if zc_consumed c < span_size i
          then Inr (Inl (mk_error Buffer_Too_Small Zlib_Id 0 ''''), zc_world c)
          else Inr (Inr (mk_progress (zc_consumed c) (zc_produced c) False), zc_world c))
       else Inr (Inl (mk_error Stream_Corrupt Zlib_Id (zc_total_in c) ''inflate''), zc_world c))"

definition zlib_sweller_push_more ::
  "('l::len, 'b) env \<Rightarrow> zlib_sweller \<Rightarrow> span \<Rightarrow> span \<Rightarrow> ('l, 'b, 'm) world_scheme
    \<Rightarrow> (op_result \<times> ('l, 'b, 'm) world_scheme) run" where
  "zlib_sweller_push_more E h i out w =
     chain (zcall (inflate (zlib E)) (zsw_stream h) Z_NO_FLUSH i out w) (\<lambda>c.
       if zc_ret c = Z_STREAM_END
       then Inr (Inr (mk_progress (zc_consumed c) (zc_produced c) True), zc_world c)
       else if zc_ret c = Z_OK \<or> zc_ret c = Z_BUF_ERROR
       then Inr (Inr (mk_progress (zc_consumed c) (zc_produced c) False), zc_world c)
       else Inr (Inl (mk_error Stream_Corrupt Zlib_Id (zc_total_in c) ''inflate''), zc_world c))"

section \<open>zlib_backend\<close>

definition zlib_formats :: "format list" where
  "zlib_formats = [Fmt_Zlib, Fmt_Gzip, Fmt_Raw_Deflate]"

definition zlib_bound :: "('l::len, 'b) env \<Rightarrow> zlib_level \<Rightarrow> u64 \<Rightarrow> u64" where
  "zlib_bound E lvl in_size =
     (let r = compressBound (zlib E) (ucast in_size)
      in if sint r = zret_code Z_MEM_ERROR then -1 else ucast r)"

definition zlib_backend_make_squeezer ::
  "('l::len, 'b) env \<Rightarrow> format \<Rightarrow> zlib_level \<Rightarrow> ('l, 'b, 'm) world_scheme
    \<Rightarrow> (zlib_squeezer \<times> ('l, 'b, 'm) world_scheme) run" where
  "zlib_backend_make_squeezer E f lvl w = zlib_squeezer_new E f lvl w"

definition zlib_backend_make_sweller ::
  "('l::len, 'b) env \<Rightarrow> format \<Rightarrow> ('l, 'b, 'm) world_scheme
    \<Rightarrow> (zlib_sweller \<times> ('l, 'b, 'm) world_scheme) run" where
  "zlib_backend_make_sweller E f w = zlib_sweller_new E f w"

definition zlib_backend_push ::
  "('l::len, 'b) env \<Rightarrow> zlib_squeezer \<Rightarrow> span \<Rightarrow> span \<Rightarrow> ('l, 'b, 'm) world_scheme
    \<Rightarrow> (op_result \<times> ('l, 'b, 'm) world_scheme) run" where
  "zlib_backend_push E h i out w = zlib_squeezer_push E h i out w"

definition zlib_backend_flush ::
  "('l::len, 'b) env \<Rightarrow> zlib_squeezer \<Rightarrow> span \<Rightarrow> ('l, 'b, 'm) world_scheme
    \<Rightarrow> (op_result \<times> ('l, 'b, 'm) world_scheme) run" where
  "zlib_backend_flush E h out w = zlib_squeezer_flush E h out w"

definition zlib_backend_finish ::
  "('l::len, 'b) env \<Rightarrow> zlib_squeezer \<Rightarrow> span \<Rightarrow> ('l, 'b, 'm) world_scheme
    \<Rightarrow> (op_result \<times> ('l, 'b, 'm) world_scheme) run" where
  "zlib_backend_finish E h out w = zlib_squeezer_finish E h out w"

section \<open>The footprint of a handle\<close>

definition zcells :: "addr \<Rightarrow> ('l::len, 'b, 'm) world_scheme \<Rightarrow> addr set" where
  "zcells p w = {p}"

definition zobjects :: "addr \<Rightarrow> ('l::len, 'b, 'm) world_scheme \<Rightarrow> addr set" where
  "zobjects p w = (case zstreams w p of None \<Rightarrow> {} | Some st \<Rightarrow> {zstate st})"

text \<open>A live stream whose state, if the init call gave it one, is still allocated.\<close>

definition zready :: "addr \<Rightarrow> ('l::len, 'b, 'm) world_scheme \<Rightarrow> bool" where
  "zready p w \<longleftrightarrow> (case zstreams w p of None \<Rightarrow> False
     | Some st \<Rightarrow> zstate st = 0 \<or> zstate st \<in> dom (lib w))"

lemma zfootprint_mem [simp]:
  "zcells p (w\<lparr>mem := m\<rparr>) = zcells p w" "zobjects p (w\<lparr>mem := m\<rparr>) = zobjects p w"
  "zready p (w\<lparr>mem := m\<rparr>) = zready p w"
  by (simp_all add: zcells_def zobjects_def zready_def split: option.split)

lemma zreadyE:
  assumes "zready p w"
  obtains st where "zstreams w p = Some st" "zstate st = 0 \<or> zstate st \<in> dom (lib w)"
  using assms by (auto simp: zready_def split: option.splits)

lemma set_windows_sel [simp]:
  "next_in (set_windows i out st) = span_data i"
  "avail_in (set_windows i out st) = to_uInt (span_size i)"
  "next_out (set_windows i out st) = span_data out"
  "avail_out (set_windows i out st) = to_uInt (span_size out)"
  "zstate (set_windows i out st) = zstate st"
  "total_in (set_windows i out st) = total_in st"
  "total_out (set_windows i out st) = total_out st"
  by (simp_all add: set_windows_def)

lemma zcallE:
  assumes "zcall call p fl i out w = Inr c"
  obtains st st' m L where
    "zstreams w p = Some st"
    "call (set_windows i out st) fl (mem w) (lib w) = (zc_ret c, st', m, L)"
    "zc_consumed c = ucast (total_in st') - ucast (total_in st)"
    "zc_produced c = ucast (total_out st') - ucast (total_out st)"
    "zc_total_in c = ucast (total_in st')"
    "zc_world c = w\<lparr>mem := m, lib := L, zstreams := (zstreams w)(p \<mapsto> st')\<rparr>"
proof -
  from assms obtain st where st: "zstreams w p = Some st"
    by (auto simp: zcall_def chain_Inr_iff deref_zstream_Inr)
  obtain ret st' m L where call: "call (set_windows i out st) fl (mem w) (lib w) = (ret, st', m, L)"
    by (cases "call (set_windows i out st) fl (mem w) (lib w)") auto
  from assms have c: "c = \<lparr>zc_ret = ret, zc_consumed = ucast (total_in st') - ucast (total_in st),
      zc_produced = ucast (total_out st') - ucast (total_out st),
      zc_total_in = ucast (total_in st'),
      zc_world = w\<lparr>mem := m, lib := L, zstreams := (zstreams w)(p \<mapsto> st')\<rparr>\<rparr>"
    using st call by (simp add: zcall_def)
  show thesis
    by (rule that [OF st, of st' m L]) (use call c in simp_all)
qed

lemma zcall_defined: "zready p w \<Longrightarrow> \<exists>c. zcall call p fl i out w = Inr c"
  by (auto simp: zcall_def Let_def split: prod.splits elim!: zreadyE)

lemma zcall_frame:
  assumes "zlib_step_ok call" "wf_world w" "zready p w" "zcall call p fl i out w = Inr c"
  shows "frame (zcells p w) (zobjects p w) w (zc_world c)" "wf_world (zc_world c)"
    "zready p (zc_world c)" "zcells p (zc_world c) = zcells p w"
    "zobjects p (zc_world c) = zobjects p w"
    "same_outside (mem w) (mem (zc_world c)) (span_data out) (unat (span_size out))"
proof -
  from assms(4) obtain st st' m L where st: "zstreams w p = Some st"
    and call: "call (set_windows i out st) fl (mem w) (lib w) = (zc_ret c, st', m, L)"
    and wc: "zc_world c = w\<lparr>mem := m, lib := L, zstreams := (zstreams w)(p \<mapsto> st')\<rparr>"
    by (rule zcallE)
  have "0 \<notin> dom (lib w)" using assms(2) by (simp add: wf_world_def)
  note ok = zlib_step_okD [OF assms(1) this call]
  have zs: "zstate st' = zstate st" using ok(1) by (simp add: zio_ok_def)
  have dm: "dom L = dom (lib w)" "\<forall>x. x \<noteq> zstate st \<longrightarrow> L x = lib w x"
    using ok(2) by (simp_all add: only_object_def)
  show "frame (zcells p w) (zobjects p w) w (zc_world c)"
    using dm st by (auto simp: frame_def wc zcells_def zobjects_def)
  have "p \<noteq> 0" and "\<not> brk w \<le> p"
    using assms(2) st by (auto simp: wf_world_def)
  then show "wf_world (zc_world c)"
    using assms(2) dm(1) by (simp add: wf_world_def wc)
  show "zready p (zc_world c)"
    using assms(3) st zs dm by (auto simp: zready_def wc)
  show "zcells p (zc_world c) = zcells p w" by (simp add: zcells_def)
  show "zobjects p (zc_world c) = zobjects p w" using st zs by (simp add: zobjects_def wc)
  have "same_outside (mem w) m (span_data out) (unat (to_uInt (span_size out)))"
    using zio_okD(3) [OF ok(1)] by simp
  then show "same_outside (mem w) (mem (zc_world c)) (span_data out) (unat (span_size out))"
    using unat_to_uInt_le by (auto simp: wc intro: same_outside_mono)
qed

text \<open>An operation is one call and then a result read off the call's outcome.\<close>

lemma zop_frame:
  assumes "zlib_step_ok call" "wf_world w" "zready p w"
    and "chain (zcall call p fl i out w) k = Inr (r, w')"
    and k: "\<And>c r w'. k c = Inr (r, w') \<Longrightarrow> w' = zc_world c"
  shows "frame (zcells p w) (zobjects p w) w w' \<and> wf_world w' \<and> zready p w' \<and>
    zcells p w' = zcells p w \<and> zobjects p w' = zobjects p w"
    and "same_outside (mem w) (mem w') (span_data out) (unat (span_size out))"
proof -
  from assms(4) obtain c where c: "zcall call p fl i out w = Inr c" and "k c = Inr (r, w')"
    by (auto simp: chain_Inr_iff)
  with k have w': "w' = zc_world c" by blast
  note fr = zcall_frame [OF assms(1-3) c]
  show "frame (zcells p w) (zobjects p w) w w' \<and> wf_world w' \<and> zready p w' \<and>
      zcells p w' = zcells p w \<and> zobjects p w' = zobjects p w"
    using fr(1-5) by (simp add: w')
  show "same_outside (mem w) (mem w') (span_data out) (unat (span_size out))"
    using fr(6) by (simp add: w')
qed

lemma zop_defined:
  assumes "zready p w" and "\<And>c. \<exists>r w'. k c = Inr (r, w')"
  shows "\<exists>r w'. chain (zcall call p fl i out w) k = Inr (r, w')"
  using zcall_defined [OF assms(1), of call fl i out] assms(2) by auto

lemma zlib_contract_steps:
  assumes "zlib_heap_contract Z"
  shows "zlib_step_ok (deflate Z)" "zlib_step_ok (inflate Z)"
    "zlib_end_ok (deflateEnd Z)" "zlib_end_ok (inflateEnd Z)"
    "zlib_init_ok (\<lambda>st. deflateInit2 Z st lvl meth wb ml strat)"
    "zlib_init_ok (\<lambda>st. inflateInit2 Z st wb)"
  using assms by (auto simp: zlib_heap_contract_def)

section \<open>Construction and destruction\<close>

lemma zinit_fresh:
  assumes "zlib_init_ok init" "wf_world w" "init zero_stream (lib w) = (ret, st', L)"
  defines "w' \<equiv> w\<lparr>zstreams := (zstreams w)(brk w \<mapsto> st'), brk := Suc (brk w), lib := L\<rparr>"
  shows "wf_world w'" "zready (brk w) w'"
    "frame (zcells (brk w) w') (zobjects (brk w) w') w w'"
    "\<forall>a \<in> zcells (brk w) w'. zstreams w a = None"
    "\<forall>a \<in> zobjects (brk w) w'. lib w a = None"
proof -
  have z0: "0 \<notin> dom (lib w)" "zstate (zero_stream :: 'a z_stream) = 0"
    using assms(2) by (simp_all add: wf_world_def zero_stream_def)
  note init = assms(1) [unfolded zlib_init_ok_def, rule_format, OF z0 assms(3)]
  have L: "\<forall>x. x \<noteq> zstate st' \<longrightarrow> L x = lib w x" "0 \<notin> dom L"
    "zstate st' = 0 \<or> zstate st' \<in> dom L" "lib w (zstate st') = None"
    using init z0(1) by (auto split: if_splits)
  show "wf_world w'"
    using assms(2) L(2) by (auto simp: wf_world_def w'_def)
  show "zready (brk w) w'" using L(3) by (simp add: zready_def w'_def)
  show "frame (zcells (brk w) w') (zobjects (brk w) w') w w'"
    using L(1) by (auto simp: frame_def zcells_def zobjects_def w'_def)
  show "\<forall>a \<in> zcells (brk w) w'. zstreams w a = None"
    using assms(2) by (simp add: zcells_def wf_world_def)
  show "\<forall>a \<in> zobjects (brk w) w'. lib w a = None"
    using L(4) by (simp add: zobjects_def w'_def)
qed

lemma zdelete_frees:
  assumes "zlib_end_ok fin" "wf_world w" "zstreams w p = Some st" "fin st (lib w) = (r, st', L)"
  defines "w' \<equiv> delete_zstream p (w\<lparr>lib := L\<rparr>)"
  shows "wf_world w' \<and> frame (zcells p w) (zobjects p w) w w' \<and> mem w' = mem w \<and>
    (\<forall>a \<in> zcells p w. zstreams w' a = None) \<and> (\<forall>a \<in> zobjects p w. lib w' a = None)"
proof -
  have "0 \<notin> dom (lib w)" using assms(2) by (simp add: wf_world_def)
  with assms(1,4) have L: "L = (lib w)(zstate st := None)" by (auto simp: zlib_end_ok_def)
  show ?thesis
    using assms(2,3)
    by (auto simp: w'_def L wf_world_def delete_zstream_def frame_def zcells_def zobjects_def)
qed

section \<open>The handles satisfy the backend contract\<close>

interpretation zlib_squeezer_once: scoped_handle
  "zlib_squeezer_new E f lvl" "zlib_squeezer_delete E"
  "\<lambda>h. zcells (zsq_stream h)" "\<lambda>h. zobjects (zsq_stream h)" "\<lambda>h. zready (zsq_stream h)"
  "zlib_heap_contract (zlib E)" "zlib_squeezer_push E" Zlib_Id
  for E :: "('l::len, 'b) env" and f lvl
proof (unfold_locales, goal_cases)
  case (1 w h w')
  obtain ret st' L where i: "deflateInit2 (zlib E) zero_stream (sint (zlib_level_int lvl)) 8
      (window_bits_for f) 8 0 (lib w) = (ret, st', L)"
    by (metis prod_cases3)
  have "zero_stream\<lparr>zalloc := 0, zfree := 0, opaque := 0\<rparr> = (zero_stream :: 'l z_stream)"
    by (simp add: zero_stream_def)
  then have "h = \<lparr>zsq_stream = brk w\<rparr>"
    "w' = w\<lparr>zstreams := (zstreams w)(brk w \<mapsto> st'), brk := Suc (brk w), lib := L\<rparr>"
    using 1(3) i by (auto simp: zlib_squeezer_new_def new_zstream_def split: if_splits)
  then show ?case
    using zinit_fresh [OF zlib_contract_steps(5) [OF 1(1)] 1(2) i] by auto
next
  case (2 w h)
  then obtain st where st: "zstreams w (zsq_stream h) = Some st" by (auto elim: zreadyE)
  with 2(2) have nz: "zsq_stream h \<noteq> 0" by (auto simp: wf_world_def)
  obtain r st' L where e: "deflateEnd (zlib E) st (lib w) = (r, st', L)" by (metis prod_cases3)
  from zdelete_frees [OF zlib_contract_steps(3) [OF 2(1)] 2(2) st e] nz st e
  show ?case by (auto simp: zlib_squeezer_delete_def)
next
  case (3 w h i out)
  then show ?case unfolding zlib_squeezer_push_def by (intro zop_defined) auto
next
  case (4 w h i out r w')
  from 4(4) show ?case unfolding zlib_squeezer_push_def
    by (rule zop_frame(1) [OF zlib_contract_steps(1) [OF 4(1)] 4(2,3)]) (auto split: if_splits)
next
  case (5 w h i out r w')
  from 5(4) show ?case unfolding zlib_squeezer_push_def
    by (rule zop_frame(2) [OF zlib_contract_steps(1) [OF 5(1)] 5(2,3)]) (auto split: if_splits)
next
  case (6 h i out w e w')
  then show ?case by (auto simp: zlib_squeezer_push_def chain_Inr_iff split: if_splits)
qed

interpretation zlib_squeezer_more: backend_op
  "zlib_squeezer_push_more E" "\<lambda>h. zcells (zsq_stream h)" "\<lambda>h. zobjects (zsq_stream h)" "\<lambda>h. zready (zsq_stream h)"
  Zlib_Id "zlib_heap_contract (zlib E)"
  for E :: "('l::len, 'b) env"
proof (unfold_locales, goal_cases)
  case (1 w h i out)
  then show ?case unfolding zlib_squeezer_push_more_def by (intro zop_defined) auto
next
  case (2 w h i out r w')
  from 2(4) show ?case unfolding zlib_squeezer_push_more_def
    by (rule zop_frame(1) [OF zlib_contract_steps(1) [OF 2(1)] 2(2,3)]) (auto split: if_splits)
next
  case (3 w h i out r w')
  from 3(4) show ?case unfolding zlib_squeezer_push_more_def
    by (rule zop_frame(2) [OF zlib_contract_steps(1) [OF 3(1)] 3(2,3)]) (auto split: if_splits)
next
  case (4 h i out w e w')
  then show ?case by (auto simp: zlib_squeezer_push_more_def chain_Inr_iff split: if_splits)
qed

interpretation zlib_squeezer_sync: backend_op
  "\<lambda>h i out. zlib_squeezer_flush E h out" "\<lambda>h. zcells (zsq_stream h)" "\<lambda>h. zobjects (zsq_stream h)" "\<lambda>h. zready (zsq_stream h)"
  Zlib_Id "zlib_heap_contract (zlib E)"
  for E :: "('l::len, 'b) env"
proof (unfold_locales, goal_cases)
  case (1 w h i out)
  then show ?case unfolding zlib_squeezer_flush_def by (intro zop_defined) auto
next
  case (2 w h i out r w')
  from 2(4) show ?case unfolding zlib_squeezer_flush_def
    by (rule zop_frame(1) [OF zlib_contract_steps(1) [OF 2(1)] 2(2,3)]) (auto split: if_splits)
next
  case (3 w h i out r w')
  from 3(4) show ?case unfolding zlib_squeezer_flush_def
    by (rule zop_frame(2) [OF zlib_contract_steps(1) [OF 3(1)] 3(2,3)]) (auto split: if_splits)
next
  case (4 h i out w e w')
  then show ?case by (auto simp: zlib_squeezer_flush_def chain_Inr_iff split: if_splits)
qed

interpretation zlib_squeezer_end: backend_op
  "\<lambda>h i out. zlib_squeezer_finish E h out" "\<lambda>h. zcells (zsq_stream h)" "\<lambda>h. zobjects (zsq_stream h)" "\<lambda>h. zready (zsq_stream h)"
  Zlib_Id "zlib_heap_contract (zlib E)"
  for E :: "('l::len, 'b) env"
proof (unfold_locales, goal_cases)
  case (1 w h i out)
  then show ?case unfolding zlib_squeezer_finish_def zlib_squeezer_push_def by (intro zop_defined) auto
next
  case (2 w h i out r w')
  from 2(4) show ?case unfolding zlib_squeezer_finish_def zlib_squeezer_push_def
    by (rule zop_frame(1) [OF zlib_contract_steps(1) [OF 2(1)] 2(2,3)]) (auto split: if_splits)
next
  case (3 w h i out r w')
  from 3(4) show ?case unfolding zlib_squeezer_finish_def zlib_squeezer_push_def
    by (rule zop_frame(2) [OF zlib_contract_steps(1) [OF 3(1)] 3(2,3)]) (auto split: if_splits)
next
  case (4 h i out w e w')
  then show ?case by (auto simp: zlib_squeezer_finish_def zlib_squeezer_push_def chain_Inr_iff split: if_splits)
qed

interpretation zlib_sweller_once: scoped_handle
  "zlib_sweller_new E f" "zlib_sweller_delete E"
  "\<lambda>h. zcells (zsw_stream h)" "\<lambda>h. zobjects (zsw_stream h)" "\<lambda>h. zready (zsw_stream h)"
  "zlib_heap_contract (zlib E)" "zlib_sweller_push E" Zlib_Id
  for E :: "('l::len, 'b) env" and f
proof (unfold_locales, goal_cases)
  case (1 w h w')
  obtain ret st' L where i: "inflateInit2 (zlib E) zero_stream (window_bits_for f) (lib w)
      = (ret, st', L)"
    by (metis prod_cases3)
  have "zero_stream\<lparr>zalloc := 0, zfree := 0, opaque := 0, next_in := 0, avail_in := 0\<rparr>
      = (zero_stream :: 'l z_stream)"
    by (simp add: zero_stream_def)
  then have "h = \<lparr>zsw_stream = brk w\<rparr>"
    "w' = w\<lparr>zstreams := (zstreams w)(brk w \<mapsto> st'), brk := Suc (brk w), lib := L\<rparr>"
    using 1(3) i by (auto simp: zlib_sweller_new_def new_zstream_def split: if_splits)
  then show ?case
    using zinit_fresh [OF zlib_contract_steps(6) [OF 1(1)] 1(2) i] by auto
next
  case (2 w h)
  then obtain st where st: "zstreams w (zsw_stream h) = Some st" by (auto elim: zreadyE)
  with 2(2) have nz: "zsw_stream h \<noteq> 0" by (auto simp: wf_world_def)
  obtain r st' L where e: "inflateEnd (zlib E) st (lib w) = (r, st', L)" by (metis prod_cases3)
  from zdelete_frees [OF zlib_contract_steps(4) [OF 2(1)] 2(2) st e] nz st e
  show ?case by (auto simp: zlib_sweller_delete_def)
next
  case (3 w h i out)
  then show ?case unfolding zlib_sweller_push_def by (intro zop_defined) auto
next
  case (4 w h i out r w')
  from 4(4) show ?case unfolding zlib_sweller_push_def
    by (rule zop_frame(1) [OF zlib_contract_steps(2) [OF 4(1)] 4(2,3)]) (auto split: if_splits)
next
  case (5 w h i out r w')
  from 5(4) show ?case unfolding zlib_sweller_push_def
    by (rule zop_frame(2) [OF zlib_contract_steps(2) [OF 5(1)] 5(2,3)]) (auto split: if_splits)
next
  case (6 h i out w e w')
  then show ?case by (auto simp: zlib_sweller_push_def chain_Inr_iff split: if_splits)
qed

interpretation zlib_sweller_more: backend_op
  "zlib_sweller_push_more E" "\<lambda>h. zcells (zsw_stream h)" "\<lambda>h. zobjects (zsw_stream h)" "\<lambda>h. zready (zsw_stream h)"
  Zlib_Id "zlib_heap_contract (zlib E)"
  for E :: "('l::len, 'b) env"
proof (unfold_locales, goal_cases)
  case (1 w h i out)
  then show ?case unfolding zlib_sweller_push_more_def by (intro zop_defined) auto
next
  case (2 w h i out r w')
  from 2(4) show ?case unfolding zlib_sweller_push_more_def
    by (rule zop_frame(1) [OF zlib_contract_steps(2) [OF 2(1)] 2(2,3)]) (auto split: if_splits)
next
  case (3 w h i out r w')
  from 3(4) show ?case unfolding zlib_sweller_push_more_def
    by (rule zop_frame(2) [OF zlib_contract_steps(2) [OF 3(1)] 3(2,3)]) (auto split: if_splits)
next
  case (4 h i out w e w')
  then show ?case by (auto simp: zlib_sweller_push_more_def chain_Inr_iff split: if_splits)
qed

section \<open>One call in full\<close>

lemma zcall_run:
  assumes "zstreams w p = Some st" "call (set_windows i out st) fl (mem w) (lib w) = (r, st', m, L)"
  shows "zcall call p fl i out w = Inr \<lparr>zc_ret = r, zc_consumed = ucast (total_in st') - ucast (total_in st),
      zc_produced = ucast (total_out st') - ucast (total_out st),
      zc_total_in = ucast (total_in st'),
      zc_world = w\<lparr>mem := m, lib := L, zstreams := (zstreams w)(p \<mapsto> st')\<rparr>\<rparr>"
  using assms by (simp add: zcall_def)

lemma zio_counts_64:
  fixes st :: "64 z_stream"
  assumes "zio_ok (set_windows i out st) m st' m'"
  shows "(ucast (total_in st') :: u64) - ucast (total_in st) = of_nat (taken (set_windows i out st) st')"
    "(ucast (total_out st') :: u64) - ucast (total_out st) = of_nat (given (set_windows i out st) st')"
    "unat (of_nat (given (set_windows i out st) st') :: u64) = given (set_windows i out st) st'"
    "unat (of_nat (taken (set_windows i out st) st') :: u64) = taken (set_windows i out st) st'"
proof -
  let ?t = "taken (set_windows i out st) st'" and ?g = "given (set_windows i out st) st'"
  have "total_in st' = total_in st + of_nat ?t" "total_out st' = total_out st + of_nat ?g"
    using assms by (simp_all add: zio_ok_def)
  then show "(ucast (total_in st') :: u64) - ucast (total_in st) = of_nat ?t"
    "(ucast (total_out st') :: u64) - ucast (total_out st) = of_nat ?g"
    by simp_all
  have "?t < 2 ^ 64" "?g < 2 ^ 64"
    using zio_okD(1,2) [OF assms] unat_u32_less [of "to_uInt (span_size i)"]
      unat_u32_less [of "to_uInt (span_size out)"] by simp_all
  then show "unat (of_nat ?g :: u64) = ?g" "unat (of_nat ?t :: u64) = ?t"
    by (simp_all add: u64_of_nat_small)
qed

section \<open>Honest counts where uLong is 64 bits wide\<close>

lemma zcall_counts:
  fixes w :: "(64, 'b, 'm) world_scheme"
  assumes "zlib_step_ok call" "wf_world w" "zcall call p fl i out w = Inr c"
  shows "zc_consumed c \<le> span_size i" "zc_produced c \<le> span_size out"
proof -
  from assms(3) obtain st st' m L where
    call: "call (set_windows i out st) fl (mem w) (lib w) = (zc_ret c, st', m, L)"
    and n: "zc_consumed c = ucast (total_in st') - ucast (total_in st)"
      "zc_produced c = ucast (total_out st') - ucast (total_out st)"
    by (rule zcallE)
  have "0 \<notin> dom (lib w)" using assms(2) by (simp add: wf_world_def)
  note ok = zlib_step_okD(1) [OF assms(1) this call]
  let ?t = "taken (set_windows i out st) st'" and ?g = "given (set_windows i out st) st'"
  have eq: "zc_consumed c = of_nat ?t" "zc_produced c = of_nat ?g"
    using ok n by (simp_all add: zio_ok_def)
  have "?t \<le> unat (span_size i)" "?g \<le> unat (span_size out)"
    using zio_okD(1,2) [OF ok] unat_to_uInt_le by (auto intro: order_trans)
  then show "zc_consumed c \<le> span_size i" "zc_produced c \<le> span_size out"
    unfolding eq by (simp_all add: word_le_nat_alt le_unat_uoi)
qed

lemma zop_counts:
  fixes w :: "(64, 'b, 'm) world_scheme"
  assumes "zlib_step_ok call" "wf_world w" "chain (zcall call p fl i out w) k = Inr (Inr pg, w')"
    and k: "\<And>c pg w'. k c = Inr (Inr pg, w') \<Longrightarrow>
      (pg_in pg = zc_consumed c \<or> pg_in pg = 0) \<and> pg_out pg = zc_produced c"
  shows "pg_in pg \<le> span_size i \<and> pg_out pg \<le> span_size out"
proof -
  from assms(3) obtain c where c: "zcall call p fl i out w = Inr c" and "k c = Inr (Inr pg, w')"
    by (auto simp: chain_Inr_iff)
  with k have "(pg_in pg = zc_consumed c \<or> pg_in pg = 0) \<and> pg_out pg = zc_produced c" by blast
  with zcall_counts [OF assms(1,2) c] show ?thesis by auto
qed

interpretation zlib_squeezer_push_counts: counted_op
  "zlib_squeezer_push E" "\<lambda>h. zcells (zsq_stream h)" "\<lambda>h. zobjects (zsq_stream h)" "\<lambda>h. zready (zsq_stream h)"
  Zlib_Id "zlib_heap_contract (zlib E)"
  for E :: "(64, 'b) env"
proof (unfold_locales, goal_cases)
  case (1 w h i out p w')
  from 1(4) show ?case unfolding zlib_squeezer_push_def
    by (rule zop_counts [OF zlib_contract_steps(1) [OF 1(1)] 1(2)]) (auto split: if_splits)
qed

interpretation zlib_squeezer_more_counts: counted_op
  "zlib_squeezer_push_more E" "\<lambda>h. zcells (zsq_stream h)" "\<lambda>h. zobjects (zsq_stream h)" "\<lambda>h. zready (zsq_stream h)"
  Zlib_Id "zlib_heap_contract (zlib E)"
  for E :: "(64, 'b) env"
proof (unfold_locales, goal_cases)
  case (1 w h i out p w')
  from 1(4) show ?case unfolding zlib_squeezer_push_more_def
    by (rule zop_counts [OF zlib_contract_steps(1) [OF 1(1)] 1(2)]) (auto split: if_splits)
qed

interpretation zlib_sweller_push_counts: counted_op
  "zlib_sweller_push E" "\<lambda>h. zcells (zsw_stream h)" "\<lambda>h. zobjects (zsw_stream h)" "\<lambda>h. zready (zsw_stream h)"
  Zlib_Id "zlib_heap_contract (zlib E)"
  for E :: "(64, 'b) env"
proof (unfold_locales, goal_cases)
  case (1 w h i out p w')
  from 1(4) show ?case unfolding zlib_sweller_push_def
    by (rule zop_counts [OF zlib_contract_steps(2) [OF 1(1)] 1(2)]) (auto split: if_splits)
qed

interpretation zlib_sweller_more_counts: counted_op
  "zlib_sweller_push_more E" "\<lambda>h. zcells (zsw_stream h)" "\<lambda>h. zobjects (zsw_stream h)" "\<lambda>h. zready (zsw_stream h)"
  Zlib_Id "zlib_heap_contract (zlib E)"
  for E :: "(64, 'b) env"
proof (unfold_locales, goal_cases)
  case (1 w h i out p w')
  from 1(4) show ?case unfolding zlib_sweller_push_more_def
    by (rule zop_counts [OF zlib_contract_steps(2) [OF 1(1)] 1(2)]) (auto split: if_splits)
qed

interpretation zlib_squeezer_sync_counts: counted_op
  "\<lambda>h i out. zlib_squeezer_flush E h out" "\<lambda>h. zcells (zsq_stream h)" "\<lambda>h. zobjects (zsq_stream h)" "\<lambda>h. zready (zsq_stream h)"
  Zlib_Id "zlib_heap_contract (zlib E)"
  for E :: "(64, 'b) env"
proof (unfold_locales, goal_cases)
  case (1 w h i out p w')
  from 1(4) have "pg_in p \<le> span_size empty_span \<and> pg_out p \<le> span_size out"
    unfolding zlib_squeezer_flush_def
    by (rule zop_counts [OF zlib_contract_steps(1) [OF 1(1)] 1(2)]) (auto split: if_splits)
  then show ?case by (simp add: empty_span_def)
qed

interpretation zlib_squeezer_end_counts: counted_op
  "\<lambda>h i out. zlib_squeezer_finish E h out" "\<lambda>h. zcells (zsq_stream h)" "\<lambda>h. zobjects (zsq_stream h)" "\<lambda>h. zready (zsq_stream h)"
  Zlib_Id "zlib_heap_contract (zlib E)"
  for E :: "(64, 'b) env"
proof (unfold_locales, goal_cases)
  case (1 w h i out p w')
  from 1(4) have "pg_in p \<le> span_size empty_span \<and> pg_out p \<le> span_size out"
    unfolding zlib_squeezer_finish_def zlib_squeezer_push_def
    by (rule zop_counts [OF zlib_contract_steps(1) [OF 1(1)] 1(2)]) (auto split: if_splits)
  then show ?case by (simp add: empty_span_def)
qed

end
