(* ===== verification/Zstd_Backend.thy ===== *)
theory Zstd_Backend
  imports Backend_Contract
begin

text \<open>
  \<open>src/detail/zstd.hpp\<close> and \<open>src/detail/zstd.cpp\<close>: the two move-only handles over
  \<open>ZSTD_CCtx\<close> and \<open>ZSTD_DCtx\<close> and the stateless backend type. A handle is the raw context
  pointer (0 when moved from) with the fields stored beside it.
\<close>

section \<open>Using a context\<close>

text \<open>zstd's calls on a context that is null or already freed are undefined.\<close>

definition live_ctx :: "addr \<Rightarrow> ('l::len, 'b, 'm) world_scheme \<Rightarrow> unit run" where
  "live_ctx a w = (if lib w a = None then Inl Undefined_Behaviour else Inr ())"

definition zstd_error :: "kind \<Rightarrow> 'b zstd_api \<Rightarrow> u64 \<Rightarrow> error" where
  "zstd_error k S r = mk_error k Zstd_Id 0 (ZSTD_getErrorName S r)"

definition in_window :: "span \<Rightarrow> in_buffer" where
  "in_window s = \<lparr>ib_src = span_data s, ib_size = span_size s, ib_pos = 0\<rparr>"

definition out_window :: "span \<Rightarrow> out_buffer" where
  "out_window s = \<lparr>ob_dst = span_data s, ob_size = span_size s, ob_pos = 0\<rparr>"

definition no_input :: in_buffer where
  "no_input = \<lparr>ib_src = 0, ib_size = 0, ib_pos = 0\<rparr>"

section \<open>zstd_squeezer\<close>

record zstd_squeezer =
  cctx :: addr
  csq_fmt :: format
  csq_level :: c_int

definition zstd_squeezer_new ::
  "('l::len, 'b) env \<Rightarrow> format \<Rightarrow> zstd_level \<Rightarrow> ('l, 'b, 'm) world_scheme
    \<Rightarrow> (zstd_squeezer \<times> ('l, 'b, 'm) world_scheme) run" where
  "zstd_squeezer_new E f lvl w =
     (let level = zstd_level_int lvl;
          (a, L) = ZSTD_createCCtx (zstd E) (lib w)
      in if a = 0 then Inl (if ndebug E then Undefined_Behaviour else Assertion_Failed)
         else
           let (r, L') = ZSTD_CCtx_setParameter (zstd E) a ZSTD_c_compressionLevel level L
           in if ZSTD_isError (zstd E) r \<and> \<not> ndebug E then Inl Assertion_Failed
              else Inr (\<lparr>cctx = a, csq_fmt = f, csq_level = level\<rparr>, w\<lparr>lib := L'\<rparr>))"

definition zstd_squeezer_move :: "zstd_squeezer \<Rightarrow> zstd_squeezer \<times> zstd_squeezer" where
  "zstd_squeezer_move other =
     (\<lparr>cctx = cctx other, csq_fmt = csq_fmt other, csq_level = csq_level other\<rparr>,
      other\<lparr>cctx := 0\<rparr>)"

definition zstd_squeezer_delete ::
  "('l::len, 'b) env \<Rightarrow> zstd_squeezer \<Rightarrow> ('l, 'b, 'm) world_scheme \<Rightarrow> ('l, 'b, 'm) world_scheme run"
  where
  "zstd_squeezer_delete E h w =
     (if cctx h = 0 then Inr w
      else chain (live_ctx (cctx h) w) (\<lambda>_.
        Inr (w\<lparr>lib := ZSTD_freeCCtx (zstd E) (cctx h) (lib w)\<rparr>)))"

definition zstd_squeezer_assign ::
  "('l::len, 'b) env \<Rightarrow> bool \<Rightarrow> zstd_squeezer \<Rightarrow> zstd_squeezer \<Rightarrow> ('l, 'b, 'm) world_scheme
    \<Rightarrow> ((zstd_squeezer \<times> zstd_squeezer) \<times> ('l, 'b, 'm) world_scheme) run" where
  "zstd_squeezer_assign E same self other w =
     (if same then Inr ((self, self), w)
      else chain
        (if cctx self = 0 then Inr w
         else chain (live_ctx (cctx self) w) (\<lambda>_.
           Inr (w\<lparr>lib := ZSTD_freeCCtx (zstd E) (cctx self) (lib w)\<rparr>)))
        (\<lambda>w1. Inr ((self\<lparr>cctx := cctx other, csq_fmt := csq_fmt other, csq_level := csq_level other\<rparr>,
                     other\<lparr>cctx := 0\<rparr>), w1)))"

text \<open>
  The one-shot call goes through \<open>ZSTD_compress\<close>, which has a context of its own: the
  handle contributes only its level.
\<close>

definition zstd_squeezer_push ::
  "('l::len, 'b) env \<Rightarrow> zstd_squeezer \<Rightarrow> span \<Rightarrow> span \<Rightarrow> ('l, 'b, 'm) world_scheme
    \<Rightarrow> (op_result \<times> ('l, 'b, 'm) world_scheme) run" where
  "zstd_squeezer_push E h i out w =
     (let (ret, m) = ZSTD_compress (zstd E) (span_data out) (span_size out) (span_data i)
            (span_size i) (csq_level h) (mem w);
          w' = w\<lparr>mem := m\<rparr>
      in if ZSTD_isError (zstd E) ret
         then Inr (Inl (zstd_error Backend_Failure (zstd E) ret), w')
         else Inr (Inr (mk_progress (span_size i) ret True), w'))"

definition zstd_squeezer_push_more ::
  "('l::len, 'b) env \<Rightarrow> zstd_squeezer \<Rightarrow> span \<Rightarrow> span \<Rightarrow> ('l, 'b, 'm) world_scheme
    \<Rightarrow> (op_result \<times> ('l, 'b, 'm) world_scheme) run" where
  "zstd_squeezer_push_more E h i out w =
     chain (live_ctx (cctx h) w) (\<lambda>_.
       let (ret, ob, ib, m, L) = ZSTD_compressStream2 (zstd E) ZSTD_e_continue (cctx h)
             (out_window out) (in_window i) (mem w) (lib w);
           w' = w\<lparr>mem := m, lib := L\<rparr>
       in if ZSTD_isError (zstd E) ret
          then Inr (Inl (zstd_error Backend_Failure (zstd E) ret), w')
          else Inr (Inr (mk_progress (ib_pos ib) (ob_pos ob) False), w'))"

definition zstd_squeezer_flush ::
  "('l::len, 'b) env \<Rightarrow> zstd_squeezer \<Rightarrow> span \<Rightarrow> ('l, 'b, 'm) world_scheme
    \<Rightarrow> (op_result \<times> ('l, 'b, 'm) world_scheme) run" where
  "zstd_squeezer_flush E h out w =
     chain (live_ctx (cctx h) w) (\<lambda>_.
       let (ret, ob, ib, m, L) = ZSTD_compressStream2 (zstd E) ZSTD_e_flush (cctx h)
             (out_window out) no_input (mem w) (lib w);
           w' = w\<lparr>mem := m, lib := L\<rparr>
       in if ZSTD_isError (zstd E) ret
          then Inr (Inl (zstd_error Backend_Failure (zstd E) ret), w')
          else Inr (Inr (mk_progress 0 (ob_pos ob) False), w'))"

text \<open>
  The \<open>do\<close> loop of \<open>finish\<close>. \<open>None\<close> is a loop that never ends; \<open>zstd_finish_returns\<close> below
  shows when it does end.
\<close>

partial_function (option) zstd_finish_loop ::
  "'b zstd_api \<Rightarrow> addr \<Rightarrow> out_buffer \<Rightarrow> in_buffer \<Rightarrow> memory \<Rightarrow> (addr \<rightharpoonup> 'b)
    \<Rightarrow> (op_result \<times> memory \<times> (addr \<rightharpoonup> 'b)) option" where
  "zstd_finish_loop S a ob ib m L =
     (case ZSTD_compressStream2 S ZSTD_e_end a ob ib m L of (remaining, ob', ib', m', L') \<Rightarrow>
        if ZSTD_isError S remaining
        then Some (Inl (zstd_error Backend_Failure S remaining), m', L')
        else if 0 < remaining \<and> ob_pos ob' = ob_size ob'
        then Some (Inr (mk_progress 0 (ob_pos ob') False), m', L')
        else if 0 < remaining then zstd_finish_loop S a ob' ib' m' L'
        else Some (Inr (mk_progress 0 (ob_pos ob') True), m', L'))"

definition zstd_squeezer_finish ::
  "('l::len, 'b) env \<Rightarrow> zstd_squeezer \<Rightarrow> span \<Rightarrow> ('l, 'b, 'm) world_scheme
    \<Rightarrow> (op_result \<times> ('l, 'b, 'm) world_scheme) run" where
  "zstd_squeezer_finish E h out w =
     chain (live_ctx (cctx h) w) (\<lambda>_.
       case zstd_finish_loop (zstd E) (cctx h) (out_window out) no_input (mem w) (lib w) of
         None \<Rightarrow> Inl Never_Returns
       | Some (r, m, L) \<Rightarrow> Inr (r, w\<lparr>mem := m, lib := L\<rparr>))"

section \<open>zstd_sweller\<close>

record zstd_sweller =
  dctx :: addr
  dsw_fmt :: format

definition zstd_sweller_new ::
  "('l::len, 'b) env \<Rightarrow> format \<Rightarrow> ('l, 'b, 'm) world_scheme
    \<Rightarrow> (zstd_sweller \<times> ('l, 'b, 'm) world_scheme) run" where
  "zstd_sweller_new E f w =
     (let (a, L) = ZSTD_createDCtx (zstd E) (lib w)
      in if a = 0 \<and> \<not> ndebug E then Inl Assertion_Failed
         else Inr (\<lparr>dctx = a, dsw_fmt = f\<rparr>, w\<lparr>lib := L\<rparr>))"

definition zstd_sweller_move :: "zstd_sweller \<Rightarrow> zstd_sweller \<times> zstd_sweller" where
  "zstd_sweller_move other = (\<lparr>dctx = dctx other, dsw_fmt = dsw_fmt other\<rparr>, other\<lparr>dctx := 0\<rparr>)"

definition zstd_sweller_delete ::
  "('l::len, 'b) env \<Rightarrow> zstd_sweller \<Rightarrow> ('l, 'b, 'm) world_scheme \<Rightarrow> ('l, 'b, 'm) world_scheme run"
  where
  "zstd_sweller_delete E h w =
     (if dctx h = 0 then Inr w
      else chain (live_ctx (dctx h) w) (\<lambda>_.
        Inr (w\<lparr>lib := ZSTD_freeDCtx (zstd E) (dctx h) (lib w)\<rparr>)))"

definition zstd_sweller_assign ::
  "('l::len, 'b) env \<Rightarrow> bool \<Rightarrow> zstd_sweller \<Rightarrow> zstd_sweller \<Rightarrow> ('l, 'b, 'm) world_scheme
    \<Rightarrow> ((zstd_sweller \<times> zstd_sweller) \<times> ('l, 'b, 'm) world_scheme) run" where
  "zstd_sweller_assign E same self other w =
     (if same then Inr ((self, self), w)
      else chain
        (if dctx self = 0 then Inr w
         else chain (live_ctx (dctx self) w) (\<lambda>_.
           Inr (w\<lparr>lib := ZSTD_freeDCtx (zstd E) (dctx self) (lib w)\<rparr>)))
        (\<lambda>w1. Inr ((self\<lparr>dctx := dctx other, dsw_fmt := dsw_fmt other\<rparr>, other\<lparr>dctx := 0\<rparr>), w1)))"

definition zstd_sweller_push ::
  "('l::len, 'b) env \<Rightarrow> zstd_sweller \<Rightarrow> span \<Rightarrow> span \<Rightarrow> ('l, 'b, 'm) world_scheme
    \<Rightarrow> (op_result \<times> ('l, 'b, 'm) world_scheme) run" where
  "zstd_sweller_push E h i out w =
     (let (ret, m) = ZSTD_decompress (zstd E) (span_data out) (span_size out) (span_data i)
            (span_size i) (mem w);
          w' = w\<lparr>mem := m\<rparr>
      in if ZSTD_isError (zstd E) ret
         then Inr (Inl (zstd_error Stream_Corrupt (zstd E) ret), w')
         else Inr (Inr (mk_progress (span_size i) ret True), w'))"

definition zstd_sweller_push_more ::
  "('l::len, 'b) env \<Rightarrow> zstd_sweller \<Rightarrow> span \<Rightarrow> span \<Rightarrow> ('l, 'b, 'm) world_scheme
    \<Rightarrow> (op_result \<times> ('l, 'b, 'm) world_scheme) run" where
  "zstd_sweller_push_more E h i out w =
     chain (live_ctx (dctx h) w) (\<lambda>_.
       let (ret, ob, ib, m, L) = ZSTD_decompressStream (zstd E) (dctx h)
             (out_window out) (in_window i) (mem w) (lib w);
           w' = w\<lparr>mem := m, lib := L\<rparr>
       in if ZSTD_isError (zstd E) ret
          then Inr (Inl (zstd_error Stream_Corrupt (zstd E) ret), w')
          else
            let finished = (ret = 0)
            in if finished \<and> ib_pos ib < ib_size ib
               then Inr (Inl (mk_error Stream_Corrupt Zstd_Id (ib_pos ib)
                           ''extra data after end of stream''), w')
               else Inr (Inr (mk_progress (ib_pos ib) (ob_pos ob) finished), w'))"

section \<open>zstd_backend\<close>

definition zstd_formats :: "format list" where
  "zstd_formats = [Fmt_Zstd]"

definition zstd_bound :: "('l::len, 'b) env \<Rightarrow> zstd_level \<Rightarrow> u64 \<Rightarrow> u64" where
  "zstd_bound E lvl in_size =
     (let r = ZSTD_compressBound (zstd E) in_size
      in if ZSTD_isError (zstd E) r then -1 else r)"

definition zstd_backend_make_squeezer ::
  "('l::len, 'b) env \<Rightarrow> format \<Rightarrow> zstd_level \<Rightarrow> ('l, 'b, 'm) world_scheme
    \<Rightarrow> (zstd_squeezer \<times> ('l, 'b, 'm) world_scheme) run" where
  "zstd_backend_make_squeezer E f lvl w = zstd_squeezer_new E f lvl w"

definition zstd_backend_make_sweller ::
  "('l::len, 'b) env \<Rightarrow> format \<Rightarrow> ('l, 'b, 'm) world_scheme
    \<Rightarrow> (zstd_sweller \<times> ('l, 'b, 'm) world_scheme) run" where
  "zstd_backend_make_sweller E f w = zstd_sweller_new E f w"

definition zstd_backend_push ::
  "('l::len, 'b) env \<Rightarrow> zstd_squeezer \<Rightarrow> span \<Rightarrow> span \<Rightarrow> ('l, 'b, 'm) world_scheme
    \<Rightarrow> (op_result \<times> ('l, 'b, 'm) world_scheme) run" where
  "zstd_backend_push E h i out w = zstd_squeezer_push E h i out w"

definition zstd_backend_flush ::
  "('l::len, 'b) env \<Rightarrow> zstd_squeezer \<Rightarrow> span \<Rightarrow> ('l, 'b, 'm) world_scheme
    \<Rightarrow> (op_result \<times> ('l, 'b, 'm) world_scheme) run" where
  "zstd_backend_flush E h out w = zstd_squeezer_flush E h out w"

definition zstd_backend_finish ::
  "('l::len, 'b) env \<Rightarrow> zstd_squeezer \<Rightarrow> span \<Rightarrow> ('l, 'b, 'm) world_scheme
    \<Rightarrow> (op_result \<times> ('l, 'b, 'm) world_scheme) run" where
  "zstd_backend_finish E h out w = zstd_squeezer_finish E h out w"

section \<open>The finish loop ends\<close>

lemma zstd_finish_returns:
  assumes "\<And>e. zstd_step_ok (ZSTD_compressStream2 S e)" "zstd_end_progress S"
  shows "ob_pos ob \<le> ob_size ob \<Longrightarrow> ib_pos ib \<le> ib_size ib \<Longrightarrow>
    \<exists>r m' L'. zstd_finish_loop S a ob ib m L = Some (r, m', L') \<and> dom L' = dom L \<and>
      (\<forall>x. x \<noteq> a \<longrightarrow> L' x = L x) \<and> same_outside m m' (ob_dst ob) (unat (ob_size ob)) \<and>
      (\<forall>p. r = Inr p \<longrightarrow> pg_in p = 0 \<and> pg_out p \<le> ob_size ob \<and>
        (\<not> pg_done p \<longrightarrow> pg_out p = ob_size ob))"
proof (induction "unat (ob_size ob) - unat (ob_pos ob)" arbitrary: ob ib m L rule: less_induct)
  case less
  obtain q ob' ib' m' L' where call: "ZSTD_compressStream2 S ZSTD_e_end a ob ib m L
      = (q, ob', ib', m', L')"
    by (metis prod_cases5)
  note ok = zstd_step_okD [OF assms(1) less.prems call]
  have io: "ob_dst ob' = ob_dst ob" "ob_size ob' = ob_size ob" "ob_pos ob' \<le> ob_size ob'"
    "ib_pos ib' \<le> ib_size ib'"
    using ok(1) by (simp_all add: zstd_io_ok_def)
  note wr = zstd_io_ok_mem [OF ok(1)]
  show ?case
  proof (cases "\<not> ZSTD_isError S q \<and> 0 < q \<and> ob_pos ob' \<noteq> ob_size ob'")
    case False
    then show ?thesis
      using ok wr io by (subst zstd_finish_loop.simps) (auto simp: call word_neq_0_conv)
  next
    case True
    then have "ob_pos ob < ob_pos ob'"
      using assms(2) less.prems call by (fastforce simp: zstd_end_progress_def)
    moreover have "ob_pos ob' < ob_size ob'" using True io(3) le_neq_trans by blast
    ultimately have "unat (ob_size ob') - unat (ob_pos ob') < unat (ob_size ob) - unat (ob_pos ob)"
      using io by (simp add: word_less_nat_alt)
    from less.hyps [OF this io(3,4), of m' L'] obtain r m2 L2 where
      rec: "zstd_finish_loop S a ob' ib' m' L' = Some (r, m2, L2)" "dom L2 = dom L'"
        "\<forall>x. x \<noteq> a \<longrightarrow> L2 x = L' x" "same_outside m' m2 (ob_dst ob') (unat (ob_size ob'))"
        "\<forall>p. r = Inr p \<longrightarrow> pg_in p = 0 \<and> pg_out p \<le> ob_size ob' \<and>
          (\<not> pg_done p \<longrightarrow> pg_out p = ob_size ob')"
      by blast
    have "zstd_finish_loop S a ob ib m L = Some (r, m2, L2)"
      using True rec(1) by (subst zstd_finish_loop.simps) (simp add: call)
    moreover have "same_outside m m2 (ob_dst ob) (unat (ob_size ob))"
      using wr rec(4) io by (auto intro: same_outside_trans)
    ultimately show ?thesis using rec ok io by auto
  qed
qed

section \<open>The footprint of a handle\<close>

definition ctx_cells :: "addr \<Rightarrow> ('l::len, 'b, 'm) world_scheme \<Rightarrow> addr set" where
  "ctx_cells a w = {}"

definition ctx_objects :: "addr \<Rightarrow> ('l::len, 'b, 'm) world_scheme \<Rightarrow> addr set" where
  "ctx_objects a w = {a}"

text \<open>A handle owns a context or is null; a streaming call needs the context.\<close>

definition ctx_owned :: "addr \<Rightarrow> ('l::len, 'b, 'm) world_scheme \<Rightarrow> bool" where
  "ctx_owned a w \<longleftrightarrow> a = 0 \<or> a \<in> dom (lib w)"

definition ctx_ready :: "addr \<Rightarrow> ('l::len, 'b, 'm) world_scheme \<Rightarrow> bool" where
  "ctx_ready a w \<longleftrightarrow> a \<in> dom (lib w)"

lemmas ctx_defs = ctx_cells_def ctx_objects_def ctx_owned_def ctx_ready_def

lemma ctx_footprint_mem [simp]:
  "ctx_cells a (w\<lparr>mem := m\<rparr>) = ctx_cells a w" "ctx_objects a (w\<lparr>mem := m\<rparr>) = ctx_objects a w"
  "ctx_owned a (w\<lparr>mem := m\<rparr>) = ctx_owned a w" "ctx_ready a (w\<lparr>mem := m\<rparr>) = ctx_ready a w"
  by (simp_all add: ctx_defs)

lemma live_ctx_ready: "ctx_ready a w \<Longrightarrow> live_ctx a w = Inr ()"
  by (auto simp: ctx_ready_def live_ctx_def)

lemma window_sel [simp]:
  "ob_dst (out_window s) = span_data s" "ob_size (out_window s) = span_size s"
  "ob_pos (out_window s) = 0" "ib_src (in_window s) = span_data s"
  "ib_size (in_window s) = span_size s" "ib_pos (in_window s) = 0"
  "ib_size no_input = 0" "ib_pos no_input = 0"
  by (simp_all add: out_window_def in_window_def no_input_def)

lemma zstd_contract_steps:
  assumes "zstd_heap_contract S"
  shows "zstd_create_ok (ZSTD_createCCtx S)" "zstd_free_ok (ZSTD_freeCCtx S)"
    "zstd_step_ok (ZSTD_compressStream2 S e)"
    "zstd_create_ok (ZSTD_createDCtx S)" "zstd_free_ok (ZSTD_freeDCtx S)"
    "zstd_step_ok (ZSTD_decompressStream S)"
    "ZSTD_CCtx_setParameter S a p v L = (r, L') \<Longrightarrow> dom L' = dom L \<and> (\<forall>x. x \<noteq> a \<longrightarrow> L' x = L x)"
    "ZSTD_compress S d cap s n v m = (r, m') \<Longrightarrow>
      (\<not> ZSTD_isError S r \<longrightarrow> r \<le> cap) \<and> same_outside m m' d (unat cap)"
    "ZSTD_decompress S d cap s n m = (r, m') \<Longrightarrow>
      (\<not> ZSTD_isError S r \<longrightarrow> r \<le> cap) \<and> same_outside m m' d (unat cap)"
  using assms by (auto simp: zstd_heap_contract_def)

text \<open>The state after a streaming call keeps everything but the context and the window.\<close>

lemma ctx_step_frame:
  fixes m :: memory
  assumes "wf_world w" "dom L = dom (lib w)" "\<forall>x. x \<noteq> a \<longrightarrow> L x = lib w x" "ctx_ready a w"
  defines "w' \<equiv> w\<lparr>mem := m, lib := L\<rparr>"
  shows "frame (ctx_cells a w) (ctx_objects a w) w w' \<and> wf_world w' \<and> ctx_ready a w' \<and>
    ctx_cells a w' = ctx_cells a w \<and> ctx_objects a w' = ctx_objects a w"
  using assms by (auto simp: frame_def ctx_defs wf_world_def)

lemma ctx_free_frees:
  assumes "zstd_free_ok free" "wf_world w" "a \<in> dom (lib w)"
  defines "w' \<equiv> w\<lparr>lib := free a (lib w)\<rparr>"
  shows "wf_world w' \<and> frame (ctx_cells a w) (ctx_objects a w) w w' \<and> mem w' = mem w \<and>
    (\<forall>x \<in> ctx_cells a w. zstreams w' x = None) \<and> (\<forall>x \<in> ctx_objects a w. lib w' x = None)"
  using assms by (auto simp: zstd_free_ok_def frame_def ctx_defs wf_world_def)

lemma ctx_create_fresh:
  assumes "zstd_create_ok create" "wf_world w" "create (lib w) = (a, L)"
  shows "wf_world (w\<lparr>lib := L\<rparr>)" "ctx_owned a (w\<lparr>lib := L\<rparr>)"
    "frame {} {a} w (w\<lparr>lib := L\<rparr>)" "lib w a = None"
proof -
  have z: "0 \<notin> dom (lib w)" using assms(2) by (simp add: wf_world_def)
  note c = assms(1) [unfolded zstd_create_ok_def, rule_format, OF z assms(3)]
  show "wf_world (w\<lparr>lib := L\<rparr>)" using assms(2) c z by (auto simp: wf_world_def split: if_splits)
  show "ctx_owned a (w\<lparr>lib := L\<rparr>)" using c by (auto simp: ctx_defs split: if_splits)
  show "frame {} {a} w (w\<lparr>lib := L\<rparr>)" using c by (auto simp: frame_def split: if_splits)
  show "lib w a = None" using c z by (auto split: if_splits)
qed

section \<open>The handles satisfy the backend contract\<close>

interpretation zstd_squeezer_once: scoped_handle
  "zstd_squeezer_new E f lvl" "zstd_squeezer_delete E"
  "\<lambda>h. ctx_cells (cctx h)" "\<lambda>h. ctx_objects (cctx h)" "\<lambda>h. ctx_owned (cctx h)"
  "zstd_heap_contract (zstd E)" "zstd_squeezer_push E" Zstd_Id
  for E :: "('l::len, 'b) env" and f lvl
proof (unfold_locales, goal_cases)
  case (1 w h w')
  obtain a L where c: "ZSTD_createCCtx (zstd E) (lib w) = (a, L)" by force
  obtain r L' where s: "ZSTD_CCtx_setParameter (zstd E) a ZSTD_c_compressionLevel
      (zstd_level_int lvl) L = (r, L')" by force
  from 1(3) c s have h: "h = \<lparr>cctx = a, csq_fmt = f, csq_level = zstd_level_int lvl\<rparr>"
    and w': "w' = w\<lparr>lib := L'\<rparr>"
    by (auto simp: zstd_squeezer_new_def Let_def split: if_splits)
  note cf = ctx_create_fresh [OF zstd_contract_steps(1) [OF 1(1)] 1(2) c]
  note sp = zstd_contract_steps(7) [OF 1(1) s]
  show ?case
    using cf sp by (auto simp: h w' frame_def ctx_defs wf_world_def)
next
  case (2 w h)
  show ?case
  proof (cases "cctx h = 0")
    case True
    then show ?thesis using 2(2)
      by (auto simp: zstd_squeezer_delete_def ctx_defs wf_world_def domIff)
  next
    case False
    then have "cctx h \<in> dom (lib w)" using 2(3) by (simp add: ctx_defs)
    from ctx_free_frees [OF zstd_contract_steps(2) [OF 2(1)] 2(2) this] this False
    show ?thesis by (auto simp: zstd_squeezer_delete_def live_ctx_def)
  qed
next
  case (3 w h i out)
  then show ?case by (auto simp: zstd_squeezer_push_def Let_def split: prod.splits)
next
  case (4 w h i out r w')
  then obtain m where "w' = w\<lparr>mem := m\<rparr>"
    by (auto simp: zstd_squeezer_push_def Let_def split: prod.splits if_splits)
  with 4 show ?case by simp
next
  case (5 w h i out r w')
  then show ?case
    by (auto simp: zstd_squeezer_push_def Let_def split: prod.splits if_splits
        dest: zstd_contract_steps(8))
next
  case (6 h i out w e w')
  then show ?case
    by (auto simp: zstd_squeezer_push_def zstd_error_def Let_def split: prod.splits if_splits)
qed

interpretation zstd_sweller_once: scoped_handle
  "zstd_sweller_new E f" "zstd_sweller_delete E"
  "\<lambda>h. ctx_cells (dctx h)" "\<lambda>h. ctx_objects (dctx h)" "\<lambda>h. ctx_owned (dctx h)"
  "zstd_heap_contract (zstd E)" "zstd_sweller_push E" Zstd_Id
  for E :: "('l::len, 'b) env" and f
proof (unfold_locales, goal_cases)
  case (1 w h w')
  obtain a L where c: "ZSTD_createDCtx (zstd E) (lib w) = (a, L)" by force
  from 1(3) c have h: "h = \<lparr>dctx = a, dsw_fmt = f\<rparr>" and w': "w' = w\<lparr>lib := L\<rparr>"
    by (auto simp: zstd_sweller_new_def split: if_splits)
  from ctx_create_fresh [OF zstd_contract_steps(4) [OF 1(1)] 1(2) c]
  show ?case by (auto simp: h w' ctx_defs)
next
  case (2 w h)
  show ?case
  proof (cases "dctx h = 0")
    case True
    then show ?thesis using 2(2)
      by (auto simp: zstd_sweller_delete_def ctx_defs wf_world_def domIff)
  next
    case False
    then have "dctx h \<in> dom (lib w)" using 2(3) by (simp add: ctx_defs)
    from ctx_free_frees [OF zstd_contract_steps(5) [OF 2(1)] 2(2) this] this False
    show ?thesis by (auto simp: zstd_sweller_delete_def live_ctx_def)
  qed
next
  case (3 w h i out)
  then show ?case by (auto simp: zstd_sweller_push_def Let_def split: prod.splits)
next
  case (4 w h i out r w')
  then obtain m where "w' = w\<lparr>mem := m\<rparr>"
    by (auto simp: zstd_sweller_push_def Let_def split: prod.splits if_splits)
  with 4 show ?case by simp
next
  case (5 w h i out r w')
  then show ?case
    by (auto simp: zstd_sweller_push_def Let_def split: prod.splits if_splits
        dest: zstd_contract_steps(9))
next
  case (6 h i out w e w')
  then show ?case
    by (auto simp: zstd_sweller_push_def zstd_error_def Let_def split: prod.splits if_splits)
qed

interpretation zstd_squeezer_more: backend_op
  "zstd_squeezer_push_more E" "\<lambda>h. ctx_cells (cctx h)" "\<lambda>h. ctx_objects (cctx h)" "\<lambda>h. ctx_ready (cctx h)"
  Zstd_Id "zstd_heap_contract (zstd E)"
  for E :: "('l::len, 'b) env"
proof (unfold_locales, goal_cases)
  case (1 w h i out)
  then show ?case
    by (auto simp: zstd_squeezer_push_more_def live_ctx_ready Let_def split: prod.splits)
next
  case (2 w h i out r w')
  obtain q ob ib m L where c: "ZSTD_compressStream2 (zstd E) ZSTD_e_continue (cctx h) (out_window out) (in_window i) (mem w) (lib w) = (q, ob, ib, m, L)"
    by (metis prod_cases5)
  note st = zstd_step_okD [OF zstd_contract_steps(3) [OF 2(1)] _ _ c]
  from 2(4) c have "w' = w\<lparr>mem := m, lib := L\<rparr>"
    by (auto simp: zstd_squeezer_push_more_def live_ctx_ready [OF 2(3)] Let_def split: if_splits)
  then show ?case using ctx_step_frame [OF 2(2) _ _ 2(3)] st by simp
next
  case (3 w h i out r w')
  obtain q ob ib m L where c: "ZSTD_compressStream2 (zstd E) ZSTD_e_continue (cctx h) (out_window out) (in_window i) (mem w) (lib w) = (q, ob, ib, m, L)"
    by (metis prod_cases5)
  note st = zstd_step_okD [OF zstd_contract_steps(3) [OF 3(1)] _ _ c]
  from 3(4) c have "mem w' = m"
    by (auto simp: zstd_squeezer_push_more_def live_ctx_ready [OF 3(3)] Let_def split: if_splits)
  then show ?case using zstd_io_ok_mem [OF st(1)] by simp
next
  case (4 h i out w e w')
  then show ?case
    by (auto simp: zstd_squeezer_push_more_def zstd_error_def chain_Inr_iff Let_def split: prod.splits if_splits)
qed

interpretation zstd_squeezer_sync: backend_op
  "\<lambda>h i out. zstd_squeezer_flush E h out" "\<lambda>h. ctx_cells (cctx h)" "\<lambda>h. ctx_objects (cctx h)" "\<lambda>h. ctx_ready (cctx h)"
  Zstd_Id "zstd_heap_contract (zstd E)"
  for E :: "('l::len, 'b) env"
proof (unfold_locales, goal_cases)
  case (1 w h i out)
  then show ?case
    by (auto simp: zstd_squeezer_flush_def live_ctx_ready Let_def split: prod.splits)
next
  case (2 w h i out r w')
  obtain q ob ib m L where c: "ZSTD_compressStream2 (zstd E) ZSTD_e_flush (cctx h) (out_window out) no_input (mem w) (lib w) = (q, ob, ib, m, L)"
    by (metis prod_cases5)
  note st = zstd_step_okD [OF zstd_contract_steps(3) [OF 2(1)] _ _ c]
  from 2(4) c have "w' = w\<lparr>mem := m, lib := L\<rparr>"
    by (auto simp: zstd_squeezer_flush_def live_ctx_ready [OF 2(3)] Let_def split: if_splits)
  then show ?case using ctx_step_frame [OF 2(2) _ _ 2(3)] st by simp
next
  case (3 w h i out r w')
  obtain q ob ib m L where c: "ZSTD_compressStream2 (zstd E) ZSTD_e_flush (cctx h) (out_window out) no_input (mem w) (lib w) = (q, ob, ib, m, L)"
    by (metis prod_cases5)
  note st = zstd_step_okD [OF zstd_contract_steps(3) [OF 3(1)] _ _ c]
  from 3(4) c have "mem w' = m"
    by (auto simp: zstd_squeezer_flush_def live_ctx_ready [OF 3(3)] Let_def split: if_splits)
  then show ?case using zstd_io_ok_mem [OF st(1)] by simp
next
  case (4 h i out w e w')
  then show ?case
    by (auto simp: zstd_squeezer_flush_def zstd_error_def chain_Inr_iff Let_def split: prod.splits if_splits)
qed

interpretation zstd_sweller_more: backend_op
  "zstd_sweller_push_more E" "\<lambda>h. ctx_cells (dctx h)" "\<lambda>h. ctx_objects (dctx h)" "\<lambda>h. ctx_ready (dctx h)"
  Zstd_Id "zstd_heap_contract (zstd E)"
  for E :: "('l::len, 'b) env"
proof (unfold_locales, goal_cases)
  case (1 w h i out)
  then show ?case
    by (auto simp: zstd_sweller_push_more_def live_ctx_ready Let_def split: prod.splits)
next
  case (2 w h i out r w')
  obtain q ob ib m L where c: "ZSTD_decompressStream (zstd E) (dctx h) (out_window out) (in_window i) (mem w) (lib w) = (q, ob, ib, m, L)"
    by (metis prod_cases5)
  note st = zstd_step_okD [OF zstd_contract_steps(6) [OF 2(1)] _ _ c]
  from 2(4) c have "w' = w\<lparr>mem := m, lib := L\<rparr>"
    by (auto simp: zstd_sweller_push_more_def live_ctx_ready [OF 2(3)] Let_def split: if_splits)
  then show ?case using ctx_step_frame [OF 2(2) _ _ 2(3)] st by simp
next
  case (3 w h i out r w')
  obtain q ob ib m L where c: "ZSTD_decompressStream (zstd E) (dctx h) (out_window out) (in_window i) (mem w) (lib w) = (q, ob, ib, m, L)"
    by (metis prod_cases5)
  note st = zstd_step_okD [OF zstd_contract_steps(6) [OF 3(1)] _ _ c]
  from 3(4) c have "mem w' = m"
    by (auto simp: zstd_sweller_push_more_def live_ctx_ready [OF 3(3)] Let_def split: if_splits)
  then show ?case using zstd_io_ok_mem [OF st(1)] by simp
next
  case (4 h i out w e w')
  then show ?case
    by (auto simp: zstd_sweller_push_more_def zstd_error_def chain_Inr_iff Let_def split: prod.splits if_splits)
qed

lemma zstd_squeezer_finish_run:
  assumes "zstd_heap_contract (zstd E)" "zstd_end_progress (zstd E)" "ctx_ready (cctx h) w"
  obtains r m L where "zstd_squeezer_finish E h out w = Inr (r, w\<lparr>mem := m, lib := L\<rparr>)"
    "dom L = dom (lib w)" "\<forall>x. x \<noteq> cctx h \<longrightarrow> L x = lib w x"
    "same_outside (mem w) m (span_data out) (unat (span_size out))"
    "\<And>p. r = Inr p \<Longrightarrow> pg_in p = 0 \<and> pg_out p \<le> span_size out \<and>
      (\<not> pg_done p \<longrightarrow> pg_out p = span_size out)"
proof -
  have "\<exists>r m' L'. zstd_finish_loop (zstd E) (cctx h) (out_window out) no_input (mem w) (lib w)
      = Some (r, m', L') \<and> dom L' = dom (lib w) \<and> (\<forall>x. x \<noteq> cctx h \<longrightarrow> L' x = lib w x) \<and>
      same_outside (mem w) m' (ob_dst (out_window out)) (unat (ob_size (out_window out))) \<and>
      (\<forall>p. r = Inr p \<longrightarrow> pg_in p = 0 \<and> pg_out p \<le> ob_size (out_window out) \<and>
        (\<not> pg_done p \<longrightarrow> pg_out p = ob_size (out_window out)))"
    by (rule zstd_finish_returns [OF zstd_contract_steps(3) [OF assms(1)] assms(2)]) simp_all
  then obtain r m' L' where l:
    "zstd_finish_loop (zstd E) (cctx h) (out_window out) no_input (mem w) (lib w) = Some (r, m', L')"
    "dom L' = dom (lib w)" "\<forall>x. x \<noteq> cctx h \<longrightarrow> L' x = lib w x"
    "same_outside (mem w) m' (span_data out) (unat (span_size out))"
    "\<forall>p. r = Inr p \<longrightarrow> pg_in p = 0 \<and> pg_out p \<le> span_size out \<and>
      (\<not> pg_done p \<longrightarrow> pg_out p = span_size out)"
    by auto
  then show thesis
    by (intro that [of r L' m']) (auto simp: zstd_squeezer_finish_def live_ctx_ready [OF assms(3)])
qed

text \<open>The errors of the loop come from its own branch, however it got there.\<close>

lemma zstd_finish_loop_error:
  assumes ret: "zstd_finish_loop S a ob ib m L = Some x"
  shows "\<forall>e. fst x = Inl e \<longrightarrow> err_b e = Zstd_Id \<and> err_k e = Backend_Failure"
proof (rule zstd_finish_loop.raw_induct [where P = "\<lambda>_ _ _ _ _ _ x. \<forall>e. fst x = Inl e \<longrightarrow>
    err_b e = Zstd_Id \<and> err_k e = Backend_Failure", OF _ ret], goal_cases)
  case (1 f S a ob ib m L x)
  obtain q ob' ib' m' L' where "ZSTD_compressStream2 S ZSTD_e_end a ob ib m L
      = (q, ob', ib', m', L')"
    by (metis prod_cases5)
  with 1(2) have "(\<exists>y. x = (Inl (zstd_error Backend_Failure S q), y)) \<or> (\<exists>p y. x = (Inr p, y)) \<or>
      f S a ob' ib' m' L' = Some x"
    by (auto split: if_splits)
  then show ?case
    using 1(1) [of S a ob' ib' m' L' x] by (elim disjE exE) (simp_all add: zstd_error_def)
qed

interpretation zstd_squeezer_end: backend_op
  "\<lambda>h i out. zstd_squeezer_finish E h out"
  "\<lambda>h. ctx_cells (cctx h)" "\<lambda>h. ctx_objects (cctx h)" "\<lambda>h. ctx_ready (cctx h)"
  Zstd_Id "zstd_heap_contract (zstd E) \<and> zstd_end_progress (zstd E)"
  for E :: "('l::len, 'b) env"
proof (unfold_locales, goal_cases)
  case (1 w h i out)
  then show ?case by (metis zstd_squeezer_finish_run)
next
  case (2 w h i out r w')
  then obtain r' m L where "zstd_squeezer_finish E h out w = Inr (r', w\<lparr>mem := m, lib := L\<rparr>)"
    and L: "dom L = dom (lib w)" "\<forall>x. x \<noteq> cctx h \<longrightarrow> L x = lib w x"
    by (metis zstd_squeezer_finish_run)
  with 2(4) have "w' = w\<lparr>mem := m, lib := L\<rparr>" by simp
  then show ?case using ctx_step_frame [OF 2(2) L 2(3)] by simp
next
  case (3 w h i out r w')
  then obtain r' m L where "zstd_squeezer_finish E h out w = Inr (r', w\<lparr>mem := m, lib := L\<rparr>)"
    and m: "same_outside (mem w) m (span_data out) (unat (span_size out))"
    by (metis zstd_squeezer_finish_run)
  with 3(4) have "w' = w\<lparr>mem := m, lib := L\<rparr>" by simp
  with m show ?case by simp
next
  case (4 h i out w e w')
  then show ?case
    by (auto simp: zstd_squeezer_finish_def chain_Inr_iff split: option.splits
        dest!: zstd_finish_loop_error)
qed

section \<open>Honest counts\<close>

text \<open>The positions a streaming call reports stay inside the two windows.\<close>

lemma zstd_positions:
  assumes "zstd_step_ok call" "ib_pos ib \<le> ib_size ib"
    "call a (out_window out) ib m L = (q, ob', ib', m', L')"
  shows "ib_pos ib' \<le> ib_size ib \<and> ob_pos ob' \<le> span_size out"
  using zstd_step_okD(1) [OF assms(1) _ assms(2,3)] by (simp add: zstd_io_ok_def)

interpretation zstd_squeezer_more_counts: counted_op
  "zstd_squeezer_push_more E" "\<lambda>h. ctx_cells (cctx h)" "\<lambda>h. ctx_objects (cctx h)" "\<lambda>h. ctx_ready (cctx h)"
  Zstd_Id "zstd_heap_contract (zstd E)"
  for E :: "('l::len, 'b) env"
proof (unfold_locales, goal_cases)
  case (1 w h i out p w')
  obtain q ob ib m L where c: "ZSTD_compressStream2 (zstd E) ZSTD_e_continue (cctx h) (out_window out) (in_window i) (mem w) (lib w) = (q, ob, ib, m, L)"
    by (metis prod_cases5)
  note n = zstd_positions [OF zstd_contract_steps(3) [OF 1(1)] _ c]
  from 1(4) c show ?case using n
    by (auto simp: zstd_squeezer_push_more_def live_ctx_ready [OF 1(3)] Let_def split: if_splits)
qed

interpretation zstd_squeezer_sync_counts: counted_op
  "\<lambda>h i out. zstd_squeezer_flush E h out" "\<lambda>h. ctx_cells (cctx h)" "\<lambda>h. ctx_objects (cctx h)" "\<lambda>h. ctx_ready (cctx h)"
  Zstd_Id "zstd_heap_contract (zstd E)"
  for E :: "('l::len, 'b) env"
proof (unfold_locales, goal_cases)
  case (1 w h i out p w')
  obtain q ob ib m L where c: "ZSTD_compressStream2 (zstd E) ZSTD_e_flush (cctx h) (out_window out) no_input (mem w) (lib w) = (q, ob, ib, m, L)"
    by (metis prod_cases5)
  note n = zstd_positions [OF zstd_contract_steps(3) [OF 1(1)] _ c]
  from 1(4) c show ?case using n
    by (auto simp: zstd_squeezer_flush_def live_ctx_ready [OF 1(3)] Let_def split: if_splits)
qed

interpretation zstd_sweller_more_counts: counted_op
  "zstd_sweller_push_more E" "\<lambda>h. ctx_cells (dctx h)" "\<lambda>h. ctx_objects (dctx h)" "\<lambda>h. ctx_ready (dctx h)"
  Zstd_Id "zstd_heap_contract (zstd E)"
  for E :: "('l::len, 'b) env"
proof (unfold_locales, goal_cases)
  case (1 w h i out p w')
  obtain q ob ib m L where c: "ZSTD_decompressStream (zstd E) (dctx h) (out_window out) (in_window i) (mem w) (lib w) = (q, ob, ib, m, L)"
    by (metis prod_cases5)
  note n = zstd_positions [OF zstd_contract_steps(6) [OF 1(1)] _ c]
  from 1(4) c show ?case using n
    by (auto simp: zstd_sweller_push_more_def live_ctx_ready [OF 1(3)] Let_def split: if_splits)
qed

interpretation zstd_squeezer_end_counts: counted_op
  "\<lambda>h i out. zstd_squeezer_finish E h out"
  "\<lambda>h. ctx_cells (cctx h)" "\<lambda>h. ctx_objects (cctx h)" "\<lambda>h. ctx_ready (cctx h)"
  Zstd_Id "zstd_heap_contract (zstd E) \<and> zstd_end_progress (zstd E)"
  for E :: "('l::len, 'b) env"
proof (unfold_locales, goal_cases)
  case (1 w h i out p w')
  then obtain r m L where "zstd_squeezer_finish E h out w = Inr (r, w\<lparr>mem := m, lib := L\<rparr>)"
    "\<And>p. r = Inr p \<Longrightarrow> pg_in p = 0 \<and> pg_out p \<le> span_size out"
    by (metis zstd_squeezer_finish_run)
  with 1(4) show ?case by simp
qed

end
