(* ===== verification/Handle_Creation.thy ===== *)
theory Handle_Creation
  imports Zlib_Backend Zstd_Backend
begin

text \<open>
  When the four handles can be built: the constructors of \<open>src/detail/zlib.cpp\<close> and
  \<open>src/detail/zstd.cpp\<close> have no error result, so every layer above needs the same condition
  on the libraries' allocations, stated once here.
\<close>

definition level_in_range :: "zlib_level \<Rightarrow> bool" where
  "level_in_range lvl \<longleftrightarrow> 0 \<le> sint (zlib_level_int lvl) \<and> sint (zlib_level_int lvl) \<le> 9"

section \<open>Allocations that succeed\<close>

text \<open>
  The allocations the handles make succeed in this state. Where one fails, a debug build stops
  at an assertion and a release build goes on with what the failed call left behind.
\<close>

definition allocations_succeed :: "('l::len, 'b) env \<Rightarrow> ('l, 'b, 'm) world_scheme \<Rightarrow> bool" where
  "allocations_succeed E w \<longleftrightarrow>
     (\<forall>f lvl. level_in_range lvl \<longrightarrow> fst (deflateInit2 (zlib E) zero_stream
        (sint (zlib_level_int lvl)) 8 (window_bits_for f) 8 0 (lib w)) = Z_OK) \<and>
     (\<forall>f. fst (inflateInit2 (zlib E) zero_stream (window_bits_for f) (lib w)) = Z_OK) \<and>
     fst (ZSTD_createCCtx (zstd E) (lib w)) \<noteq> 0 \<and> fst (ZSTD_createDCtx (zstd E) (lib w)) \<noteq> 0 \<and>
     (\<forall>a v L. \<not> ZSTD_isError (zstd E)
        (fst (ZSTD_CCtx_setParameter (zstd E) a ZSTD_c_compressionLevel v L)))"

lemma zlib_squeezer_new_run:
  assumes "deflateInit2 (zlib E) zero_stream (sint (zlib_level_int lvl)) 8 (window_bits_for f) 8 0
      (lib w) = (Z_OK, st, L)"
  shows "zlib_squeezer_new E f lvl w = Inr (\<lparr>zsq_stream = brk w\<rparr>,
    w\<lparr>zstreams := (zstreams w)(brk w \<mapsto> st), brk := Suc (brk w), lib := L\<rparr>)"
proof -
  have "zero_stream\<lparr>zalloc := 0, zfree := 0, opaque := 0\<rparr> = (zero_stream :: 'a z_stream)"
    by (simp add: zero_stream_def)
  then show ?thesis using assms by (simp add: zlib_squeezer_new_def new_zstream_def)
qed

lemma zlib_sweller_new_run:
  assumes "inflateInit2 (zlib E) zero_stream (window_bits_for f) (lib w) = (Z_OK, st, L)"
  shows "zlib_sweller_new E f w = Inr (\<lparr>zsw_stream = brk w\<rparr>,
    w\<lparr>zstreams := (zstreams w)(brk w \<mapsto> st), brk := Suc (brk w), lib := L\<rparr>)"
proof -
  have "zero_stream\<lparr>zalloc := 0, zfree := 0, opaque := 0, next_in := 0, avail_in := 0\<rparr>
      = (zero_stream :: 'a z_stream)"
    by (simp add: zero_stream_def)
  then show ?thesis using assms by (simp add: zlib_sweller_new_def new_zstream_def)
qed

lemma zstd_squeezer_new_run:
  assumes "ZSTD_createCCtx (zstd E) (lib w) = (a, L)" "a \<noteq> 0"
    "ZSTD_CCtx_setParameter (zstd E) a ZSTD_c_compressionLevel (zstd_level_int lvl) L = (r, L')"
    "\<not> ZSTD_isError (zstd E) r"
  shows "zstd_squeezer_new E f lvl w
    = Inr (\<lparr>cctx = a, csq_fmt = f, csq_level = zstd_level_int lvl\<rparr>, w\<lparr>lib := L'\<rparr>)"
  using assms by (simp add: zstd_squeezer_new_def)

lemma zstd_sweller_new_run:
  assumes "ZSTD_createDCtx (zstd E) (lib w) = (a, L)" "a \<noteq> 0"
  shows "zstd_sweller_new E f w = Inr (\<lparr>dctx = a, dsw_fmt = f\<rparr>, w\<lparr>lib := L\<rparr>)"
  using assms by (simp add: zstd_sweller_new_def)

lemma fst_ok: "fst p = c \<Longrightarrow> \<exists>x y. p = (c, x, y)"
  by (cases p) auto

lemma allocations_succeedD:
  assumes "allocations_succeed E w"
  shows "level_in_range lvl \<Longrightarrow> \<exists>st L. deflateInit2 (zlib E) zero_stream
        (sint (zlib_level_int lvl)) 8 (window_bits_for f) 8 0 (lib w) = (Z_OK, st, L)"
    "\<exists>st L. inflateInit2 (zlib E) zero_stream (window_bits_for f) (lib w) = (Z_OK, st, L)"
  using assms unfolding allocations_succeed_def by (blast intro: fst_ok)+

lemma handles_exist:
  assumes "allocations_succeed E w"
  shows "level_in_range lvl \<Longrightarrow> \<exists>h w1. zlib_squeezer_new E f lvl w = Inr (h, w1)"
    "\<exists>h w1. zlib_sweller_new E f w = Inr (h, w1)"
    "\<exists>h w1. zstd_squeezer_new E f zl w = Inr (h, w1)"
    "\<exists>h w1. zstd_sweller_new E f w = Inr (h, w1)"
proof -
  show "\<exists>h w1. zlib_squeezer_new E f lvl w = Inr (h, w1)" if "level_in_range lvl"
    using allocations_succeedD(1) [OF assms that] zlib_squeezer_new_run by blast
  show "\<exists>h w1. zlib_sweller_new E f w = Inr (h, w1)"
    using allocations_succeedD(2) [OF assms] zlib_sweller_new_run by blast
  show "\<exists>h w1. zstd_squeezer_new E f zl w = Inr (h, w1)"
  proof -
    obtain a L where c: "ZSTD_createCCtx (zstd E) (lib w) = (a, L)" by force
    obtain r L' where s: "ZSTD_CCtx_setParameter (zstd E) a ZSTD_c_compressionLevel
        (zstd_level_int zl) L = (r, L')" by force
    have "a \<noteq> 0" using assms c by (simp add: allocations_succeed_def)
    moreover have "\<not> ZSTD_isError (zstd E) r"
      using assms s by (auto simp: allocations_succeed_def) (metis fst_conv)
    ultimately show ?thesis using zstd_squeezer_new_run [OF c _ s] by blast
  qed
  show "\<exists>h w1. zstd_sweller_new E f w = Inr (h, w1)"
    using assms zstd_sweller_new_run [of E w]
    by (cases "ZSTD_createDCtx (zstd E) (lib w)") (auto simp: allocations_succeed_def)
qed

end
