(* ===== verification/One_Shot.thy ===== *)
theory One_Shot
  imports Handle_Creation
begin

text \<open>
  \<open>include/polliwog/squeeze.hpp\<close> and \<open>src/squeeze.cpp\<close>: the one-shot calls \<open>bound\<close>,
  \<open>squeeze\<close> and \<open>swell\<close>. A value outside the enum \<open>format\<close> takes the same \<open>default\<close> branch
  as \<open>lz4_frame\<close>, so the datatype loses no behaviour.
\<close>

section \<open>The calls\<close>

record squeeze_result =
  bytes_written :: u64

type_synonym one_shot_result = "error + squeeze_result"

definition no_such_format :: error where
  "no_such_format = mk_error Format_Mismatch No_Backend 0 ''''"

definition bound :: "('l::len, 'b) env \<Rightarrow> format \<Rightarrow> zlib_level \<Rightarrow> u64 \<Rightarrow> u64" where
  "bound E f lvl in_size = (case f of
     Fmt_Zstd \<Rightarrow> if has_zstd E then zstd_bound E zstd_default_level in_size else 0
   | Fmt_Lz4_Frame \<Rightarrow> 0
   | _ \<Rightarrow> if has_zlib E then zlib_bound E lvl in_size else 0)"

text \<open>\<open>out[i] = v\<close> on a span: an index past the end is undefined.\<close>

definition span_store ::
  "span \<Rightarrow> nat \<Rightarrow> u8 \<Rightarrow> ('l::len, 'b, 'm) world_scheme \<Rightarrow> ('l, 'b, 'm) world_scheme run" where
  "span_store s i v w =
     (if i < unat (span_size s) then Inr (w\<lparr>mem := (mem w)(span_data s + i := v)\<rparr>)
      else Inl Undefined_Behaviour)"

text \<open>What follows the backend's \<open>push\<close>: pass the error on, or patch gzip's OS byte and count.\<close>

definition reply ::
  "op_result \<times> ('l::len, 'b, 'm) world_scheme
    \<Rightarrow> (one_shot_result \<times> ('l, 'b, 'm) world_scheme) run" where
  "reply = (\<lambda>(r, w). case r of
     Inl e \<Rightarrow> Inr (Inl e, w)
   | Inr p \<Rightarrow> Inr (Inr \<lparr>bytes_written = pg_out p\<rparr>, w))"

definition reply_patched ::
  "format \<Rightarrow> span \<Rightarrow> op_result \<times> ('l::len, 'b, 'm) world_scheme
    \<Rightarrow> (one_shot_result \<times> ('l, 'b, 'm) world_scheme) run" where
  "reply_patched f out = (\<lambda>(r, w). case r of
     Inl e \<Rightarrow> Inr (Inl e, w)
   | Inr p \<Rightarrow>
       chain (if f = Fmt_Gzip \<and> 10 \<le> pg_out p then span_store out 9 0xff w else Inr w)
         (\<lambda>w'. Inr (Inr \<lparr>bytes_written = pg_out p\<rparr>, w')))"

definition squeeze ::
  "('l::len, 'b) env \<Rightarrow> format \<Rightarrow> zlib_level \<Rightarrow> span \<Rightarrow> span \<Rightarrow> ('l, 'b, 'm) world_scheme
    \<Rightarrow> (one_shot_result \<times> ('l, 'b, 'm) world_scheme) run" where
  "squeeze E f lvl i out w = (case f of
     Fmt_Zstd \<Rightarrow>
       if \<not> has_zstd E then Inr (Inl no_such_format, w)
       else
         let cap = bound E f zlib_default_level (span_size i)
         in if cap = 0 then Inr (Inl no_such_format, w)
            else if span_size out < cap
            then Inr (Inl (mk_error Buffer_Too_Small No_Backend 0 ''''), w)
            else scoped
              (zstd_backend_make_squeezer E f (Zstd_Level (zlib_level_int lvl)))
              (\<lambda>h w1. chain (zstd_squeezer_push E h i out w1) reply)
              (zstd_squeezer_delete E) w
   | Fmt_Lz4_Frame \<Rightarrow> Inr (Inl no_such_format, w)
   | _ \<Rightarrow>
       if \<not> has_zlib E then Inr (Inl no_such_format, w)
       else
         let v = sint (zlib_level_int lvl)
         in if v < 0 \<or> v > 9
            then Inr (Inl (mk_error Level_Unsupported Zlib_Id 0 ''''), w)
            else
              let cap = bound E f lvl (span_size i)
              in if cap = 0 then Inr (Inl no_such_format, w)
                 else if span_size out < cap
                 then Inr (Inl (mk_error Buffer_Too_Small No_Backend 0 ''''), w)
                 else scoped
                   (zlib_backend_make_squeezer E f lvl)
                   (\<lambda>h w1. chain (zlib_squeezer_push E h i out w1) (reply_patched f out))
                   (zlib_squeezer_delete E) w)"

definition swell ::
  "('l::len, 'b) env \<Rightarrow> format \<Rightarrow> span \<Rightarrow> span \<Rightarrow> ('l, 'b, 'm) world_scheme
    \<Rightarrow> (one_shot_result \<times> ('l, 'b, 'm) world_scheme) run" where
  "swell E f i out w = (case f of
     Fmt_Zstd \<Rightarrow>
       if \<not> has_zstd E then Inr (Inl no_such_format, w)
       else scoped
         (zstd_backend_make_sweller E f)
         (\<lambda>h w1. chain (zstd_sweller_push E h i out w1) reply)
         (zstd_sweller_delete E) w
   | Fmt_Lz4_Frame \<Rightarrow> Inr (Inl no_such_format, w)
   | _ \<Rightarrow>
       if \<not> has_zlib E then Inr (Inl no_such_format, w)
       else scoped
         (zlib_backend_make_sweller E f)
         (\<lambda>h w1. chain (zlib_sweller_push E h i out w1) reply)
         (zlib_sweller_delete E) w)"

section \<open>A specification of the checks\<close>

text \<open>
  The decision \<open>squeeze\<close> takes before it touches a backend, as one table: the level first
  (zlib's formats only), then whether there is a backend, then the room.
\<close>

definition backend_present :: "('l::len, 'b) env \<Rightarrow> format \<Rightarrow> bool" where
  "backend_present E f \<longleftrightarrow> (is_zlib_format f \<and> has_zlib E) \<or> (f = Fmt_Zstd \<and> has_zstd E)"

definition refusal ::
  "('l::len, 'b) env \<Rightarrow> format \<Rightarrow> zlib_level \<Rightarrow> u64 \<Rightarrow> u64 \<Rightarrow> error option" where
  "refusal E f lvl n room =
     (if \<not> backend_present E f then Some no_such_format
      else if is_zlib_format f \<and> \<not> level_in_range lvl
      then Some (mk_error Level_Unsupported Zlib_Id 0 '''')
      else if bound E f lvl n = 0 then Some no_such_format
      else if room < bound E f lvl n then Some (mk_error Buffer_Too_Small No_Backend 0 '''')
      else None)"

lemma zlib_format_cases:
  "(is_zlib_format f \<Longrightarrow> P) \<Longrightarrow> (f = Fmt_Zstd \<Longrightarrow> P) \<Longrightarrow> (f = Fmt_Lz4_Frame \<Longrightarrow> P) \<Longrightarrow> P"
  by (cases f) simp_all

lemma bound_level: "bound E f lvl n = bound E f lvl' n"
  by (simp add: bound_def zlib_bound_def split: format.split)

text \<open>The two branches of \<open>squeeze\<close> that reach a backend.\<close>

definition zlib_squeeze ::
  "('l::len, 'b) env \<Rightarrow> format \<Rightarrow> zlib_level \<Rightarrow> span \<Rightarrow> span \<Rightarrow> ('l, 'b, 'm) world_scheme
    \<Rightarrow> (one_shot_result \<times> ('l, 'b, 'm) world_scheme) run" where
  "zlib_squeeze E f lvl i out = scoped (zlib_squeezer_new E f lvl)
     (\<lambda>h w1. chain (zlib_squeezer_push E h i out w1) (reply_patched f out)) (zlib_squeezer_delete E)"

definition zstd_squeeze ::
  "('l::len, 'b) env \<Rightarrow> zlib_level \<Rightarrow> span \<Rightarrow> span \<Rightarrow> ('l, 'b, 'm) world_scheme
    \<Rightarrow> (one_shot_result \<times> ('l, 'b, 'm) world_scheme) run" where
  "zstd_squeeze E lvl i out = scoped (zstd_squeezer_new E Fmt_Zstd (Zstd_Level (zlib_level_int lvl)))
     (\<lambda>h w1. chain (zstd_squeezer_push E h i out w1) reply) (zstd_squeezer_delete E)"

definition zlib_swell ::
  "('l::len, 'b) env \<Rightarrow> format \<Rightarrow> span \<Rightarrow> span \<Rightarrow> ('l, 'b, 'm) world_scheme
    \<Rightarrow> (one_shot_result \<times> ('l, 'b, 'm) world_scheme) run" where
  "zlib_swell E f i out = scoped (zlib_sweller_new E f)
     (\<lambda>h w1. chain (zlib_sweller_push E h i out w1) reply) (zlib_sweller_delete E)"

definition zstd_swell ::
  "('l::len, 'b) env \<Rightarrow> span \<Rightarrow> span \<Rightarrow> ('l, 'b, 'm) world_scheme
    \<Rightarrow> (one_shot_result \<times> ('l, 'b, 'm) world_scheme) run" where
  "zstd_swell E i out = scoped (zstd_sweller_new E Fmt_Zstd)
     (\<lambda>h w1. chain (zstd_sweller_push E h i out w1) reply) (zstd_sweller_delete E)"

lemma squeeze_branches:
  "squeeze E f lvl i out w = (case refusal E f lvl (span_size i) (span_size out) of
     Some e \<Rightarrow> Inr (Inl e, w)
   | None \<Rightarrow> if f = Fmt_Zstd then zstd_squeeze E lvl i out w else zlib_squeeze E f lvl i out w)"
proof -
  have b: "bound E g zlib_default_level n = bound E g lvl n" for g n by (rule bound_level)
  show ?thesis
    by (cases f) (simp_all only: squeeze_def format.case refusal_def b, auto simp: Let_def
      backend_present_def level_in_range_def zlib_squeeze_def zstd_squeeze_def
      zlib_backend_make_squeezer_def [abs_def] zstd_backend_make_squeezer_def [abs_def])
qed

lemma swell_branches:
  "swell E f i out w =
     (if \<not> backend_present E f then Inr (Inl no_such_format, w)
      else if f = Fmt_Zstd then zstd_swell E i out w else zlib_swell E f i out w)"
  by (cases f) (auto simp: swell_def backend_present_def zlib_swell_def zstd_swell_def
      zlib_backend_make_sweller_def [abs_def] zstd_backend_make_sweller_def [abs_def])

lemma refusal_None_iff:
  "refusal E f lvl n room = None \<longleftrightarrow>
     backend_present E f \<and> (is_zlib_format f \<longrightarrow> level_in_range lvl) \<and>
     bound E f lvl n \<noteq> 0 \<and> bound E f lvl n \<le> room"
  by (auto simp: refusal_def not_less)

lemma refusal_zlib_format: "refusal E f lvl n room = None \<Longrightarrow> f \<noteq> Fmt_Zstd \<Longrightarrow> is_zlib_format f"
  by (auto simp: refusal_None_iff backend_present_def)

section \<open>The backend branches keep the heaps and write only the output\<close>

lemma reply_keeps: "reply (x, w) = Inr (r, w') \<Longrightarrow> w' = w"
  by (auto simp: reply_def split: sum.splits)

lemma reply_patched_keeps:
  "reply_patched f out (x, w) = Inr (r, w') \<Longrightarrow>
    \<exists>m. w' = w\<lparr>mem := m\<rparr> \<and> same_outside (mem w) m (span_data out) (unat (span_size out))"
  by (auto simp: reply_patched_def span_store_def chain_Inr_iff same_outside_def
      split: sum.splits if_splits intro: exI [of _ "mem w"])

lemma reply_mem: "reply (x, w) = Inr (r, w') \<Longrightarrow>
    \<exists>m. w' = w\<lparr>mem := m\<rparr> \<and> same_outside (mem w) m (span_data out) (unat (span_size out))"
  by (auto dest!: reply_keeps intro: exI [of _ "mem w"])

lemma zlib_squeeze_keeps:
  assumes "zlib_heap_contract (zlib E)" "wf_world w" "zlib_squeeze E f lvl i out w = Inr (r, w')"
  shows "wf_world w' \<and> same_heap w w' \<and>
    same_outside (mem w) (mem w') (span_data out) (unat (span_size out))"
  by (rule zlib_squeezer_once.one_call [OF assms(1,2) assms(3) [unfolded zlib_squeeze_def]]) (erule reply_patched_keeps, simp)

lemma zlib_swell_keeps:
  assumes "zlib_heap_contract (zlib E)" "wf_world w" "zlib_swell E f i out w = Inr (r, w')"
  shows "wf_world w' \<and> same_heap w w' \<and>
    same_outside (mem w) (mem w') (span_data out) (unat (span_size out))"
  by (rule zlib_sweller_once.one_call [OF assms(1,2) assms(3) [unfolded zlib_swell_def]]) (erule reply_mem, simp)

lemma zstd_squeeze_keeps:
  assumes "zstd_heap_contract (zstd E)" "wf_world w" "zstd_squeeze E lvl i out w = Inr (r, w')"
  shows "wf_world w' \<and> same_heap w w' \<and>
    same_outside (mem w) (mem w') (span_data out) (unat (span_size out))"
  by (rule zstd_squeezer_once.one_call [OF assms(1,2) assms(3) [unfolded zstd_squeeze_def]]) (erule reply_mem, simp)

lemma zstd_swell_keeps:
  assumes "zstd_heap_contract (zstd E)" "wf_world w" "zstd_swell E i out w = Inr (r, w')"
  shows "wf_world w' \<and> same_heap w w' \<and>
    same_outside (mem w) (mem w') (span_data out) (unat (span_size out))"
  by (rule zstd_sweller_once.one_call [OF assms(1,2) assms(3) [unfolded zstd_swell_def]]) (erule reply_mem, simp)

section \<open>The calls return\<close>

lemma reply_returns: "\<exists>r m. reply (x, w) = Inr (r, w\<lparr>mem := m\<rparr>)"
  by (auto simp: reply_def split: sum.split intro: exI [of _ "mem w"])

lemma reply_patched_returns:
  assumes "\<And>p. x = Inr p \<Longrightarrow> pg_out p \<le> span_size out"
  shows "\<exists>r m. reply_patched f out (x, w) = Inr (r, w\<lparr>mem := m\<rparr>)"
proof (cases x)
  case (Inl e)
  then show ?thesis by (auto simp: reply_patched_def intro: exI [of _ "mem w"])
next
  case (Inr p)
  show ?thesis
  proof (cases "f = Fmt_Gzip \<and> 10 \<le> pg_out p")
    case True
    then have "10 \<le> unat (pg_out p)" by (simp add: word_le_nat_alt)
    moreover have "unat (pg_out p) \<le> unat (span_size out)"
      using assms [OF Inr] by (simp add: word_le_nat_alt)
    ultimately have "9 < unat (span_size out)" by simp
    with True Inr show ?thesis by (auto simp: reply_patched_def span_store_def)
  next
    case False
    with Inr show ?thesis by (auto simp: reply_patched_def intro: exI [of _ "mem w"])
  qed
qed

lemma zlib_squeeze_returns:
  fixes E :: "(64, 'b) env"
  assumes "zlib_heap_contract (zlib E)" "wf_world w" "allocations_succeed E w" "level_in_range lvl"
  shows "\<exists>r w'. zlib_squeeze E f lvl i out w = Inr (r, w')"
proof -
  obtain h w1 where mk: "zlib_squeezer_new E f lvl w = Inr (h, w1)"
    using handles_exist(1) [OF assms(3,4)] by blast
  show ?thesis unfolding zlib_squeeze_def
  proof (rule zlib_squeezer_once.one_call_returns [OF assms(1,2) mk])
    fix x w2
    assume op: "zlib_squeezer_push E h i out w1 = Inr (x, w2)" and w1: "wf_world w1"
      "zready (zsq_stream h) w1"
    show "\<exists>r m. reply_patched f out (x, w2) = Inr (r, w2\<lparr>mem := m\<rparr>)"
      by (rule reply_patched_returns)
        (use zlib_squeezer_push_counts.op_counts [OF assms(1) w1] op in blast)
  qed simp
qed

lemma zlib_swell_returns:
  assumes "zlib_heap_contract (zlib E)" "wf_world w" "allocations_succeed E w"
  shows "\<exists>r w'. zlib_swell E f i out w = Inr (r, w')"
proof -
  obtain h w1 where "zlib_sweller_new E f w = Inr (h, w1)"
    using handles_exist(2) [OF assms(3)] by blast
  then show ?thesis unfolding zlib_swell_def
    by (rule zlib_sweller_once.one_call_returns [OF assms(1,2)]) (rule reply_returns, simp)
qed

lemma zstd_squeeze_returns:
  assumes "zstd_heap_contract (zstd E)" "wf_world w" "allocations_succeed E w"
  shows "\<exists>r w'. zstd_squeeze E lvl i out w = Inr (r, w')"
proof -
  obtain h w1 where "zstd_squeezer_new E Fmt_Zstd (Zstd_Level (zlib_level_int lvl)) w = Inr (h, w1)"
    using handles_exist(3) [OF assms(3)] by blast
  then show ?thesis unfolding zstd_squeeze_def
    by (rule zstd_squeezer_once.one_call_returns [OF assms(1,2)]) (rule reply_returns, simp)
qed

lemma zstd_swell_returns:
  assumes "zstd_heap_contract (zstd E)" "wf_world w" "allocations_succeed E w"
  shows "\<exists>r w'. zstd_swell E i out w = Inr (r, w')"
proof -
  obtain h w1 where "zstd_sweller_new E Fmt_Zstd w = Inr (h, w1)"
    using handles_exist(4) [OF assms(3)] by blast
  then show ?thesis unfolding zstd_swell_def
    by (rule zstd_sweller_once.one_call_returns [OF assms(1,2)]) (rule reply_returns, simp)
qed

end
