(* ===== verification/One_Shot_Codec.thy ===== *)
theory One_Shot_Codec
  imports One_Shot
begin

text \<open>
  What the one-shot calls write and read, in terms of the codec the C libraries implement:
  the exact bytes of \<open>squeeze\<close>'s output, and \<open>swell\<close> restoring the data of a stream. All of it
  is for a 64-bit \<open>uLong\<close> and spans below 4 GiB, where \<open>static_cast<uInt>\<close> loses nothing.
\<close>

section \<open>A finishing call on a fresh stream\<close>

lemma zlib_bound_ge:
  fixes E :: "(64, 'b) env"
  shows "compressBound (zlib E) n \<le> zlib_bound E lvl n"
  by (simp add: zlib_bound_def Let_def)

text \<open>
  Where zlib promises that the stream fits: in the zlib container whenever the check of \<open>squeeze\<close>
  passes, because that check is zlib's own bound for it, and in every other container once the
  output has the size that \<open>deflateBound\<close> gives.
\<close>

definition container_fits :: "(int \<Rightarrow> int \<Rightarrow> nat \<Rightarrow> nat) \<Rightarrow> format \<Rightarrow> zlib_level \<Rightarrow> u64 \<Rightarrow> u64 \<Rightarrow> bool" where
  "container_fits D f lvl n k \<longleftrightarrow>
     f = Fmt_Zlib \<or> D (window_bits_for f) (sint (zlib_level_int lvl)) (unat n) \<le> unat k"

lemma container_fits_finishes:
  fixes E :: "(64, 'b) env"
  assumes cover: "zlib_bound_covers (zlib E)" and size: "zlib_deflate_bound (zlib E) D"
    and fits: "container_fits D f lvl n k" and room: "zlib_bound E lvl n \<le> k"
    and small: "unat n < 2 ^ 32" "unat k < 2 ^ 32"
  shows "zlib_finishes (zlib E) (window_bits_for f) (sint (zlib_level_int lvl)) (to_uInt n) (to_uInt k)"
proof (cases "f = Fmt_Zlib")
  case True
  have "unat (compressBound (zlib E) (of_nat (unat (to_uInt n)))) \<le> unat (to_uInt k)"
    using order_trans [OF zlib_bound_ge room] small by (simp add: unat_to_uInt_small word_le_nat_alt)
  with cover True show ?thesis by (simp add: zlib_bound_covers_def)
next
  case False
  with fits size small show ?thesis
    by (simp add: container_fits_def zlib_deflate_bound_def unat_to_uInt_small)
qed

text \<open>A caller of the zlib container alone needs nothing of \<open>deflateBound\<close>.\<close>

lemma no_deflate_bound: "zlib_deflate_bound Z (\<lambda>_ _ _. 2 ^ 32)"
  unfolding zlib_deflate_bound_def using unat_u32_less by (metis linorder_not_le)

definition gzip_unknown_os :: "format \<Rightarrow> u8 list \<Rightarrow> u8 list" where
  "gzip_unknown_os f ys = (if f = Fmt_Gzip \<and> 10 \<le> length ys then ys[9 := 0xff] else ys)"

lemma zlib_fresh_push:
  fixes E :: "(64, 'b) env" and w :: "(64, 'b, 'm) world_scheme"
  assumes lawful: "zlib_heap_contract (zlib E)" and wf: "wf_world w"
    and enc: "zlib_encodes (zlib E) enc"
    and fin: "zlib_finishes (zlib E) (window_bits_for f) (sint (zlib_level_int lvl))
      (to_uInt (span_size i)) (to_uInt (span_size out))"
    and init: "deflateInit2 (zlib E) zero_stream (sint (zlib_level_int lvl)) 8 (window_bits_for f) 8 0
      (lib w) = (Z_OK, st, L)"
    and small: "unat (span_size i) < 2 ^ 32" "unat (span_size out) < 2 ^ 32"
    and valid: "spans_valid i out"
    and room: "zlib_bound E lvl (span_size i) \<le> span_size out"
  defines "w1 \<equiv> w\<lparr>zstreams := (zstreams w)(brk w \<mapsto> st), brk := Suc (brk w), lib := L\<rparr>"
    and "ys \<equiv> enc (window_bits_for f) (sint (zlib_level_int lvl)) (span_bytes (mem w) i)"
  obtains p w2 where "zlib_squeezer_push E \<lparr>zsq_stream = brk w\<rparr> i out w1 = Inr (Inr p, w2)"
    "pg_done p" "unat (pg_out p) = length ys" "bytes_at (mem w2) (span_data out) (length ys) = ys"
    "length ys \<le> unat (span_size out)" "length ys < 2 ^ 32"
proof -
  obtain r st2 m2 L2 where c: "deflate (zlib E) (set_windows i out st) Z_FINISH (mem w1) (lib w1)
      = (r, st2, m2, L2)"
    by (metis prod_cases4)
  have u: "unat (to_uInt (span_size i)) = unat (span_size i)"
    "unat (to_uInt (span_size out)) = unat (span_size out)"
    using small by (simp_all add: unat_to_uInt_small)
  have k: "unat (compressBound (zlib E) (of_nat (unat (to_uInt (span_size i)))))
      \<le> unat (to_uInt (span_size out))"
    using order_trans [OF zlib_bound_ge room] u by (simp add: word_le_nat_alt)
  have a: "apart (span_data i) (unat (to_uInt (span_size i))) (span_data out)
      (unat (to_uInt (span_size out)))"
    and nn: "span_data out \<noteq> 0" "to_uInt (span_size i) = 0 \<or> span_data i \<noteq> 0"
    using valid u by (auto simp: spans_valid_def spans_apart_def spans_set_def to_uInt_def)
  have w1: "lib w1 = L" "mem w1 = mem w" "zstreams w1 (brk w) = Some st"
    by (simp_all add: w1_def)
  have r: "r = Z_STREAM_END"
    using fin [unfolded zlib_finishes_def, rule_format, OF init a nn, of "mem w"] c
    by (simp add: w1 set_windows_def)
  note e = enc [unfolded zlib_encodes_def, rule_format, OF init a k set_windows_def,
      of "mem w" st2 m2 L2]
  have ys: "given (set_windows i out st) st2 = length ys" "bytes_at m2 (span_data out) (length ys) = ys"
    using e c r u by (auto simp: w1 ys_def span_bytes_def)
  have "wf_world w1" using zinit_fresh(1) [OF zlib_contract_steps(5) [OF lawful] wf init]
    by (simp add: w1_def)
  then have "0 \<notin> dom (lib w1)" by (simp add: wf_world_def)
  note io = zlib_step_okD(1) [OF zlib_contract_steps(1) [OF lawful] this c]
  note n = zio_counts_64 [OF io]
  have run: "zlib_squeezer_push E \<lparr>zsq_stream = brk w\<rparr> i out w1 = Inr (Inr (mk_progress
      (of_nat (taken (set_windows i out st) st2)) (of_nat (given (set_windows i out st) st2)) True),
      w1\<lparr>mem := m2, lib := L2, zstreams := (zstreams w1)(brk w \<mapsto> st2)\<rparr>)"
    using zcall_run [where call = "deflate (zlib E)", OF w1(3) c] r n(1,2) by (simp add: zlib_squeezer_push_def)
  have "length ys \<le> unat (span_size out)"
    using zio_okD(2) [OF io] ys(1) u by simp
  with small(2) have "length ys < 2 ^ 32" by simp
  with run ys n(3) \<open>length ys \<le> unat (span_size out)\<close> show thesis
    by (intro that [OF run]) simp_all
qed

lemma reply_patched_bytes:
  assumes "unat (pg_out p) = length ys" "bytes_at (mem w) (span_data out) (length ys) = ys"
    "length ys \<le> unat (span_size out)"
  obtains m where "reply_patched f out (Inr p, w) = Inr (Inr \<lparr>bytes_written = pg_out p\<rparr>, w\<lparr>mem := m\<rparr>)"
    "bytes_at m (span_data out) (length ys) = gzip_unknown_os f ys"
proof (cases "f = Fmt_Gzip \<and> 10 \<le> length ys")
  case True
  then have "10 \<le> pg_out p" "9 < unat (span_size out)"
    using assms(1,3) by (simp_all add: word_le_nat_alt)
  with True assms show thesis
    by (intro that [of "(mem w)(span_data out + 9 := 0xff)"])
      (simp_all add: reply_patched_def span_store_def gzip_unknown_os_def bytes_at_upd)
next
  case False
  then have "\<not> (f = Fmt_Gzip \<and> 10 \<le> pg_out p)"
    using assms(1) by (simp add: word_le_nat_alt)
  with False assms show thesis
    by (intro that [of "mem w"]) (auto simp: reply_patched_def gzip_unknown_os_def)
qed

lemma zlib_squeeze_bytes:
  fixes E :: "(64, 'b) env" and w :: "(64, 'b, 'm) world_scheme"
  assumes lawful: "zlib_heap_contract (zlib E)" and wf: "wf_world w"
    and alloc: "allocations_succeed E w" and lvl: "level_in_range lvl"
    and enc: "zlib_encodes (zlib E) enc"
    and fin: "zlib_finishes (zlib E) (window_bits_for f) (sint (zlib_level_int lvl))
      (to_uInt (span_size i)) (to_uInt (span_size out))"
    and small: "unat (span_size i) < 2 ^ 32" "unat (span_size out) < 2 ^ 32"
    and valid: "spans_valid i out"
    and room: "zlib_bound E lvl (span_size i) \<le> span_size out"
  defines "ys \<equiv> enc (window_bits_for f) (sint (zlib_level_int lvl)) (span_bytes (mem w) i)"
  shows "\<exists>r w'. zlib_squeeze E f lvl i out w = Inr (Inr r, w') \<and>
    unat (bytes_written r) = length ys \<and> length ys < 2 ^ 32 \<and> length ys \<le> unat (span_size out) \<and>
    bytes_at (mem w') (span_data out) (length ys) = gzip_unknown_os f ys"
proof -
  obtain st L where init: "deflateInit2 (zlib E) zero_stream (sint (zlib_level_int lvl)) 8
      (window_bits_for f) 8 0 (lib w) = (Z_OK, st, L)"
    using allocations_succeedD(1) [OF alloc lvl] by blast
  note mk = zlib_squeezer_new_run [OF init]
  obtain p w2 where op: "zlib_squeezer_push E \<lparr>zsq_stream = brk w\<rparr> i out
      (w\<lparr>zstreams := (zstreams w)(brk w \<mapsto> st), brk := Suc (brk w), lib := L\<rparr>) = Inr (Inr p, w2)"
    and b: "unat (pg_out p) = length ys" "bytes_at (mem w2) (span_data out) (length ys) = ys"
      "length ys \<le> unat (span_size out)" "length ys < 2 ^ 32"
    unfolding ys_def
    by (rule zlib_fresh_push [OF lawful wf enc fin init small valid room])
  obtain m where af: "reply_patched f out (Inr p, w2)
      = Inr (Inr \<lparr>bytes_written = pg_out p\<rparr>, w2\<lparr>mem := m\<rparr>)"
    "bytes_at m (span_data out) (length ys) = gzip_unknown_os f ys"
    using b(1-3) by (rule reply_patched_bytes)
  have "\<exists>w'. zlib_squeeze E f lvl i out w = Inr (Inr \<lparr>bytes_written = pg_out p\<rparr>, w') \<and> mem w' = m"
    unfolding zlib_squeeze_def
    by (rule zlib_squeezer_once.one_call_value [where after = "reply_patched f out",
        OF lawful wf mk op af(1)]) simp
  with af(2) b show ?thesis by force
qed

section \<open>Restoring the data\<close>

lemma zlib_swell_bytes:
  fixes E :: "(64, 'b) env" and w :: "(64, 'b, 'm) world_scheme"
  assumes lawful: "zlib_heap_contract (zlib E)" and wf: "wf_world w"
    and alloc: "allocations_succeed E w" and dec: "zlib_decodes (zlib E) dec"
    and xs: "dec (window_bits_for f) (span_bytes (mem w) i) xs" "length xs \<le> unat (span_size out)"
    and small: "unat (span_size i) < 2 ^ 32" "unat (span_size out) < 2 ^ 32"
    and valid: "spans_valid i out"
  shows "\<exists>r w'. zlib_swell E f i out w = Inr (Inr r, w') \<and> unat (bytes_written r) = length xs \<and>
    bytes_at (mem w') (span_data out) (length xs) = xs"
proof -
  obtain st L where init: "inflateInit2 (zlib E) zero_stream (window_bits_for f) (lib w) = (Z_OK, st, L)"
    using allocations_succeedD(2) [OF alloc] by blast
  define w1 where "w1 = w\<lparr>zstreams := (zstreams w)(brk w \<mapsto> st), brk := Suc (brk w), lib := L\<rparr>"
  have mk: "zlib_sweller_new E f w = Inr (\<lparr>zsw_stream = brk w\<rparr>, w1)"
    unfolding w1_def by (rule zlib_sweller_new_run [OF init])
  have w1: "lib w1 = L" "mem w1 = mem w" "zstreams w1 (brk w) = Some st"
    by (simp_all add: w1_def)
  obtain r st2 m2 L2 where c: "inflate (zlib E) (set_windows i out st) Z_FINISH (mem w1) (lib w1)
      = (r, st2, m2, L2)"
    by (metis prod_cases4)
  have u: "unat (to_uInt (span_size i)) = unat (span_size i)"
    "unat (to_uInt (span_size out)) = unat (span_size out)"
    using small by (simp_all add: unat_to_uInt_small)
  have a: "apart (span_data i) (unat (to_uInt (span_size i))) (span_data out)
      (unat (to_uInt (span_size out)))"
    and nn: "span_data out \<noteq> 0" "to_uInt (span_size i) = 0 \<or> span_data i \<noteq> 0"
    using valid u by (auto simp: spans_valid_def spans_apart_def spans_set_def to_uInt_def)
  have d: "dec (window_bits_for f) (bytes_at (mem w) (span_data i) (unat (to_uInt (span_size i)))) xs"
    "length xs \<le> unat (to_uInt (span_size out))"
    using xs u by (simp_all add: span_bytes_def)
  have fin: "r = Z_STREAM_END" "avail_in st2 = 0" "given (set_windows i out st) st2 = length xs"
    "bytes_at m2 (span_data out) (length xs) = xs"
    using dec [unfolded zlib_decodes_def, rule_format, OF init a nn d set_windows_def, of r st2 m2 L2] c
    by (simp_all add: w1)
  have "wf_world w1" using zinit_fresh(1) [OF zlib_contract_steps(6) [OF lawful] wf init]
    by (simp add: w1_def)
  then have "0 \<notin> dom (lib w1)" by (simp add: wf_world_def)
  note io = zlib_step_okD(1) [OF zlib_contract_steps(2) [OF lawful] this c]
  note n = zio_counts_64 [OF io]
  have t: "of_nat (taken (set_windows i out st) st2) = span_size i"
    using fin(2) u by (simp add: taken_def)
  let ?p = "mk_progress (span_size i) (of_nat (length xs)) True"
  let ?w2 = "w1\<lparr>mem := m2, lib := L2, zstreams := (zstreams w1)(brk w \<mapsto> st2)\<rparr>"
  have op: "zlib_sweller_push E \<lparr>zsw_stream = brk w\<rparr> i out w1 = Inr (Inr ?p, ?w2)"
    using zcall_run [where call = "inflate (zlib E)", OF w1(3) c] fin n(1,2) t by (simp add: zlib_sweller_push_def)
  have af: "reply (Inr ?p, ?w2) = Inr (Inr \<lparr>bytes_written = of_nat (length xs)\<rparr>, ?w2\<lparr>mem := m2\<rparr>)"
    by (simp add: reply_def)
  have "\<exists>w'. zlib_swell E f i out w = Inr (Inr \<lparr>bytes_written = of_nat (length xs)\<rparr>, w') \<and> mem w' = m2"
    unfolding zlib_swell_def
    by (rule zlib_sweller_once.one_call_value [where after = reply, OF lawful wf mk op af]) simp
  moreover have "unat (of_nat (length xs) :: u64) = length xs" using n(3) fin(3) by simp
  ultimately show ?thesis using fin(4) by force
qed

section \<open>zstd\<close>

lemma zstd_bound_ge: "ZSTD_compressBound (zstd E) n \<le> zstd_bound E lvl n"
  by (simp add: zstd_bound_def Let_def)

lemma zstd_squeeze_bytes:
  assumes enc: "zstd_encodes (zstd E) enc"
    and apart: "apart (span_data i) (unat (span_size i)) (span_data out) (unat (span_size out))"
    and b: "\<not> ZSTD_isError (zstd E) (ZSTD_compressBound (zstd E) (span_size i))"
    and room: "zstd_bound E zlvl (span_size i) \<le> span_size out"
    and run: "zstd_squeeze E lvl i out w = Inr (Inr r, w')"
  defines "ys \<equiv> enc (zlib_level_int lvl) (span_bytes (mem w) i)"
  shows "unat (bytes_written r) = length ys \<and> bytes_at (mem w') (span_data out) (length ys) = ys"
proof -
  obtain h w1 w2 where mk: "zstd_squeezer_new E Fmt_Zstd (Zstd_Level (zlib_level_int lvl)) w
      = Inr (h, w1)"
    and bd: "chain (zstd_squeezer_push E h i out w1) reply = Inr (Inr r, w2)"
    and ds: "zstd_squeezer_delete E h w2 = Inr w'"
    using run unfolding zstd_squeeze_def by (rule scopedE)
  from mk have h: "mem w1 = mem w" "csq_level h = zlib_level_int lvl"
    by (auto simp: zstd_squeezer_new_def Let_def split: prod.splits if_splits)
  obtain q m where c: "ZSTD_compress (zstd E) (span_data out) (span_size out) (span_data i)
      (span_size i) (zlib_level_int lvl) (mem w) = (q, m)"
    by force
  from bd c have q: "\<not> ZSTD_isError (zstd E) q" "bytes_written r = q" "mem w2 = m"
    by (cases "ZSTD_isError (zstd E) q"; auto simp: zstd_squeezer_push_def reply_def h Let_def)+
  have "mem w' = mem w2"
    using ds by (auto simp: zstd_squeezer_delete_def chain_Inr_iff split: if_splits)
  with q enc [unfolded zstd_encodes_def, rule_format, OF apart
      order_trans [OF zstd_bound_ge room] b c q(1)]
  show "unat (bytes_written r) = length ys \<and> bytes_at (mem w') (span_data out) (length ys) = ys"
    by (auto simp: ys_def span_bytes_def)
qed

lemma zstd_squeeze_room:
  assumes "zstd_heap_contract (zstd E)" "zstd_squeeze E lvl i out w = Inr (Inr r, w')"
  shows "bytes_written r \<le> span_size out"
proof -
  obtain h w1 w2 where "zstd_squeezer_new E Fmt_Zstd (Zstd_Level (zlib_level_int lvl)) w = Inr (h, w1)"
    and bd: "chain (zstd_squeezer_push E h i out w1) reply = Inr (Inr r, w2)"
    using assms(2) unfolding zstd_squeeze_def by (rule scopedE)
  obtain q m where c: "ZSTD_compress (zstd E) (span_data out) (span_size out) (span_data i)
      (span_size i) (csq_level h) (mem w1) = (q, m)"
    by force
  from bd c have "\<not> ZSTD_isError (zstd E) q" "bytes_written r = q"
    by (cases "ZSTD_isError (zstd E) q"; auto simp: zstd_squeezer_push_def reply_def Let_def)+
  then show ?thesis using zstd_contract_steps(8) [OF assms(1) c] by simp
qed

lemma zstd_swell_bytes:
  assumes lawful: "zstd_heap_contract (zstd E)" and wf: "wf_world w"
    and alloc: "allocations_succeed E w" and dec: "zstd_decodes (zstd E) dec"
    and xs: "dec (span_bytes (mem w) i) xs" "length xs \<le> unat (span_size out)"
    and apart: "apart (span_data i) (unat (span_size i)) (span_data out) (unat (span_size out))"
  shows "\<exists>r w'. zstd_swell E i out w = Inr (Inr r, w') \<and> unat (bytes_written r) = length xs \<and>
    bytes_at (mem w') (span_data out) (length xs) = xs"
proof -
  obtain h w1 where mk: "zstd_sweller_new E Fmt_Zstd w = Inr (h, w1)"
    using handles_exist(4) [OF alloc] by blast
  then have w1: "mem w1 = mem w"
    by (auto simp: zstd_sweller_new_def split: prod.splits if_splits)
  obtain q m where c: "ZSTD_decompress (zstd E) (span_data out) (span_size out) (span_data i)
      (span_size i) (mem w) = (q, m)"
    by force
  have q: "\<not> ZSTD_isError (zstd E) q" "unat q = length xs" "bytes_at m (span_data out) (length xs) = xs"
    using dec [unfolded zstd_decodes_def, rule_format, OF apart xs(1) [unfolded span_bytes_def] xs(2) c]
    by simp_all
  have op: "zstd_sweller_push E h i out w1 = Inr (Inr (mk_progress (span_size i) q True), w1\<lparr>mem := m\<rparr>)"
    using c q(1) by (simp add: zstd_sweller_push_def w1)
  have af: "reply (Inr (mk_progress (span_size i) q True), w1\<lparr>mem := m\<rparr>)
      = Inr (Inr \<lparr>bytes_written = q\<rparr>, w1\<lparr>mem := m\<rparr>\<lparr>mem := m\<rparr>)"
    by (simp add: reply_def)
  have "\<exists>w'. zstd_swell E i out w = Inr (Inr \<lparr>bytes_written = q\<rparr>, w') \<and> mem w' = m"
    unfolding zstd_swell_def
    by (rule zstd_sweller_once.one_call_value [where after = reply, OF lawful wf mk op af]) simp
  then show ?thesis using q by force
qed

end
