(* ===== verification/Reference_Engine.thy ===== *)
theory Reference_Engine
  imports Backend_Contract
begin

text \<open>
  A small executable engine that keeps every documented law of \<open>Zlib_Api\<close> and \<open>Zstd_Api\<close>.
  It models no code of the repository: it shows that the laws can hold together, and it is
  the library the witnesses of the development run on. Its wire format puts the byte 1 before
  each data byte and ends with the byte 0; the gzip container puts a ten-byte header before that.
\<close>

section \<open>The wire format\<close>

fun tagged :: "u8 list \<Rightarrow> u8 list" where
  "tagged [] = []"
| "tagged (x # xs) = 1 # x # tagged xs"

text \<open>\<open>os\<close> is the platform's OS code, the tenth byte of a gzip header.\<close>

definition ref_header :: "u8 \<Rightarrow> int \<Rightarrow> u8 list" where
  "ref_header os wb = (if wb = 31 then [0x1f, 0x8b, 8, 0, 0, 0, 0, 0, 0, os] else [])"

definition ref_header_len :: "int \<Rightarrow> nat" where
  "ref_header_len wb = (if wb = 31 then 10 else 0)"

lemma length_ref_header [simp]: "length (ref_header os wb) = ref_header_len wb"
  by (simp add: ref_header_def ref_header_len_def)

definition ref_enc :: "u8 \<Rightarrow> int \<Rightarrow> int \<Rightarrow> u8 list \<Rightarrow> u8 list" where
  "ref_enc os wb lvl xs = ref_header os wb @ tagged xs @ [0]"

definition ref_dec :: "int \<Rightarrow> u8 list \<Rightarrow> u8 list \<Rightarrow> bool" where
  "ref_dec wb ys xs \<longleftrightarrow> ref_header_len wb \<le> length ys \<and>
     drop (ref_header_len wb) ys = tagged xs @ [0]"

datatype scan_mode = At_Tag | At_Byte | At_End | At_Fault

fun ref_scan :: "nat \<Rightarrow> scan_mode \<Rightarrow> u8 list \<Rightarrow> nat \<times> scan_mode \<times> u8 list \<times> u8 list" where
  "ref_scan n md [] = (n, md, [], [])"
| "ref_scan (Suc n) md (x # xs) = ref_scan n md xs"
| "ref_scan 0 At_Tag (x # xs) =
     (if x = 1 then ref_scan 0 At_Byte xs
      else if x = 0 then (0, At_End, [], xs) else (0, At_Fault, [], x # xs))"
| "ref_scan 0 At_Byte (x # xs) =
     (case ref_scan 0 At_Tag xs of (n, md, ys, rest) \<Rightarrow> (n, md, x # ys, rest))"
| "ref_scan 0 md xs = (0, md, [], xs)"

section \<open>The engine\<close>

datatype ref_state = Ref_Enc "u8 list" bool | Ref_Dec nat scan_mode "u8 list"

definition ref_fresh :: "(addr \<rightharpoonup> ref_state) \<Rightarrow> addr option" where
  "ref_fresh L = find (\<lambda>a. L a = None) [1..<64]"

definition ref_init ::
  "bool \<Rightarrow> ref_state \<Rightarrow> 'l::len z_stream \<Rightarrow> (addr \<rightharpoonup> ref_state)
    \<Rightarrow> zret \<times> 'l z_stream \<times> (addr \<rightharpoonup> ref_state)" where
  "ref_init valid s st L =
     (if \<not> valid then (Z_STREAM_ERROR, st, L)
      else case ref_fresh L of
        None \<Rightarrow> (Z_MEM_ERROR, st, L)
      | Some a \<Rightarrow> (Z_OK, st\<lparr>zstate := a, total_in := 0, total_out := 0\<rparr>, L(a \<mapsto> s)))"

definition ref_end ::
  "'l::len z_stream \<Rightarrow> (addr \<rightharpoonup> ref_state) \<Rightarrow> zret \<times> 'l z_stream \<times> (addr \<rightharpoonup> ref_state)" where
  "ref_end st L = (if L (zstate st) = None then Z_STREAM_ERROR else Z_OK,
     st\<lparr>zstate := 0\<rparr>, L(zstate st := None))"

definition ref_finish_call ::
  "zret \<Rightarrow> 'l::len z_stream \<Rightarrow> nat \<Rightarrow> u8 list \<Rightarrow> ref_state \<Rightarrow> memory \<Rightarrow> (addr \<rightharpoonup> ref_state)
    \<Rightarrow> zret \<times> 'l z_stream \<times> memory \<times> (addr \<rightharpoonup> ref_state)" where
  "ref_finish_call r st n ys s m L =
     (r, st\<lparr>next_in := next_in st + n, avail_in := avail_in st - of_nat n,
        total_in := total_in st + of_nat n,
        next_out := next_out st + length ys, avail_out := avail_out st - of_nat (length ys),
        total_out := total_out st + of_nat (length ys)\<rparr>,
      write_bytes m (next_out st) ys, L(zstate st \<mapsto> s))"

definition ref_deflate :: "('l::len, ref_state) zlib_step" where
  "ref_deflate st fl m L =
     (case L (zstate st) of
        Some (Ref_Enc pend fin) \<Rightarrow>
          let xs = bytes_at m (next_in st) (unat (avail_in st));
              pend1 = pend @ tagged xs @ (if fl = Z_FINISH \<and> \<not> fin then [0] else []);
              ys = take (unat (avail_out st)) pend1;
              rest = drop (unat (avail_out st)) pend1;
              r = (if fl = Z_FINISH \<and> rest = [] then Z_STREAM_END
                   else if fl \<noteq> Z_FINISH \<and> xs = [] \<and> ys = [] then Z_BUF_ERROR else Z_OK)
          in ref_finish_call r st (unat (avail_in st)) ys (Ref_Enc rest (fin \<or> fl = Z_FINISH)) m L
      | _ \<Rightarrow> (Z_STREAM_ERROR, st, m, L))"

definition ref_inflate :: "('l::len, ref_state) zlib_step" where
  "ref_inflate st fl m L =
     (case L (zstate st) of
        Some (Ref_Dec skip md pend) \<Rightarrow>
          let xs = bytes_at m (next_in st) (unat (avail_in st));
              (skip', md', new, left) = ref_scan skip md xs;
              pend1 = pend @ new;
              ys = take (unat (avail_out st)) pend1;
              rest = drop (unat (avail_out st)) pend1;
              r = (if md' = At_Fault then Z_DATA_ERROR
                   else if md' = At_End \<and> rest = [] then Z_STREAM_END
                   else if left = xs \<and> ys = [] then Z_BUF_ERROR else Z_OK)
          in ref_finish_call r st (length xs - length left) ys (Ref_Dec skip' md' rest) m L
      | _ \<Rightarrow> (Z_STREAM_ERROR, st, m, L))"

definition ref_zlib :: "u8 \<Rightarrow> ('l::len, ref_state) zlib_api" where
  "ref_zlib os = \<lparr>
     deflateInit2 = (\<lambda>st lvl meth wb ml strat.
       ref_init (-1 \<le> lvl \<and> lvl \<le> 9) (Ref_Enc (ref_header os wb) False) st),
     deflate = ref_deflate, deflateEnd = ref_end,
     inflateInit2 = (\<lambda>st wb. ref_init True (Ref_Dec (ref_header_len wb) At_Tag []) st),
     inflate = ref_inflate, inflateEnd = ref_end,
     compressBound = (\<lambda>n. 2 * n + 11)\<rparr>"

section \<open>The scan\<close>

lemma ref_scan_left: "ref_scan n md xs = (n', md', ys, left) \<Longrightarrow> length left \<le> length xs"
  by (induction n md xs arbitrary: n' md' ys left rule: ref_scan.induct)
    (force split: if_splits prod.splits)+

lemma ref_scan_rest:
  "ref_scan n md xs = (n', md', ys, left) \<Longrightarrow> md' \<noteq> At_End \<Longrightarrow> md' \<noteq> At_Fault \<Longrightarrow> left = []"
  by (induction n md xs arbitrary: n' md' ys left rule: ref_scan.induct)
    (force split: if_splits prod.splits)+

lemma ref_scan_skip: "n \<le> length ys \<Longrightarrow> ref_scan n md ys = ref_scan 0 md (drop n ys)"
proof (induction n arbitrary: ys)
  case 0
  then show ?case by simp
next
  case (Suc n)
  then show ?case by (cases ys) simp_all
qed

lemma ref_scan_tagged: "ref_scan 0 At_Tag (tagged xs @ 0 # zs) = (0, At_End, xs, zs)"
  by (induction xs) simp_all

lemma length_tagged: "length (tagged xs) = 2 * length xs"
  by (induction xs) simp_all

section \<open>The engine keeps zlib's laws\<close>

lemma ref_fresh_Some: "ref_fresh L = Some a \<Longrightarrow> a \<noteq> 0 \<and> a \<notin> dom L"
  by (auto simp: ref_fresh_def find_Some_iff)

lemma ref_init_ok: "zlib_init_ok (ref_init v s)"
  by (auto simp: zlib_init_ok_def ref_init_def dest!: ref_fresh_Some split: if_splits option.splits)

lemma ref_end_ok: "zlib_end_ok ref_end"
  by (auto simp: zlib_end_ok_def ref_end_def)

lemma ref_finish_call_ok:
  assumes "ref_finish_call r st n ys s m L = (r', st', m', L')"
    and "n \<le> unat (avail_in st)" "length ys \<le> unat (avail_out st)" "L (zstate st) \<noteq> None"
  shows "zio_ok st m st' m'" "only_object (zstate st) L L'" "r' = r"
    "taken st st' = n" "given st st' = length ys"
    "bytes_at m' (next_out st) (length ys) = ys"
proof -
  have st': "st' = st\<lparr>next_in := next_in st + n, avail_in := avail_in st - of_nat n,
        total_in := total_in st + of_nat n,
        next_out := next_out st + length ys, avail_out := avail_out st - of_nat (length ys),
        total_out := total_out st + of_nat (length ys)\<rparr>"
    and m': "m' = write_bytes m (next_out st) ys" and L': "L' = L(zstate st \<mapsto> s)" and "r' = r"
    using assms(1) by (auto simp: ref_finish_call_def)
  have n: "of_nat n \<le> avail_in st" "unat (of_nat n :: u32) = n"
    using assms(2) unat_u32_less [of "avail_in st"]
    by (simp_all add: word_le_nat_alt le_unat_uoi)
  have k: "of_nat (length ys) \<le> avail_out st" "unat (of_nat (length ys) :: u32) = length ys"
    using assms(3) unat_u32_less [of "avail_out st"]
    by (simp_all add: word_le_nat_alt le_unat_uoi)
  show t: "taken st st' = n" "given st st' = length ys"
    using n k assms(2,3) by (simp_all add: taken_def given_def st' unat_sub)
  show "zio_ok st m st' m'"
    unfolding zio_ok_def t using n k
    by (simp add: st' m' same_outside_write word_le_nat_alt unat_sub)
  show "only_object (zstate st) L L'" using assms(4) by (auto simp: only_object_def L')
  show "r' = r" by fact
  show "bytes_at m' (next_out st) (length ys) = ys" by (simp add: m')
qed

lemma zio_ok_refl: "zio_ok st m st m"
  by (simp add: zio_ok_def taken_def given_def)

lemma ref_deflate_call:
  assumes "ref_deflate st fl m L = (r, st', m', L')" "L (zstate st) = Some (Ref_Enc pend fin)"
  defines "pend1 \<equiv> pend @ tagged (bytes_at m (next_in st) (unat (avail_in st))) @
      (if fl = Z_FINISH \<and> \<not> fin then [0] else [])"
  shows "zio_ok st m st' m'" "only_object (zstate st) L L'"
    "taken st st' = unat (avail_in st)"
    "given st st' = min (length pend1) (unat (avail_out st))"
    "bytes_at m' (next_out st) (given st st') = take (unat (avail_out st)) pend1"
    "fl = Z_FINISH \<Longrightarrow>
      r = (if length pend1 \<le> unat (avail_out st) then Z_STREAM_END else Z_OK)"
    "fl \<noteq> Z_FINISH \<Longrightarrow> r = Z_OK \<or> r = Z_BUF_ERROR"
proof -
  let ?ys = "take (unat (avail_out st)) pend1"
  let ?rest = "drop (unat (avail_out st)) pend1"
  define r0 where "r0 = (if fl = Z_FINISH \<and> ?rest = [] then Z_STREAM_END
      else if fl \<noteq> Z_FINISH \<and> bytes_at m (next_in st) (unat (avail_in st)) = [] \<and> ?ys = []
      then Z_BUF_ERROR else Z_OK)"
  have c: "ref_finish_call r0 st (unat (avail_in st)) ?ys (Ref_Enc ?rest (fin \<or> fl = Z_FINISH)) m L
      = (r, st', m', L')"
    using assms(1) unfolding r0_def pend1_def ref_deflate_def assms(2)
    by (simp only: Let_def option.case ref_state.case)
  note f = ref_finish_call_ok [OF c]
  show "zio_ok st m st' m'" "only_object (zstate st) L L'"
    "taken st st' = unat (avail_in st)"
    "given st st' = min (length pend1) (unat (avail_out st))"
    "bytes_at m' (next_out st) (given st st') = ?ys"
    using f assms(2) by simp_all
  show "fl = Z_FINISH \<Longrightarrow> r = (if length pend1 \<le> unat (avail_out st) then Z_STREAM_END else Z_OK)"
    "fl \<noteq> Z_FINISH \<Longrightarrow> r = Z_OK \<or> r = Z_BUF_ERROR"
    using f(3) assms(2) by (simp_all add: r0_def)
qed

lemma ref_inflate_call:
  assumes "ref_inflate st fl m L = (r, st', m', L')" "L (zstate st) = Some (Ref_Dec skip md pend)"
    and sc: "ref_scan skip md (bytes_at m (next_in st) (unat (avail_in st)))
      = (skip', md', new, left)"
  shows "zio_ok st m st' m'" "only_object (zstate st) L L'"
    "taken st st' = unat (avail_in st) - length left"
    "given st st' = min (length (pend @ new)) (unat (avail_out st))"
    "bytes_at m' (next_out st) (given st st') = take (unat (avail_out st)) (pend @ new)"
    "r = Z_OK \<or> r = Z_BUF_ERROR \<longleftrightarrow> md' \<noteq> At_Fault \<and>
      \<not> (md' = At_End \<and> length (pend @ new) \<le> unat (avail_out st))"
    "r = Z_STREAM_END \<longleftrightarrow> md' = At_End \<and> length (pend @ new) \<le> unat (avail_out st)"
proof -
  let ?ys = "take (unat (avail_out st)) (pend @ new)"
  let ?rest = "drop (unat (avail_out st)) (pend @ new)"
  define r0 where "r0 = (if md' = At_Fault then Z_DATA_ERROR
      else if md' = At_End \<and> ?rest = [] then Z_STREAM_END
      else if left = bytes_at m (next_in st) (unat (avail_in st)) \<and> ?ys = []
      then Z_BUF_ERROR else Z_OK)"
  have c: "ref_finish_call r0 st (unat (avail_in st) - length left) ?ys (Ref_Dec skip' md' ?rest) m L
      = (r, st', m', L')"
    using assms(1) unfolding r0_def ref_inflate_def assms(2)
    by (simp only: Let_def option.case ref_state.case sc prod.case length_bytes_at)
  note f = ref_finish_call_ok [OF c]
  show "zio_ok st m st' m'" "only_object (zstate st) L L'"
    "taken st st' = unat (avail_in st) - length left"
    "given st st' = min (length (pend @ new)) (unat (avail_out st))"
    "bytes_at m' (next_out st) (given st st') = ?ys"
    using f assms(2) by simp_all
  have r: "r = r0" using f(3) assms(2) by simp
  show "r = Z_OK \<or> r = Z_BUF_ERROR \<longleftrightarrow> md' \<noteq> At_Fault \<and>
      \<not> (md' = At_End \<and> length (pend @ new) \<le> unat (avail_out st))"
    "r = Z_STREAM_END \<longleftrightarrow> md' = At_End \<and> length (pend @ new) \<le> unat (avail_out st)"
    unfolding r r0_def by auto
qed

lemma ref_deflate_other:
  assumes "\<And>pend fin. L (zstate st) \<noteq> Some (Ref_Enc pend fin)"
  shows "ref_deflate st fl m L = (Z_STREAM_ERROR, st, m, L)"
  using assms by (auto simp: ref_deflate_def split: option.splits ref_state.splits)

lemma ref_inflate_other:
  assumes "\<And>skip md pend. L (zstate st) \<noteq> Some (Ref_Dec skip md pend)"
  shows "ref_inflate st fl m L = (Z_STREAM_ERROR, st, m, L)"
  using assms by (auto simp: ref_inflate_def split: option.splits ref_state.splits)

lemma ref_deflate_ok: "zlib_step_ok ref_deflate"
  unfolding zlib_step_ok_def
proof (intro allI impI)
  fix st fl m L r st' m' L'
  assume c: "ref_deflate st fl m L = (r, st', m', L')"
  show "zio_ok st m st' m' \<and> only_object (zstate st) L L'"
  proof (cases "\<exists>pend fin. L (zstate st) = Some (Ref_Enc pend fin)")
    case True
    then show ?thesis using ref_deflate_call(1,2) [OF c] by blast
  next
    case False
    with ref_deflate_other have "ref_deflate st fl m L = (Z_STREAM_ERROR, st, m, L)" by blast
    then have "st' = st \<and> m' = m \<and> L' = L" using c by (simp only: prod.inject)
    then show ?thesis by (simp only: zio_ok_refl only_object_refl)
  qed
qed

lemma ref_inflate_ok: "zlib_step_ok ref_inflate"
  unfolding zlib_step_ok_def
proof (intro allI impI)
  fix st fl m L r st' m' L'
  assume c: "ref_inflate st fl m L = (r, st', m', L')"
  show "zio_ok st m st' m' \<and> only_object (zstate st) L L'"
  proof (cases "\<exists>skip md pend. L (zstate st) = Some (Ref_Dec skip md pend)")
    case True
    then obtain skip md pend where s: "L (zstate st) = Some (Ref_Dec skip md pend)" by blast
    obtain a b e d where "ref_scan skip md (bytes_at m (next_in st) (unat (avail_in st))) = (a, b, e, d)"
      by (metis prod_cases4)
    from ref_inflate_call(1,2) [OF c s this] show ?thesis by blast
  next
    case False
    with ref_inflate_other have "ref_inflate st fl m L = (Z_STREAM_ERROR, st, m, L)" by blast
    then have "st' = st \<and> m' = m \<and> L' = L" using c by (simp only: prod.inject)
    then show ?thesis by (simp only: zio_ok_refl only_object_refl)
  qed
qed

lemma ref_zlib_sel [simp]:
  "deflate (ref_zlib os) = ref_deflate" "inflate (ref_zlib os) = ref_inflate"
  "deflateEnd (ref_zlib os) = ref_end" "inflateEnd (ref_zlib os) = ref_end"
  "deflateInit2 (ref_zlib os) st lvl meth wb ml strat
    = ref_init (-1 \<le> lvl \<and> lvl \<le> 9) (Ref_Enc (ref_header os wb) False) st"
  "inflateInit2 (ref_zlib os) st wb = ref_init True (Ref_Dec (ref_header_len wb) At_Tag []) st"
  "compressBound (ref_zlib os) n = 2 * n + 11"
  by (simp_all add: ref_zlib_def)

lemma ref_zlib_heap: "zlib_heap_contract (ref_zlib os)"
  by (simp add: zlib_heap_contract_def ref_init_ok ref_deflate_ok ref_inflate_ok ref_end_ok)

lemma taken_all: "taken st st' = unat (avail_in st) \<Longrightarrow> zio_ok st m st' m' \<Longrightarrow> avail_in st' = 0"
  by (auto simp: taken_def zio_ok_def word_le_nat_alt unat_eq_zero [symmetric])

lemma given_all: "given st st' = unat (avail_out st) \<Longrightarrow> zio_ok st m st' m' \<Longrightarrow> avail_out st' = 0"
  by (auto simp: given_def zio_ok_def word_le_nat_alt unat_eq_zero [symmetric])

lemma ref_zlib_codes: "zlib_code_contract (ref_zlib os)"
  unfolding zlib_code_contract_def ref_zlib_sel
proof (intro conjI allI)
  fix st fl m L r st' m' L'
  show "ref_deflate st fl m L = (r, st', m', L') \<longrightarrow>
     (r = Z_STREAM_END \<longrightarrow> fl = Z_FINISH \<and> avail_in st' = 0) \<and>
     (r = Z_OK \<or> r = Z_BUF_ERROR \<longrightarrow> avail_in st' = 0 \<or> avail_out st' = 0) \<and>
     (r = Z_OK \<and> fl = Z_FINISH \<longrightarrow> avail_out st' = 0)"
  proof
    assume c: "ref_deflate st fl m L = (r, st', m', L')"
    show "(r = Z_STREAM_END \<longrightarrow> fl = Z_FINISH \<and> avail_in st' = 0) \<and>
     (r = Z_OK \<or> r = Z_BUF_ERROR \<longrightarrow> avail_in st' = 0 \<or> avail_out st' = 0) \<and>
     (r = Z_OK \<and> fl = Z_FINISH \<longrightarrow> avail_out st' = 0)"
    proof (cases "\<exists>pend fin. L (zstate st) = Some (Ref_Enc pend fin)")
      case True
      then obtain pend fin where s: "L (zstate st) = Some (Ref_Enc pend fin)" by blast
      note f = ref_deflate_call [OF c s]
      have ai: "avail_in st' = 0" by (rule taken_all [OF f(3) f(1)])
      show ?thesis
      proof (cases "fl = Z_FINISH")
        case True
        then have "r = Z_OK \<longrightarrow> given st st' = unat (avail_out st)"
          using f(4,6) by (auto split: if_splits)
        with True ai given_all [OF _ f(1)] show ?thesis by blast
      next
        case False
        with f(7) ai show ?thesis by auto
      qed
    next
      case False
      with ref_deflate_other have "ref_deflate st fl m L = (Z_STREAM_ERROR, st, m, L)" by blast
      then have "r = Z_STREAM_ERROR" using c by (simp only: prod.inject)
      then show ?thesis by simp
    qed
  qed
next
  fix st fl m L r st' m' L'
  show "ref_inflate st fl m L = (r, st', m', L') \<longrightarrow>
     (r = Z_OK \<or> r = Z_BUF_ERROR \<longrightarrow> avail_in st' = 0 \<or> avail_out st' = 0)"
  proof (intro impI)
    assume c: "ref_inflate st fl m L = (r, st', m', L')" and r: "r = Z_OK \<or> r = Z_BUF_ERROR"
    have "\<exists>skip md pend. L (zstate st) = Some (Ref_Dec skip md pend)"
    proof (rule ccontr)
      assume "\<not> ?thesis"
      with ref_inflate_other have "ref_inflate st fl m L = (Z_STREAM_ERROR, st, m, L)" by blast
      then show False using c r by simp
    qed
    then obtain skip md pend where s: "L (zstate st) = Some (Ref_Dec skip md pend)" by blast
    obtain n' md' new left where
      sc: "ref_scan skip md (bytes_at m (next_in st) (unat (avail_in st))) = (n', md', new, left)"
      by (metis prod_cases4)
    note f = ref_inflate_call [OF c s sc]
    from r f(6) consider "md' \<noteq> At_End" "md' \<noteq> At_Fault"
      | "unat (avail_out st) < length (pend @ new)" by fastforce
    then show "avail_in st' = 0 \<or> avail_out st' = 0"
    proof cases
      case 1
      then have "left = []" using ref_scan_rest [OF sc] by blast
      then show ?thesis using taken_all [OF _ f(1)] f(3) by simp
    next
      case 2
      then show ?thesis using given_all [OF _ f(1)] f(4) by simp
    qed
  qed
qed

lemma ref_init_state:
  "ref_init v s zero_stream L0 = (Z_OK, st, L) \<Longrightarrow> L (zstate st) = Some s \<and> v"
  by (auto simp: ref_init_def split: if_splits option.splits)

lemma length_ref_enc: "length (ref_enc os wb lvl xs) = ref_header_len wb + 2 * length xs + 1"
  by (simp add: ref_enc_def length_tagged)

lemma ref_encodes: "zlib_encodes (ref_zlib os) (ref_enc os)"
  unfolding zlib_encodes_def ref_zlib_sel
proof (intro allI impI)
  fix lvl wb :: int and L0 st L a b m st1 st2 m2 L2 and n k :: u32
  assume i: "ref_init (-1 \<le> lvl \<and> lvl \<le> 9) (Ref_Enc (ref_header os wb) False) zero_stream L0 = (Z_OK, st, L)"
    and st1: "st1 = st\<lparr>next_in := a, avail_in := n, next_out := b, avail_out := k\<rparr>"
    and c: "ref_deflate st1 Z_FINISH m L = (Z_STREAM_END, st2, m2, L2)"
  have s: "L (zstate st1) = Some (Ref_Enc (ref_header os wb) False)"
    using ref_init_state [OF i] by (simp add: st1)
  note f = ref_deflate_call [OF c s]
  have "length (ref_enc os wb lvl (bytes_at m a (unat n))) \<le> unat k"
    using f(6) by (simp add: st1 ref_enc_def split: if_splits)
  then show "given st1 st2 = length (ref_enc os wb lvl (bytes_at m a (unat n))) \<and>
      bytes_at m2 b (given st1 st2) = ref_enc os wb lvl (bytes_at m a (unat n))"
    using f(4,5) by (simp add: st1 ref_enc_def)
qed

lemma ref_finishes:
  assumes "ref_header_len wb + 2 * unat n + 1 \<le> unat k"
  shows "zlib_finishes (ref_zlib os :: (64, ref_state) zlib_api) wb lvl n k"
  unfolding zlib_finishes_def ref_zlib_sel
proof (intro allI impI)
  fix L0 L a b m and st :: "64 z_stream"
  assume i: "ref_init (-1 \<le> lvl \<and> lvl \<le> 9) (Ref_Enc (ref_header os wb) False) zero_stream L0 = (Z_OK, st, L)"
  let ?st = "st\<lparr>next_in := a, avail_in := n, next_out := b, avail_out := k\<rparr>"
  obtain r st' m' L' where c: "ref_deflate ?st Z_FINISH m L = (r, st', m', L')"
    by (metis prod_cases4)
  have s: "L (zstate ?st) = Some (Ref_Enc (ref_header os wb) False)"
    using ref_init_state [OF i] by simp
  have "length (ref_header os wb @ tagged (bytes_at m a (unat n)) @ [0]) \<le> unat k"
    using assms by (simp add: length_tagged)
  then show "fst (ref_deflate ?st Z_FINISH m L) = Z_STREAM_END"
    using ref_deflate_call(6) [OF c s] c by simp
qed

definition ref_deflate_size :: "int \<Rightarrow> int \<Rightarrow> nat \<Rightarrow> nat" where
  "ref_deflate_size wb lvl n = ref_header_len wb + 2 * n + 1"

lemma ref_deflate_bound: "zlib_deflate_bound (ref_zlib os :: (64, ref_state) zlib_api) ref_deflate_size"
  by (simp add: zlib_deflate_bound_def ref_deflate_size_def ref_finishes)

lemma ref_bound_covers: "zlib_bound_covers (ref_zlib os :: (64, ref_state) zlib_api)"
  unfolding zlib_bound_covers_def ref_zlib_sel
proof (intro allI impI)
  fix lvl :: int and n k :: u32
  assume k: "unat (2 * of_nat (unat n) + 11 :: u64) \<le> unat k"
  have u: "unat (of_nat (unat n) :: u64) = unat n"
    using unat_u32_less [of n] by (intro u64_of_nat_small) simp
  have "unat (2 * of_nat (unat n) + 11 :: u64) = (2 * unat n + 11) mod 2 ^ 64"
    unfolding unat_word_ariths u by (simp add: mod_simps)
  also have "\<dots> = 2 * unat n + 11"
    using unat_u32_less [of n] by (intro mod_less) simp
  finally show "zlib_finishes (ref_zlib os :: (64, ref_state) zlib_api) 15 lvl n k"
    using k by (intro ref_finishes) (simp add: ref_header_len_def)
qed

lemma ref_decodes: "zlib_decodes (ref_zlib os) ref_dec"
  unfolding zlib_decodes_def ref_zlib_sel
proof (intro allI impI)
  fix wb :: int and L0 st L a b m xs st1 r st2 m2 L2 and n k :: u32
  assume i: "ref_init True (Ref_Dec (ref_header_len wb) At_Tag []) zero_stream L0 = (Z_OK, st, L)"
    and d: "ref_dec wb (bytes_at m a (unat n)) xs" and k: "length xs \<le> unat k"
    and st1: "st1 = st\<lparr>next_in := a, avail_in := n, next_out := b, avail_out := k\<rparr>"
    and c: "ref_inflate st1 Z_FINISH m L = (r, st2, m2, L2)"
  have s: "L (zstate st1) = Some (Ref_Dec (ref_header_len wb) At_Tag [])"
    using ref_init_state [OF i] by (simp add: st1)
  have le: "ref_header_len wb \<le> length (bytes_at m a (unat n))"
    and dr: "drop (ref_header_len wb) (bytes_at m a (unat n)) = tagged xs @ [0]"
    using d unfolding ref_dec_def by blast+
  have "ref_scan (ref_header_len wb) At_Tag (bytes_at m a (unat n)) = (0, At_End, xs, [])"
    unfolding ref_scan_skip [OF le] dr by (rule ref_scan_tagged)
  then have sc: "ref_scan (ref_header_len wb) At_Tag
      (bytes_at m (next_in st1) (unat (avail_in st1))) = (0, At_End, xs, [])"
    by (simp add: st1)
  note f = ref_inflate_call [OF c s sc]
  show "r = Z_STREAM_END \<and> avail_in st2 = 0 \<and> given st1 st2 = length xs \<and>
      bytes_at m2 b (length xs) = xs"
    using f k taken_all [OF _ f(1)] by (simp add: st1)
qed

lemma ref_dec_enc: "ref_dec wb (ref_enc os wb lvl xs) xs"
  by (simp add: ref_dec_def ref_enc_def)

lemma ref_dec_os_byte: "ref_dec 31 ys xs \<Longrightarrow> ref_dec 31 (ys[9 := v]) xs"
  by (simp add: ref_dec_def ref_header_len_def drop_update_cancel)

lemma ref_formats_agree: "zlib_formats_agree (ref_enc os) ref_dec"
  unfolding zlib_formats_agree_def using ref_dec_enc ref_dec_os_byte by blast

section \<open>A zstd library over the same wire format\<close>

definition ref_is_error :: "u64 \<Rightarrow> bool" where
  "ref_is_error r \<longleftrightarrow> r > -120"

definition ref_create :: "ref_state \<Rightarrow> (addr \<rightharpoonup> ref_state) \<Rightarrow> addr \<times> (addr \<rightharpoonup> ref_state)" where
  "ref_create s L = (case ref_fresh L of None \<Rightarrow> (0, L) | Some a \<Rightarrow> (a, L(a \<mapsto> s)))"

definition ref_compress ::
  "addr \<Rightarrow> u64 \<Rightarrow> addr \<Rightarrow> u64 \<Rightarrow> c_int \<Rightarrow> memory \<Rightarrow> u64 \<times> memory" where
  "ref_compress d cap s n lvl m =
     (let ys = ref_enc 0 0 (sint lvl) (bytes_at m s (unat n))
      in if length ys \<le> unat cap then (of_nat (length ys), write_bytes m d ys) else (-70, m))"

definition ref_decompress :: "addr \<Rightarrow> u64 \<Rightarrow> addr \<Rightarrow> u64 \<Rightarrow> memory \<Rightarrow> u64 \<times> memory" where
  "ref_decompress d cap s n m =
     (case ref_scan 0 At_Tag (bytes_at m s (unat n)) of (_, md, xs, left) \<Rightarrow>
        if md \<noteq> At_End \<or> left \<noteq> [] then (-20, m)
        else if length xs \<le> unat cap then (of_nat (length xs), write_bytes m d xs)
        else (-70, m))"

definition ref_buffers ::
  "out_buffer \<Rightarrow> in_buffer \<Rightarrow> memory \<Rightarrow> u8 list \<times> nat" where
  "ref_buffers ob ib m =
     (bytes_at m (ib_src ib + unat (ib_pos ib)) (unat (ib_size ib) - unat (ib_pos ib)),
      unat (ob_size ob) - unat (ob_pos ob))"

definition ref_advance ::
  "u64 \<Rightarrow> addr \<Rightarrow> out_buffer \<Rightarrow> in_buffer \<Rightarrow> nat \<Rightarrow> u8 list \<Rightarrow> ref_state \<Rightarrow> memory
    \<Rightarrow> (addr \<rightharpoonup> ref_state) \<Rightarrow> u64 \<times> out_buffer \<times> in_buffer \<times> memory \<times> (addr \<rightharpoonup> ref_state)" where
  "ref_advance r a ob ib n ys s m L =
     (r, ob\<lparr>ob_pos := ob_pos ob + of_nat (length ys)\<rparr>, ib\<lparr>ib_pos := ib_pos ib + of_nat n\<rparr>,
      write_bytes m (ob_dst ob + unat (ob_pos ob)) ys, L(a \<mapsto> s))"

definition ref_compress_stream :: "zstd_end_op \<Rightarrow> ref_state zstd_step" where
  "ref_compress_stream e a ob ib m L =
     (case L a of
        Some (Ref_Enc pend fin) \<Rightarrow>
          let (xs, room) = ref_buffers ob ib m;
              pend1 = pend @ tagged xs @ (if e = ZSTD_e_end \<and> \<not> fin then [0] else []);
              rest = drop room pend1
          in ref_advance (if rest = [] then 0 else 1) a ob ib (length xs) (take room pend1)
               (Ref_Enc rest (e = ZSTD_e_end \<and> rest \<noteq> [])) m L
      | _ \<Rightarrow> (-1, ob, ib, m, L))"

definition ref_decompress_stream :: "ref_state zstd_step" where
  "ref_decompress_stream a ob ib m L =
     (case L a of
        Some (Ref_Dec skip md pend) \<Rightarrow>
          let (xs, room) = ref_buffers ob ib m;
              (skip', md', new, left) = ref_scan skip md xs;
              pend1 = pend @ new;
              rest = drop room pend1;
              ended = (md' = At_End \<and> rest = [])
          in ref_advance (if md' = At_Fault then -20 else if ended then 0 else 1) a ob ib
               (length xs - length left) (take room pend1)
               (Ref_Dec skip' (if ended then At_Tag else md') rest) m L
      | _ \<Rightarrow> (-1, ob, ib, m, L))"

definition ref_zstd :: "ref_state zstd_api" where
  "ref_zstd = \<lparr>
     ZSTD_createCCtx = ref_create (Ref_Enc [] False),
     ZSTD_freeCCtx = (\<lambda>a L. L(a := None)),
     ZSTD_CCtx_setParameter = (\<lambda>a p v L. (0, L)),
     ZSTD_compress = ref_compress,
     ZSTD_compressStream2 = ref_compress_stream,
     ZSTD_createDCtx = ref_create (Ref_Dec 0 At_Tag []),
     ZSTD_freeDCtx = (\<lambda>a L. L(a := None)),
     ZSTD_decompress = ref_decompress,
     ZSTD_decompressStream = ref_decompress_stream,
     ZSTD_isError = ref_is_error,
     ZSTD_getErrorName = (\<lambda>r. ''reference error''),
     ZSTD_compressBound = (\<lambda>n. 2 * n + 1)\<rparr>"

lemma ref_zstd_sel [simp]:
  "ZSTD_createCCtx ref_zstd = ref_create (Ref_Enc [] False)"
  "ZSTD_freeCCtx ref_zstd a L = L(a := None)"
  "ZSTD_CCtx_setParameter ref_zstd a p v L = (0, L)"
  "ZSTD_compress ref_zstd = ref_compress"
  "ZSTD_compressStream2 ref_zstd = ref_compress_stream"
  "ZSTD_createDCtx ref_zstd = ref_create (Ref_Dec 0 At_Tag [])"
  "ZSTD_freeDCtx ref_zstd a L = L(a := None)"
  "ZSTD_decompress ref_zstd = ref_decompress"
  "ZSTD_decompressStream ref_zstd = ref_decompress_stream"
  "ZSTD_isError ref_zstd = ref_is_error"
  "ZSTD_getErrorName ref_zstd r = ''reference error''"
  "ZSTD_compressBound ref_zstd n = 2 * n + 1"
  by (simp_all add: ref_zstd_def)

lemma ref_create_ok: "zstd_create_ok (ref_create s)"
  by (auto simp: zstd_create_ok_def ref_create_def dest!: ref_fresh_Some split: option.splits)

lemma ref_advance_ok:
  assumes c: "ref_advance r a ob ib n ys s m L = (r', ob', ib', m', L')"
    and "ob_pos ob \<le> ob_size ob" "ib_pos ib \<le> ib_size ib"
    and n: "n \<le> unat (ib_size ib) - unat (ib_pos ib)"
    and k: "length ys \<le> unat (ob_size ob) - unat (ob_pos ob)" and "L a \<noteq> None"
  shows "zstd_io_ok ob ib m ob' ib' m'" "dom L' = dom L" "\<forall>x. x \<noteq> a \<longrightarrow> L' x = L x" "r' = r"
    "unat (ob_pos ob') = unat (ob_pos ob) + length ys" "ob_size ob' = ob_size ob"
proof -
  have e: "ob' = ob\<lparr>ob_pos := ob_pos ob + of_nat (length ys)\<rparr>"
    "ib' = ib\<lparr>ib_pos := ib_pos ib + of_nat n\<rparr>"
    "m' = write_bytes m (ob_dst ob + unat (ob_pos ob)) ys" "L' = L(a \<mapsto> s)" "r' = r"
    using c by (auto simp: ref_advance_def)
  have le: "unat (ob_pos ob) \<le> unat (ob_size ob)" "unat (ib_pos ib) \<le> unat (ib_size ib)"
    using assms(2,3) by (simp_all add: word_le_nat_alt)
  have lt: "unat (ob_size ob) < 2 ^ 64" "unat (ib_size ib) < 2 ^ 64"
    using unsigned_less [of "ob_size ob"] unsigned_less [of "ib_size ib"] by simp_all
  have p: "unat (ob_pos ob + of_nat (length ys)) = unat (ob_pos ob) + length ys"
    "unat (ib_pos ib + of_nat n) = unat (ib_pos ib) + n"
    using le lt n k by (simp_all add: unat_word_ariths unat_of_nat take_bit_nat_eq_self)
  have d: "unat (of_nat (length ys) :: u64) = length ys"
    using le lt k by (simp add: unat_of_nat take_bit_nat_eq_self)
  have "unat (ob_pos ob) + length ys \<le> unat (ob_size ob)"
    "unat (ib_pos ib) + n \<le> unat (ib_size ib)"
    using le n k by linarith+
  then show "zstd_io_ok ob ib m ob' ib' m'"
    using p d by (simp add: zstd_io_ok_def e word_le_nat_alt same_outside_write)
  show "dom L' = dom L" "\<forall>x. x \<noteq> a \<longrightarrow> L' x = L x" "r' = r"
    "unat (ob_pos ob') = unat (ob_pos ob) + length ys" "ob_size ob' = ob_size ob"
    using assms(6) p by (auto simp: e)
qed

lemma ref_compress_ok:
  assumes "ref_compress d cap s n v m = (r, m')"
  shows "r > -120 \<or> r \<le> cap" "same_outside m m' d (unat cap)"
  using assms by (auto simp: ref_compress_def Let_def word_le_nat_alt le_unat_uoi same_outside_write
      split: if_splits)

lemma ref_decompress_ok:
  assumes "ref_decompress d cap s n m = (r, m')"
  shows "r > -120 \<or> r \<le> cap" "same_outside m m' d (unat cap)"
  using assms by (auto simp: ref_decompress_def Let_def word_le_nat_alt le_unat_uoi same_outside_write
      split: if_splits prod.splits)

lemma zstd_io_ok_refl:
  "ob_pos ob \<le> ob_size ob \<Longrightarrow> ib_pos ib \<le> ib_size ib \<Longrightarrow> zstd_io_ok ob ib m ob ib m"
  by (simp add: zstd_io_ok_def)

lemma ref_compress_stream_call:
  assumes "ref_compress_stream e a ob ib m L = (r, ob', ib', m', L')"
    and p: "ob_pos ob \<le> ob_size ob" "ib_pos ib \<le> ib_size ib"
  shows "zstd_io_ok ob ib m ob' ib' m' \<and> dom L' = dom L \<and> (\<forall>x. x \<noteq> a \<longrightarrow> L' x = L x) \<and>
    (r = 0 \<or> r = -1 \<or> ob_pos ob' = ob_size ob')"
proof (cases "\<exists>pend fin. L a = Some (Ref_Enc pend fin)")
  case False
  then have "ref_compress_stream e a ob ib m L = (-1, ob, ib, m, L)"
    by (cases "L a"; cases "the (L a)") (auto simp: ref_compress_stream_def)
  with assms show ?thesis by (simp add: zstd_io_ok_refl)
next
  case True
  then obtain pend fin where s: "L a = Some (Ref_Enc pend fin)" by blast
  define xs where "xs = fst (ref_buffers ob ib m)"
  define room where "room = snd (ref_buffers ob ib m)"
  define pend1 where "pend1 = pend @ tagged xs @ (if e = ZSTD_e_end \<and> \<not> fin then [0] else [])"
  have c: "ref_advance (if drop room pend1 = [] then 0 else 1) a ob ib (length xs)
      (take room pend1) (Ref_Enc (drop room pend1) (e = ZSTD_e_end \<and> drop room pend1 \<noteq> [])) m L
      = (r, ob', ib', m', L')"
    using assms(1) unfolding ref_compress_stream_def s pend1_def xs_def room_def
    by (simp only: Let_def option.case ref_state.case split_beta)
  have room: "room = unat (ob_size ob) - unat (ob_pos ob)"
    and xs: "length xs \<le> unat (ib_size ib) - unat (ib_pos ib)"
    by (simp_all add: room_def xs_def ref_buffers_def)
  have k: "length (take room pend1) \<le> unat (ob_size ob) - unat (ob_pos ob)"
    by (simp add: room)
  note f = ref_advance_ok [OF c p xs k]
  have sz: "r = 0 \<or> ob_pos ob' = ob_size ob'"
  proof (cases "drop room pend1 = []")
    case False
    then have "unat (ob_pos ob') = unat (ob_size ob')"
      using f(5,6) s p(1) by (simp add: room word_le_nat_alt)
    then show ?thesis by (metis unsigned_word_eqI)
  qed (use f(4) s in simp)
  with f(1-3) s show ?thesis by blast
qed

lemma ref_decompress_stream_call:
  assumes "ref_decompress_stream a ob ib m L = (r, ob', ib', m', L')"
    and p: "ob_pos ob \<le> ob_size ob" "ib_pos ib \<le> ib_size ib"
  shows "zstd_io_ok ob ib m ob' ib' m' \<and> dom L' = dom L \<and> (\<forall>x. x \<noteq> a \<longrightarrow> L' x = L x)"
proof (cases "\<exists>skip md pend. L a = Some (Ref_Dec skip md pend)")
  case False
  then have "ref_decompress_stream a ob ib m L = (-1, ob, ib, m, L)"
    by (cases "L a"; cases "the (L a)") (auto simp: ref_decompress_stream_def)
  with assms show ?thesis by (simp add: zstd_io_ok_refl)
next
  case True
  then obtain skip md pend where s: "L a = Some (Ref_Dec skip md pend)" by blast
  define xs where "xs = fst (ref_buffers ob ib m)"
  define room where "room = snd (ref_buffers ob ib m)"
  obtain skip' md' new left where sc: "ref_scan skip md xs = (skip', md', new, left)"
    by (metis prod_cases4)
  obtain q t where c: "ref_advance q a ob ib (length xs - length left)
      (take room (pend @ new)) t m L = (r, ob', ib', m', L')"
    using assms(1) unfolding ref_decompress_stream_def s
    by (simp only: Let_def option.case ref_state.case split_beta)
      (simp only: xs_def [symmetric] room_def [symmetric] sc fst_conv snd_conv)
  have n: "length xs - length left \<le> unat (ib_size ib) - unat (ib_pos ib)"
    and k: "length (take room (pend @ new)) \<le> unat (ob_size ob) - unat (ob_pos ob)"
    by (simp_all add: room_def xs_def ref_buffers_def)
  from ref_advance_ok(1-3) [OF c p n k] s show ?thesis by blast
qed

lemma ref_zstd_heap: "zstd_heap_contract ref_zstd"
  unfolding zstd_heap_contract_def ref_zstd_sel
proof (intro conjI allI impI)
  show "zstd_step_ok (ref_compress_stream e)" for e
    unfolding zstd_step_ok_def using ref_compress_stream_call by blast
  show "zstd_step_ok ref_decompress_stream"
    unfolding zstd_step_ok_def using ref_decompress_stream_call by blast
qed (auto simp: ref_create_ok zstd_free_ok_def ref_is_error_def
    dest: ref_compress_ok ref_decompress_ok)

lemma ref_zstd_progress: "zstd_end_progress ref_zstd"
  unfolding zstd_end_progress_def ref_zstd_sel
  using ref_compress_stream_call by (fastforce simp: ref_is_error_def)

text \<open>The one-shot calls of the engine. The frames it decodes are shorter than the error codes.\<close>

definition ref_frame :: "c_int \<Rightarrow> u8 list \<Rightarrow> u8 list" where
  "ref_frame v xs = ref_enc 0 0 (sint v) xs"

definition ref_is_frame :: "u8 list \<Rightarrow> u8 list \<Rightarrow> bool" where
  "ref_is_frame ys xs \<longleftrightarrow> ref_dec 0 ys xs"

lemma ref_header_0 [simp]: "ref_header os 0 = []" "ref_header_len 0 = 0"
  by (simp_all add: ref_header_def ref_header_len_def)

lemma ref_zstd_encodes: "zstd_encodes ref_zstd ref_frame"
  unfolding zstd_encodes_def ref_zstd_sel
proof (intro allI impI)
  fix d s m r m' and cap n :: u64 and v :: c_int
  assume c: "ref_compress d cap s n v m = (r, m')" and r: "\<not> ref_is_error r"
  let ?ys = "ref_frame v (bytes_at m s (unat n))"
  have "r \<noteq> -70" using r by (auto simp: ref_is_error_def)
  then have "length ?ys \<le> unat cap" "r = of_nat (length ?ys)" "m' = write_bytes m d ?ys"
    using c by (auto simp: ref_compress_def ref_frame_def Let_def split: if_splits)
  moreover have "length ?ys < 2 ^ 64"
    using calculation(1) unat_u64_less [of cap] by simp
  ultimately show "unat r = length ?ys \<and> bytes_at m' d (unat r) = ?ys"
    by (simp add: u64_of_nat_small)
qed

lemma ref_zstd_decodes: "zstd_decodes ref_zstd ref_is_frame"
  unfolding zstd_decodes_def ref_zstd_sel
proof (intro allI impI)
  fix d s m xs r m' and cap n :: u64
  assume f: "ref_is_frame (bytes_at m s (unat n)) xs" and k: "length xs \<le> unat cap"
    and c: "ref_decompress d cap s n m = (r, m')"
  have ys: "bytes_at m s (unat n) = tagged xs @ [0]"
    using f by (simp add: ref_is_frame_def ref_dec_def)
  then have "unat n = 2 * length xs + 1"
    by (metis length_bytes_at length_append length_tagged length_Cons list.size(3) One_nat_def)
  then have len: "2 * length xs + 1 < 2 ^ 64"
    using unat_u64_less [of n] by simp
  then have sz: "unat (of_nat (length xs) :: u64) = length xs"
    by (intro u64_of_nat_small) simp
  have "ref_decompress d cap s n m = (of_nat (length xs), write_bytes m d xs)"
    using k ref_scan_tagged [of xs "[]"] by (simp add: ref_decompress_def ys)
  with c have "r = of_nat (length xs)" "m' = write_bytes m d xs" by simp_all
  moreover have "\<not> ref_is_error (of_nat (length xs))"
    using len by (simp add: ref_is_error_def word_less_nat_alt sz)
  ultimately show "\<not> ref_is_error r \<and> unat r = length xs \<and> bytes_at m' d (length xs) = xs"
    using sz by simp
qed

lemma ref_frames_agree: "zstd_formats_agree ref_frame ref_is_frame"
  by (simp add: zstd_formats_agree_def ref_frame_def ref_is_frame_def ref_dec_enc)

section \<open>Environments and worlds to run examples in\<close>

definition ref_env :: "u8 \<Rightarrow> bool \<Rightarrow> (64, ref_state) env" where
  "ref_env os nd =
     \<lparr>has_zlib = True, has_zstd = True, ndebug = nd, zlib = ref_zlib os, zstd = ref_zstd\<rparr>"

lemma ref_env_sel [simp]:
  "has_zlib (ref_env os nd)" "has_zstd (ref_env os nd)" "ndebug (ref_env os nd) = nd"
  "zlib (ref_env os nd) = ref_zlib os" "zstd (ref_env os nd) = ref_zstd"
  by (simp_all add: ref_env_def)

lemma ref_env_ok [simp]: "env_ok (ref_env os nd)"
  by (simp add: env_ok_def ref_zlib_heap ref_zstd_heap)

definition ref_world :: "memory \<Rightarrow> (64, ref_state) world" where
  "ref_world m = \<lparr>mem = m, zstreams = Map.empty, lib = Map.empty, brk = 1\<rparr>"

lemma ref_world_wf [simp]: "wf_world (ref_world m)"
  by (simp add: wf_world_def ref_world_def)

end
