(* ===== verification/One_Shot_Properties.thy ===== *)
theory One_Shot_Properties
  imports One_Shot_Codec Reference_Engine
begin

text \<open>
  The properties of \<open>squeeze\<close>, \<open>swell\<close> and \<open>bound\<close>, each with a run of the reference engine
  on which its hypotheses hold.
\<close>

section \<open>A setting for the examples\<close>

definition demo_world :: "(64, ref_state) world" where
  "demo_world = ref_world (\<lambda>a. of_nat (a mod 7))"

definition demo_in :: span where "demo_in = \<lparr>span_data = 1000, span_size = 5\<rparr>"
definition demo_out :: span where "demo_out = \<lparr>span_data = 2000, span_size = 64\<rparr>"
definition demo_back :: span where "demo_back = \<lparr>span_data = 3000, span_size = 5\<rparr>"

lemma demo_spans [simp]:
  "span_data demo_in = 1000" "span_size demo_in = 5" "span_data demo_out = 2000"
  "span_size demo_out = 64" "span_data demo_back = 3000" "span_size demo_back = 5"
  by (simp_all add: demo_in_def demo_out_def demo_back_def)

lemma ref_fresh_empty [simp]: "ref_fresh Map.empty = Some 1"
  by (simp add: ref_fresh_def upt_conv_Cons)

lemma ref_world_sel [simp]:
  "mem (ref_world m) = m" "zstreams (ref_world m) = Map.empty" "lib (ref_world m) = Map.empty"
  "brk (ref_world m) = 1" "world.more (ref_world m) = ()"
  by (simp_all add: ref_world_def)

lemma ref_allocates [simp]: "allocations_succeed (ref_env os nd) (ref_world m)"
  by (simp add: allocations_succeed_def ref_init_def ref_create_def ref_is_error_def level_in_range_def)

lemma demo_world_ok [simp]: "wf_world demo_world" "allocations_succeed (ref_env os nd) demo_world"
  by (simp_all add: demo_world_def)

lemma demo_levels [simp]: "level_in_range zlib_best" "level_in_range zlib_fastest"
  "level_in_range zlib_default_level"
  by (simp_all add: level_in_range_def zlib_best_def zlib_fastest_def zlib_default_level_def)

lemma ref_bound [simp]:
  "is_zlib_format f \<Longrightarrow> bound (ref_env os nd) f lvl n = (if 2 * n + 11 = -4 then -1 else 2 * n + 11)"
  "bound (ref_env os nd) Fmt_Zstd lvl n = (if ref_is_error (2 * n + 1) then -1 else 2 * n + 1)"
proof -
  have "sint (r :: u64) = -4 \<longleftrightarrow> r = -4" for r
    using signed_word_eqI [of r "-4"] by auto
  from this [of "2 * n + 11"] have m: "sint (2 * n + 11) = -4 \<longleftrightarrow> 15 + 2 * n = 0" by simp
  show "is_zlib_format f \<Longrightarrow> bound (ref_env os nd) f lvl n = (if 2 * n + 11 = -4 then -1 else 2 * n + 11)"
    by (cases f) (simp_all add: bound_def zlib_bound_def Let_def m)
  show "bound (ref_env os nd) Fmt_Zstd lvl n = (if ref_is_error (2 * n + 1) then -1 else 2 * n + 1)"
    by (simp add: bound_def zstd_bound_def)
qed

lemma ref_accepts [simp]:
  "is_zlib_format f \<Longrightarrow> level_in_range lvl \<Longrightarrow> refusal (ref_env os nd) f lvl 5 64 = None"
  "refusal (ref_env os nd) Fmt_Zstd lvl 5 64 = None"
  by (auto simp: refusal_None_iff backend_present_def ref_is_error_def)

section \<open>Containment\<close>

lemma squeeze_keeps:
  assumes "env_ok E" "wf_world w" "squeeze E f lvl i out w = Inr (r, w')"
  shows "wf_world w' \<and> same_heap w w' \<and>
    same_outside (mem w) (mem w') (span_data out) (unat (span_size out))"
proof (cases "refusal E f lvl (span_size i) (span_size out)")
  case None
  then show ?thesis
    using assms zlib_squeeze_keeps [of E w f lvl i out r w'] zstd_squeeze_keeps [of E w lvl i out r w']
    by (simp add: squeeze_branches env_ok_def split: if_splits)
next
  case (Some e)
  then show ?thesis using assms by (simp add: squeeze_branches same_heap_def)
qed

lemma swell_keeps:
  assumes "env_ok E" "wf_world w" "swell E f i out w = Inr (r, w')"
  shows "wf_world w' \<and> same_heap w w' \<and>
    same_outside (mem w) (mem w') (span_data out) (unat (span_size out))"
proof (cases "backend_present E f")
  case True
  then show ?thesis
    using assms zlib_swell_keeps [of E w f i out r w'] zstd_swell_keeps [of E w i out r w']
    by (simp add: swell_branches env_ok_def split: if_splits)
next
  case False
  then show ?thesis using assms by (simp add: swell_branches same_heap_def)
qed

lemma squeeze_total:
  fixes E :: "(64, 'b) env" and w :: "(64, 'b, 'm) world_scheme"
  assumes "env_ok E" "wf_world w" "allocations_succeed E w"
  shows "\<exists>r w'. squeeze E f lvl i out w = Inr (r, w') \<and> wf_world w' \<and> same_heap w w' \<and>
    same_outside (mem w) (mem w') (span_data out) (unat (span_size out))"
proof -
  have "\<exists>r w'. squeeze E f lvl i out w = Inr (r, w')"
  proof (cases "refusal E f lvl (span_size i) (span_size out)")
    case None
    then have "f \<noteq> Fmt_Zstd \<Longrightarrow> level_in_range lvl"
      using refusal_zlib_format [OF None] by (simp add: refusal_None_iff)
    with None show ?thesis
      using assms zlib_squeeze_returns [of E w lvl f i out] zstd_squeeze_returns [of E w lvl i out]
      by (simp add: squeeze_branches env_ok_def)
  qed (simp add: squeeze_branches)
  then show ?thesis using squeeze_keeps [OF assms(1,2)] by blast
qed

text \<open>
  C4: \<open>squeeze\<close> is total and contained. Wherever the backends' allocations succeed it returns
  a value or an error (never undefined behaviour, a failed assertion or a hang, the write of
  gzip's OS byte included), leaves no allocation behind on any path, and writes no byte
  outside the output span.
\<close>

theorem squeeze_contained:
  fixes E :: "(64, 'b) env" and w :: "(64, 'b, 'm) world_scheme"
  assumes "env_ok E" "wf_world w" "allocations_succeed E w"
  shows "\<exists>r w'. squeeze E f lvl i out w = Inr (r, w') \<and> wf_world w' \<and> same_heap w w' \<and>
    same_outside (mem w) (mem w') (span_data out) (unat (span_size out))"
  by (rule squeeze_total [OF assms])

lemma squeeze_contained_witness:
  "\<exists>r w'. squeeze (ref_env 3 False) Fmt_Gzip zlib_best demo_in demo_out demo_world = Inr (r, w') \<and>
    wf_world w' \<and> same_heap demo_world w' \<and> same_outside (mem demo_world) (mem w') 2000 64"
  using squeeze_contained [of "ref_env 3 False" demo_world Fmt_Gzip zlib_best demo_in demo_out]
  by simp

lemma swell_total:
  assumes "env_ok E" "wf_world w" "allocations_succeed E w"
  shows "\<exists>r w'. swell E f i out w = Inr (r, w') \<and> wf_world w' \<and> same_heap w w' \<and>
    same_outside (mem w) (mem w') (span_data out) (unat (span_size out))"
proof -
  have "\<exists>r w'. swell E f i out w = Inr (r, w')"
    using assms zlib_swell_returns [of E w f i out] zstd_swell_returns [of E w i out]
    by (simp add: swell_branches env_ok_def)
  then show ?thesis using swell_keeps [OF assms(1,2)] by blast
qed

text \<open>
  C9: \<open>swell\<close> is total and contained, on any input bytes whatever: it returns a value or an
  error, leaves no allocation behind on any path, and writes no byte outside the output span.
\<close>

theorem swell_contained:
  assumes "env_ok E" "wf_world w" "allocations_succeed E w"
  shows "\<exists>r w'. swell E f i out w = Inr (r, w') \<and> wf_world w' \<and> same_heap w w' \<and>
    same_outside (mem w) (mem w') (span_data out) (unat (span_size out))"
  by (rule swell_total [OF assms])

lemma swell_contained_witness:
  "\<exists>r w'. swell (ref_env 3 False) Fmt_Zstd demo_in demo_out demo_world = Inr (r, w') \<and>
    wf_world w' \<and> same_heap demo_world w' \<and> same_outside (mem demo_world) (mem w') 2000 64"
  using swell_contained [of "ref_env 3 False" demo_world Fmt_Zstd demo_in demo_out] by simp

section \<open>Errors\<close>

text \<open>
  C23: the checks of \<open>squeeze\<close>, in their order. When the table \<open>refusal\<close> (no backend, then level
  outside 0 to 9 for zlib's formats, then a zero bound, then too little room) gives an error,
  \<open>squeeze\<close> returns exactly that error and touches nothing: no byte of the output, no
  allocation, whatever the libraries do.
\<close>

theorem squeeze_refuses:
  assumes "refusal E f lvl (span_size i) (span_size out) = Some e"
  shows "squeeze E f lvl i out w = Inr (Inl e, w)"
  using assms by (simp add: squeeze_branches)

lemma squeeze_refuses_witness:
  "squeeze (ref_env 3 False) Fmt_Raw_Deflate (Zlib_Level 10) demo_in demo_out demo_world
    = Inr (Inl (mk_error Level_Unsupported Zlib_Id 0 ''''), demo_world)"
  by (rule squeeze_refuses) (simp add: refusal_def backend_present_def level_in_range_def)

lemma reply_error:
  "reply (x, w) = Inr (Inl e, w') \<Longrightarrow> x = Inl e"
  "reply_patched f out (x, w) = Inr (Inl e, w') \<Longrightarrow> x = Inl e"
  by (cases x; auto simp: reply_def reply_patched_def chain_Inr_iff)+

lemma scoped_op_error:
  assumes "scoped create (\<lambda>h w1. chain (op h w1) after) destroy w = Inr (Inl e, w')"
    and "\<And>x w e w'. after (x, w) = Inr (Inl e, w') \<Longrightarrow> x = Inl e"
  obtains h w1 w2 where "op h w1 = Inr (Inl e, w2)"
proof -
  from assms(1) obtain h w1 w2 where "chain (op h w1) after = Inr (Inl e, w2)" by (rule scopedE)
  then obtain x w3 where "op h w1 = Inr (x, w3)" "after (x, w3) = Inr (Inl e, w2)"
    by (auto simp: chain_Inr_iff)
  with assms(2) that show thesis by blast
qed

lemma zlib_squeeze_error:
  assumes "zlib_squeeze E f lvl i out w = Inr (Inl e, w')"
  shows "err_k e = Backend_Failure \<and> err_b e = Zlib_Id \<and> err_pos e = 0"
  using assms unfolding zlib_squeeze_def
  by (rule scoped_op_error [OF _ reply_error(2)])
    (auto simp: zlib_squeezer_push_def chain_Inr_iff split: if_splits)

lemma zstd_squeeze_error:
  assumes "zstd_squeeze E lvl i out w = Inr (Inl e, w')"
  shows "err_k e = Backend_Failure \<and> err_b e = Zstd_Id \<and> err_pos e = 0"
  using assms unfolding zstd_squeeze_def
  by (rule scoped_op_error [OF _ reply_error(1)])
    (auto simp: zstd_squeezer_push_def zstd_error_def Let_def split: if_splits prod.splits)

lemma zlib_swell_error:
  assumes "zlib_swell E f i out w = Inr (Inl e, w')"
  shows "(err_k e = Stream_Corrupt \<or> err_k e = Buffer_Too_Small) \<and> err_b e = Zlib_Id"
  using assms unfolding zlib_swell_def
  by (rule scoped_op_error [OF _ reply_error(1)])
    (auto simp: zlib_sweller_push_def chain_Inr_iff split: if_splits)

lemma zstd_swell_error:
  assumes "zstd_swell E i out w = Inr (Inl e, w')"
  shows "err_k e = Stream_Corrupt \<and> err_b e = Zstd_Id"
  using assms unfolding zstd_swell_def
  by (rule scoped_op_error [OF _ reply_error(1)])
    (auto simp: zstd_sweller_push_def zstd_error_def Let_def split: if_splits prod.splits)

text \<open>
  C24: every error \<open>squeeze\<close> can return. It is either the refusal of the checks, with nothing
  touched, or \<open>backend_failure\<close> at position 0 from the backend that serves the format. In
  particular \<open>stream_corrupt\<close>, \<open>out_of_memory\<close> and \<open>internal_contract_violation\<close> never come
  out of compression.
\<close>

theorem squeeze_errors:
  assumes "squeeze E f lvl i out w = Inr (Inl e, w')"
  shows "(refusal E f lvl (span_size i) (span_size out) = Some e \<and> w' = w \<and>
      err_k e \<in> {Format_Mismatch, Level_Unsupported, Buffer_Too_Small}) \<or>
    (refusal E f lvl (span_size i) (span_size out) = None \<and> err_k e = Backend_Failure \<and>
      err_b e = (if f = Fmt_Zstd then Zstd_Id else Zlib_Id) \<and> err_pos e = 0)"
proof (cases "refusal E f lvl (span_size i) (span_size out)")
  case None
  then show ?thesis
    using assms zlib_squeeze_error zstd_squeeze_error
    by (fastforce simp: squeeze_branches split: if_splits)
next
  case (Some d)
  then have "e = d" "w' = w" using assms by (simp_all add: squeeze_branches)
  moreover have "err_k d \<in> {Format_Mismatch, Level_Unsupported, Buffer_Too_Small}"
    using Some by (auto simp: refusal_def no_such_format_def split: if_splits)
  ultimately show ?thesis using Some by simp
qed

lemma squeeze_errors_witness:
  "refusal (ref_env 3 False) Fmt_Zlib zlib_best 5 15
      = Some (mk_error Buffer_Too_Small No_Backend 0 '''')"
proof -
  let ?o = "\<lparr>span_data = 2000, span_size = 15\<rparr>"
  have "squeeze (ref_env 3 False) Fmt_Zlib zlib_best demo_in ?o demo_world
      = Inr (Inl (mk_error Buffer_Too_Small No_Backend 0 ''''), demo_world)"
    by (simp add: squeeze_branches refusal_def backend_present_def)
  from squeeze_errors [OF this] show ?thesis by simp
qed

text \<open>
  C25: every error \<open>swell\<close> can return. Without a backend it is \<open>format_mismatch\<close> with nothing
  touched; from zlib's formats \<open>stream_corrupt\<close> or \<open>buffer_too_small\<close>, from zstd only
  \<open>stream_corrupt\<close>, even where the output was too small for a sound frame.
\<close>

theorem swell_errors:
  assumes "swell E f i out w = Inr (Inl e, w')"
  shows "(\<not> backend_present E f \<and> e = no_such_format \<and> w' = w) \<or>
    (backend_present E f \<and> f = Fmt_Zstd \<and> err_k e = Stream_Corrupt \<and> err_b e = Zstd_Id) \<or>
    (backend_present E f \<and> is_zlib_format f \<and>
      (err_k e = Stream_Corrupt \<or> err_k e = Buffer_Too_Small) \<and> err_b e = Zlib_Id)"
proof (cases "backend_present E f")
  case True
  then show ?thesis
    using assms zlib_swell_error [of E f i out w e w'] zstd_swell_error [of E i out w e w']
    by (auto simp: swell_branches backend_present_def split: if_splits)
next
  case False
  then show ?thesis using assms by (simp add: swell_branches)
qed

lemma swell_errors_witness:
  "\<not> backend_present ((ref_env 3 False)\<lparr>has_zstd := False\<rparr>) Fmt_Zstd"
proof -
  let ?E = "(ref_env 3 False)\<lparr>has_zstd := False\<rparr>"
  have "swell ?E Fmt_Zstd demo_in demo_out demo_world = Inr (Inl no_such_format, demo_world)"
    by (simp add: swell_branches backend_present_def)
  from swell_errors [OF this] show ?thesis by (auto simp: no_such_format_def)
qed

section \<open>What the output holds\<close>

lemma refusal_zlib:
  assumes "refusal E f lvl n room = None" "is_zlib_format f"
  shows "level_in_range lvl" "zlib_bound E lvl n \<le> room" "f \<noteq> Fmt_Zstd" "has_zlib E"
  using assms by (auto simp: refusal_None_iff backend_present_def bound_def is_zlib_format_def)

lemma zlib_squeeze_output:
  fixes E :: "(64, 'b) env" and w :: "(64, 'b, 'm) world_scheme"
  assumes ok: "env_ok E" "wf_world w" "allocations_succeed E w"
    and enc: "zlib_encodes (zlib E) enc" "zlib_bound_covers (zlib E)" "zlib_deflate_bound (zlib E) D"
      "container_fits D f lvl (span_size i) (span_size out)"
    and f: "is_zlib_format f" "refusal E f lvl (span_size i) (span_size out) = None"
    and small: "unat (span_size i) < 2 ^ 32" "unat (span_size out) < 2 ^ 32"
    and apart: "spans_valid i out"
  defines "ys \<equiv> enc (window_bits_for f) (sint (zlib_level_int lvl)) (span_bytes (mem w) i)"
  shows "\<exists>r w'. squeeze E f lvl i out w = Inr (Inr r, w') \<and>
    unat (bytes_written r) = length ys \<and> length ys < 2 ^ 32 \<and> length ys \<le> unat (span_size out) \<and>
    bytes_at (mem w') (span_data out) (length ys) = gzip_unknown_os f ys"
proof -
  have lawful: "zlib_heap_contract (zlib E)" using ok(1) by (simp add: env_ok_def)
  note room = refusal_zlib(2) [OF f(2,1)]
  from zlib_squeeze_bytes [OF lawful ok(2,3) refusal_zlib(1) [OF f(2,1)] enc(1)
      container_fits_finishes [OF enc(2-4) room small] small apart room]
  show ?thesis using f refusal_zlib(3) [OF f(2,1)] by (simp add: squeeze_branches ys_def)
qed

text \<open>
  C7: the wire format of zlib, gzip and raw deflate. Whenever the checks pass, the input and
  output are below 4 GiB and apart, and the container fits (always for zlib; for gzip and raw
  deflate when the output has the size of zlib's \<open>deflateBound\<close>), \<open>squeeze\<close> succeeds, and the
  bytes it reports written are exactly the stream zlib defines for this input, level and
  container, with byte 9 of a gzip header set to 0xff.
\<close>

theorem squeeze_wire_format:
  fixes E :: "(64, 'b) env" and w :: "(64, 'b, 'm) world_scheme"
  assumes "env_ok E" "wf_world w" "allocations_succeed E w"
    and "zlib_encodes (zlib E) enc" "zlib_bound_covers (zlib E)" "zlib_deflate_bound (zlib E) D"
      "container_fits D f lvl (span_size i) (span_size out)"
    and "is_zlib_format f" "refusal E f lvl (span_size i) (span_size out) = None"
    and "unat (span_size i) < 2 ^ 32" "unat (span_size out) < 2 ^ 32"
    and "spans_valid i out"
  shows "\<exists>r w'. squeeze E f lvl i out w = Inr (Inr r, w') \<and>
    bytes_at (mem w') (span_data out) (unat (bytes_written r)) = gzip_unknown_os f
      (enc (window_bits_for f) (sint (zlib_level_int lvl)) (span_bytes (mem w) i))"
  using zlib_squeeze_output [OF assms] by auto

lemmas ref_fits = ref_bound_covers ref_deflate_bound container_fits_def ref_deflate_size_def ref_header_len_def

lemma squeeze_wire_format_witness:
  "\<exists>r w'. squeeze (ref_env 3 True) Fmt_Gzip zlib_best demo_in demo_out demo_world = Inr (Inr r, w') \<and>
    bytes_at (mem w') 2000 (unat (bytes_written r))
      = [0x1f, 0x8b, 8, 0, 0, 0, 0, 0, 0, 0xff, 1, 6, 1, 0, 1, 1, 1, 2, 1, 3, 0]"
proof -
  have ys: "gzip_unknown_os Fmt_Gzip (ref_enc 3 31 (sint (zlib_level_int zlib_best))
      (span_bytes (mem demo_world) demo_in))
    = [0x1f, 0x8b, 8, 0, 0, 0, 0, 0, 0, 0xff, 1, 6, 1, 0, 1, 1, 1, 2, 1, 3, 0]"
    by (simp add: gzip_unknown_os_def ref_enc_def ref_header_def span_bytes_def bytes_at_def
        upt_conv_Cons demo_world_def)
  show ?thesis
    using squeeze_wire_format [of "ref_env 3 True" demo_world "ref_enc 3" ref_deflate_size Fmt_Gzip zlib_best
        demo_in demo_out]
    by (simp add: ref_encodes ref_fits spans_defs apart_def ys)
qed

section \<open>Round trips\<close>

lemma same_heap_allocations:
  "same_heap w w' \<Longrightarrow> allocations_succeed E w' = allocations_succeed E w"
  by (simp add: same_heap_def allocations_succeed_def)

lemma formats_agree_patched:
  assumes "zlib_formats_agree enc dec"
  shows "dec (window_bits_for f) (gzip_unknown_os f (enc (window_bits_for f) lvl xs)) xs"
  using assms by (auto simp: zlib_formats_agree_def gzip_unknown_os_def)

text \<open>The two halves of a round trip: what \<open>squeeze\<close> wrote decodes, and \<open>swell\<close> decodes it.\<close>

lemma squeeze_decodable:
  fixes E :: "(64, 'b) env" and w :: "(64, 'b, 'm) world_scheme"
  assumes "env_ok E" "wf_world w" "allocations_succeed E w"
    and "zlib_encodes (zlib E) enc" "zlib_bound_covers (zlib E)" "zlib_deflate_bound (zlib E) D"
      "container_fits D f lvl (span_size i) (span_size out)"
    and agree: "zlib_formats_agree enc dec"
    and "is_zlib_format f" "refusal E f lvl (span_size i) (span_size out) = None"
    and "unat (span_size i) < 2 ^ 32" "unat (span_size out) < 2 ^ 32" "spans_valid i out"
  obtains r w1 where "squeeze E f lvl i out w = Inr (Inr r, w1)" "bytes_written r \<le> span_size out"
    "dec (window_bits_for f) (bytes_at (mem w1) (span_data out) (unat (bytes_written r))) (span_bytes (mem w) i)"
proof -
  obtain r w1 where "squeeze E f lvl i out w = Inr (Inr r, w1)"
    "unat (bytes_written r) \<le> unat (span_size out)"
    "bytes_at (mem w1) (span_data out) (unat (bytes_written r)) = gzip_unknown_os f
      (enc (window_bits_for f) (sint (zlib_level_int lvl)) (span_bytes (mem w) i))"
    using zlib_squeeze_output [OF assms(1-7,9-13)] by auto
  then show thesis using that formats_agree_patched [OF agree] by (simp add: word_le_nat_alt)
qed

lemma swell_decodes:
  fixes E :: "(64, 'b) env" and w :: "(64, 'b, 'm) world_scheme"
  assumes ok: "env_ok E" "wf_world w" "allocations_succeed E w" "zlib_decodes (zlib E) dec"
    and f: "is_zlib_format f" "has_zlib E"
    and xs: "dec (window_bits_for f) (span_bytes (mem w) i) xs" "length xs \<le> unat (span_size out)"
    and small: "unat (span_size i) < 2 ^ 32" "unat (span_size out) < 2 ^ 32" "spans_valid i out"
  obtains r w1 where "swell E f i out w = Inr (Inr r, w1)" "unat (bytes_written r) = length xs"
    "bytes_at (mem w1) (span_data out) (length xs) = xs"
proof -
  have "zlib_heap_contract (zlib E)" using ok(1) by (simp add: env_ok_def)
  from zlib_swell_bytes [OF this ok(2-4) xs small] show thesis
    using that f by (auto simp: swell_branches backend_present_def is_zlib_format_def)
qed

text \<open>
  C1: \<open>swell\<close> undoes \<open>squeeze\<close> for zlib, gzip and raw deflate. Below 4 GiB, for any input that
  passes the checks, compressing and then decompressing the bytes reported written, into a
  span with room for the data, succeeds and gives back exactly the input, at its length. The
  patched OS byte does no harm. For the zlib container the checks themselves see to it that the
  stream fits; for gzip and raw deflate they do not (\<open>squeeze_accepts_unfinished\<close>), and the
  output must have the size of zlib's \<open>deflateBound\<close>, which the program does not ask for.
\<close>

theorem zlib_roundtrip:
  fixes E :: "(64, 'b) env" and w :: "(64, 'b, 'm) world_scheme"
  assumes ok: "env_ok E" "wf_world w" "allocations_succeed E w"
    and codec: "zlib_encodes (zlib E) enc" "zlib_decodes (zlib E) dec" "zlib_formats_agree enc dec"
    and fits: "zlib_bound_covers (zlib E)" "zlib_deflate_bound (zlib E) D"
      "container_fits D f lvl (span_size i) (span_size out)"
    and f: "is_zlib_format f" "refusal E f lvl (span_size i) (span_size out) = None"
    and small: "unat (span_size i) < 2 ^ 32" "unat (span_size out) < 2 ^ 32"
      "unat (span_size back) < 2 ^ 32"
    and apart: "spans_valid i out" "spans_valid out back"
    and room: "span_size i \<le> span_size back"
  shows "\<exists>r w1 r2 w2. squeeze E f lvl i out w = Inr (Inr r, w1) \<and>
    swell E f \<lparr>span_data = span_data out, span_size = bytes_written r\<rparr> back w1 = Inr (Inr r2, w2) \<and>
    bytes_written r2 = span_size i \<and>
    bytes_at (mem w2) (span_data back) (unat (bytes_written r2)) = span_bytes (mem w) i"
proof -
  obtain r w1 where sq: "squeeze E f lvl i out w = Inr (Inr r, w1)" and n: "bytes_written r \<le> span_size out"
    and d: "dec (window_bits_for f) (bytes_at (mem w1) (span_data out) (unat (bytes_written r))) (span_bytes (mem w) i)"
    by (rule squeeze_decodable [OF ok codec(1) fits codec(3) f small(1,2) apart(1)])
  let ?c = "\<lparr>span_data = span_data out, span_size = bytes_written r\<rparr>"
  note w1 = squeeze_keeps [OF ok(1,2) sq]
  have alloc: "allocations_succeed E w1" using w1 ok(3) same_heap_allocations by blast
  have c: "unat (span_size ?c) < 2 ^ 32" using n small(2) by (simp add: word_le_nat_alt)
  have k: "length (span_bytes (mem w) i) \<le> unat (span_size back)"
    using room by (simp add: span_bytes_def word_le_nat_alt)
  have d': "dec (window_bits_for f) (span_bytes (mem w1) ?c) (span_bytes (mem w) i)"
    using d by (simp add: span_bytes_def)
  obtain r2 w2 where "swell E f ?c back w1 = Inr (Inr r2, w2)"
    "unat (bytes_written r2) = length (span_bytes (mem w) i)"
    "bytes_at (mem w2) (span_data back) (length (span_bytes (mem w) i)) = span_bytes (mem w) i"
    by (rule swell_decodes [OF ok(1) conjunct1 [OF w1] alloc codec(2) f(1) refusal_zlib(4) [OF f(2,1)] d' k c
        small(3) spans_valid_head [OF apart(2) n]])
  moreover from this have "bytes_written r2 = span_size i"
    by (intro unsigned_word_eqI) (simp add: span_bytes_def)
  ultimately show ?thesis using sq by metis
qed

lemma zlib_roundtrip_witness:
  "\<exists>r w1 r2 w2. squeeze (ref_env 3 True) Fmt_Gzip zlib_fastest demo_in demo_out demo_world
      = Inr (Inr r, w1) \<and>
    swell (ref_env 3 True) Fmt_Gzip \<lparr>span_data = 2000, span_size = bytes_written r\<rparr> demo_back w1
      = Inr (Inr r2, w2) \<and>
    bytes_written r2 = 5 \<and>
    bytes_at (mem w2) 3000 (unat (bytes_written r2)) = span_bytes (mem demo_world) demo_in"
  using zlib_roundtrip [of "ref_env 3 True" demo_world "ref_enc 3" ref_dec ref_deflate_size Fmt_Gzip zlib_fastest
      demo_in demo_out demo_back]
  by (simp add: ref_encodes ref_fits ref_decodes ref_formats_agree spans_defs apart_def)

text \<open>
  C5: \<open>swell\<close> undoes \<open>squeeze\<close> for zstd, at any size and at whatever level number was passed:
  when \<open>squeeze\<close> reports success, decompressing the bytes it reports written, into a span with
  room for the data, succeeds and gives back exactly the input, at its length.
\<close>

theorem zstd_roundtrip:
  fixes w :: "('l::len, 'b, 'm) world_scheme"
  assumes ok: "env_ok E" "wf_world w" "allocations_succeed E w"
    and codec: "zstd_encodes (zstd E) enc" "zstd_decodes (zstd E) dec" "zstd_formats_agree enc dec"
    and sq: "squeeze E Fmt_Zstd lvl i out w = Inr (Inr r, w1)"
    and max: "span_size out \<noteq> -1"
    and apart: "apart (span_data i) (unat (span_size i)) (span_data out) (unat (span_size out))"
      "apart (span_data out) (unat (span_size out)) (span_data back) (unat (span_size back))"
    and room: "span_size i \<le> span_size back"
  shows "\<exists>r2 w2. swell E Fmt_Zstd \<lparr>span_data = span_data out, span_size = bytes_written r\<rparr> back w1
      = Inr (Inr r2, w2) \<and> bytes_written r2 = span_size i \<and>
    bytes_at (mem w2) (span_data back) (unat (bytes_written r2)) = span_bytes (mem w) i"
proof -
  let ?xs = "span_bytes (mem w) i"
  have ref: "refusal E Fmt_Zstd lvl (span_size i) (span_size out) = None"
    and run: "zstd_squeeze E lvl i out w = Inr (Inr r, w1)"
    using sq by (auto simp: squeeze_branches split: option.splits)
  then have bd: "zstd_bound E zstd_default_level (span_size i) \<le> span_size out" "backend_present E Fmt_Zstd"
    by (auto simp: refusal_None_iff bound_def backend_present_def)
  then have ne: "\<not> ZSTD_isError (zstd E) (ZSTD_compressBound (zstd E) (span_size i))"
    using max by (auto simp: zstd_bound_def Let_def word_order.extremum_unique)
  note ys = zstd_squeeze_bytes [OF codec(1) apart(1) ne bd(1) run]
  let ?c = "\<lparr>span_data = span_data out, span_size = bytes_written r\<rparr>"
  have d: "dec (span_bytes (mem w1) ?c) ?xs"
    using ys codec(3) by (simp add: span_bytes_def zstd_formats_agree_def)
  have k: "length ?xs \<le> unat (span_size back)"
    using room by (simp add: span_bytes_def word_le_nat_alt)
  have le: "unat (bytes_written r) \<le> unat (span_size out)"
    using zstd_squeeze_room [OF _ run] ok(1) by (simp add: env_ok_def word_le_nat_alt)
  have a: "apart (span_data ?c) (unat (span_size ?c)) (span_data back) (unat (span_size back))"
    using apart_mono [OF apart(2)] le by simp
  note w1 = squeeze_keeps [OF ok(1,2) sq]
  have lawful: "zstd_heap_contract (zstd E)" using ok(1) by (simp add: env_ok_def)
  have alloc: "allocations_succeed E w1" using w1 ok(3) same_heap_allocations by blast
  obtain r2 w2 where sw: "zstd_swell E ?c back w1 = Inr (Inr r2, w2)"
    "unat (bytes_written r2) = length ?xs" "bytes_at (mem w2) (span_data back) (length ?xs) = ?xs"
    using zstd_swell_bytes [OF lawful _ alloc codec(2) d k a] w1 by blast
  have "swell E Fmt_Zstd ?c back w1 = Inr (Inr r2, w2)"
    using sw(1) bd(2) by (simp add: swell_branches)
  moreover have "bytes_written r2 = span_size i"
    by (rule unsigned_word_eqI) (use sw(2) in \<open>simp add: span_bytes_def\<close>)
  ultimately show ?thesis using sw by metis
qed

lemma ref_zstd_run:
  "\<exists>r w1. squeeze (ref_env 3 True) Fmt_Zstd lvl demo_in demo_out demo_world = Inr (Inr r, w1)"
  by (simp add: squeeze_branches zstd_squeeze_def scoped_def zstd_squeezer_new_def ref_create_def
      zstd_squeezer_push_def ref_compress_def ref_enc_def length_tagged ref_is_error_def reply_def
      zstd_squeezer_delete_def live_ctx_def demo_world_def)

lemma zstd_roundtrip_witness:
  "\<exists>r w1 r2 w2. squeeze (ref_env 3 True) Fmt_Zstd zlib_best demo_in demo_out demo_world
      = Inr (Inr r, w1) \<and>
    swell (ref_env 3 True) Fmt_Zstd \<lparr>span_data = 2000, span_size = bytes_written r\<rparr> demo_back w1
      = Inr (Inr r2, w2) \<and>
    bytes_written r2 = 5"
proof -
  obtain r w1 where sq: "squeeze (ref_env 3 True) Fmt_Zstd zlib_best demo_in demo_out demo_world
      = Inr (Inr r, w1)"
    using ref_zstd_run by blast
  show ?thesis
    using sq zstd_roundtrip [OF _ _ _ _ _ _ sq, of ref_frame ref_is_frame demo_back]
    by (simp add: ref_zstd_encodes ref_zstd_decodes ref_frames_agree apart_def) blast
qed

section \<open>At and above 4 GiB\<close>

lemma to_uInt_ucast: "to_uInt (ucast (y :: u32)) = y"
  unfolding to_uInt_def by transfer simp

text \<open>
  C30: above 4 GiB, compression for zlib's formats silently drops data. The length given to
  zlib is cut to 32 bits, so a call whose checks pass behaves in every respect (result, bytes
  written, memory) as the call on the first \<open>size mod 2^32\<close> bytes of the input.
\<close>

theorem squeeze_cuts_at_4gib:
  fixes w :: "('l::len, 'b, 'm) world_scheme"
  assumes f: "is_zlib_format f" "refusal E f lvl (span_size i) (span_size out) = None"
    and j: "j = \<lparr>span_data = span_data i, span_size = ucast (to_uInt (span_size i))\<rparr>"
      "refusal E f lvl (span_size j) (span_size out) = None"
  shows "squeeze E f lvl i out w = squeeze E f lvl j out w"
proof -
  have "to_uInt (span_size j) = to_uInt (span_size i)" by (simp add: j(1) to_uInt_ucast)
  then have "set_windows i out st = set_windows j out st" for st :: "'l z_stream"
    by (simp add: set_windows_def j(1))
  then have "zlib_squeezer_push E h i out w1 = zlib_squeezer_push E h j out w1"
    for h and w1 :: "('l, 'b, 'm) world_scheme"
    by (simp add: zlib_squeezer_push_def zcall_def)
  then have "zlib_squeeze E f lvl i out w = zlib_squeeze E f lvl j out w"
    by (simp add: zlib_squeeze_def)
  then show ?thesis using f j(2) refusal_zlib(3) [OF f(2,1)] by (simp add: squeeze_branches)
qed

lemma squeeze_cuts_at_4gib_witness:
  "squeeze (ref_env 3 True) Fmt_Zlib zlib_best \<lparr>span_data = 1000, span_size = 0x100000005\<rparr>
      \<lparr>span_data = 0x200000000, span_size = 0x300000000\<rparr> demo_world
    = squeeze (ref_env 3 True) Fmt_Zlib zlib_best \<lparr>span_data = 1000, span_size = 5\<rparr>
      \<lparr>span_data = 0x200000000, span_size = 0x300000000\<rparr> demo_world"
  by (rule squeeze_cuts_at_4gib)
    (simp_all add: refusal_None_iff backend_present_def to_uInt_def)

text \<open>
  C29: what a successful one-shot inflate means for its input. A zlib-format \<open>swell\<close> that
  reports success consumed every byte of its input span (nothing trails the stream), so for
  an input of 4 GiB or more, where the length given to zlib is cut, it always fails.
\<close>

theorem swell_rejects_4gib:
  fixes E :: "(64, 'b) env" and w :: "(64, 'b, 'm) world_scheme"
  assumes "env_ok E" "wf_world w" "is_zlib_format f" "2 ^ 32 \<le> unat (span_size i)"
    and run: "swell E f i out w = Inr (x, w')"
  shows "\<exists>e. x = Inl e"
proof (rule ccontr)
  assume "\<not> ?thesis"
  then obtain r where x: "x = Inr r" by (cases x) auto
  from run assms(3) x have "zlib_swell E f i out w = Inr (Inr r, w')"
    by (auto simp: swell_branches split: if_splits)
  then obtain h w1 w2 where mk: "zlib_sweller_new E f w = Inr (h, w1)"
    and bd: "chain (zlib_sweller_push E h i out w1) reply = Inr (Inr r, w2)"
    unfolding zlib_swell_def by (rule scopedE)
  have lawful: "zlib_heap_contract (zlib E)" using assms(1) by (simp add: env_ok_def)
  from zlib_sweller_once.create_fresh [OF lawful assms(2) mk] have w1: "wf_world w1" by blast
  from bd obtain y w3 where y: "zlib_sweller_push E h i out w1 = Inr (y, w3)"
    "reply (y, w3) = Inr (Inr r, w2)"
    by (auto simp: chain_Inr_iff)
  then obtain p where "zlib_sweller_push E h i out w1 = Inr (Inr p, w3)"
    by (cases y) (auto simp: reply_def)
  then obtain c where c: "zcall (inflate (zlib E)) (zsw_stream h) Z_FINISH i out w1 = Inr c"
    and n: "\<not> zc_consumed c < span_size i"
    by (auto simp: zlib_sweller_push_def chain_Inr_iff split: if_splits)
  obtain st st' m L where
    call: "inflate (zlib E) (set_windows i out st) Z_FINISH (mem w1) (lib w1) = (zc_ret c, st', m, L)"
    and k: "zc_consumed c = ucast (total_in st') - ucast (total_in st)"
    using c by (rule zcallE)
  have "0 \<notin> dom (lib w1)" using w1 by (simp add: wf_world_def)
  note io = zlib_step_okD(1) [OF zlib_contract_steps(2) [OF lawful] this call]
  have "unat (zc_consumed c) = taken (set_windows i out st) st'"
    using zio_counts_64(1,4) [OF io] k by simp
  also have "\<dots> < 2 ^ 32"
    using zio_okD(1) [OF io] unat_u32_less [of "to_uInt (span_size i)"] by simp
  finally have "unat (zc_consumed c) < unat (span_size i)" using assms(4) by simp
  then show False using n by (simp add: word_less_nat_alt)
qed

lemma swell_rejects_4gib_witness:
  "\<exists>e w'. swell (ref_env 3 False) Fmt_Zlib \<lparr>span_data = 1000, span_size = 0x100000000\<rparr> demo_out demo_world
    = Inr (Inl e, w')"
proof -
  let ?i = "\<lparr>span_data = 1000, span_size = 0x100000000\<rparr> :: span"
  have "zlib_heap_contract (zlib (ref_env 3 False))" by (simp add: ref_zlib_heap)
  from zlib_swell_returns [OF this demo_world_ok(1) demo_world_ok(2), of Fmt_Zlib ?i demo_out]
  obtain x w' where "swell (ref_env 3 False) Fmt_Zlib ?i demo_out demo_world = Inr (x, w')"
    by (auto simp: swell_branches backend_present_def)
  with swell_rejects_4gib [OF ref_env_ok demo_world_ok(1) _ _ this] show ?thesis by auto
qed

section \<open>Streams that stop early\<close>

text \<open>
  C31: a truncated zlib-format stream is reported as success. When inflate runs out of input
  before the end of the stream (it returns \<open>Z_BUF_ERROR\<close> or \<open>Z_OK\<close> with no input left), \<open>swell\<close>
  returns a value, the bytes restored so far, and no error.
\<close>

theorem swell_accepts_truncated:
  fixes E :: "(64, 'b) env" and w :: "(64, 'b, 'm) world_scheme"
  assumes ok: "env_ok E" "wf_world w" and f: "is_zlib_format f" "has_zlib E"
    and init: "inflateInit2 (zlib E) zero_stream (window_bits_for f) (lib w) = (Z_OK, st, L)"
    and call: "inflate (zlib E) (set_windows i out st) Z_FINISH (mem w) L = (r, st', m', L')"
    and stop: "r = Z_BUF_ERROR \<or> r = Z_OK" "avail_in st' = 0"
    and small: "unat (span_size i) < 2 ^ 32"
  shows "\<exists>x w'. swell E f i out w = Inr (Inr x, w') \<and>
    unat (bytes_written x) = given (set_windows i out st) st' \<and> mem w' = m'"
proof -
  have lawful: "zlib_heap_contract (zlib E)" using ok(1) by (simp add: env_ok_def)
  define w1 where "w1 = w\<lparr>zstreams := (zstreams w)(brk w \<mapsto> st), brk := Suc (brk w), lib := L\<rparr>"
  have mk: "zlib_sweller_new E f w = Inr (\<lparr>zsw_stream = brk w\<rparr>, w1)"
    unfolding w1_def by (rule zlib_sweller_new_run [OF init])
  have w1: "zstreams w1 (brk w) = Some st" by (simp add: w1_def)
  have c: "inflate (zlib E) (set_windows i out st) Z_FINISH (mem w1) (lib w1) = (r, st', m', L')"
    using call by (simp add: w1_def)
  have "wf_world w1" using zlib_sweller_once.create_fresh [OF lawful ok(2) mk] by blast
  then have "0 \<notin> dom (lib w1)" by (simp add: wf_world_def)
  note io = zlib_step_okD(1) [OF zlib_contract_steps(2) [OF lawful] this c]
  note n = zio_counts_64 [OF io]
  have t: "of_nat (taken (set_windows i out st) st') = span_size i"
    using stop(2) small by (simp add: taken_def unat_to_uInt_small)
  let ?g = "of_nat (given (set_windows i out st) st') :: u64"
  let ?w2 = "w1\<lparr>mem := m', lib := L', zstreams := (zstreams w1)(brk w \<mapsto> st')\<rparr>"
  have op: "zlib_sweller_push E \<lparr>zsw_stream = brk w\<rparr> i out w1
      = Inr (Inr (mk_progress (span_size i) ?g False), ?w2)"
    using zcall_run [where call = "inflate (zlib E)", OF w1 c] stop(1) n(1,2) t
    by (auto simp: zlib_sweller_push_def)
  have af: "reply (Inr (mk_progress (span_size i) ?g False), ?w2)
      = Inr (Inr \<lparr>bytes_written = ?g\<rparr>, ?w2\<lparr>mem := m'\<rparr>)"
    by (simp add: reply_def)
  have "\<exists>w'. zlib_swell E f i out w = Inr (Inr \<lparr>bytes_written = ?g\<rparr>, w') \<and> mem w' = m'"
    unfolding zlib_swell_def
    by (rule zlib_sweller_once.one_call_value [where after = reply, OF lawful ok(2) mk op af]) simp
  then show ?thesis using f n(3) by (force simp: swell_branches backend_present_def is_zlib_format_def)
qed

lemma swell_accepts_truncated_witness:
  "\<exists>x w'. swell (ref_env 3 False) Fmt_Zlib \<lparr>span_data = 0, span_size = 2\<rparr> demo_out
      (ref_world (\<lambda>a. if a = 0 then 1 else 9)) = Inr (Inr x, w') \<and> unat (bytes_written x) = 1"
proof -
  let ?w = "ref_world (\<lambda>a. if a = 0 then 1 else 9)"
  let ?i = "\<lparr>span_data = 0, span_size = 2\<rparr>"
  obtain st L where st: "inflateInit2 (zlib (ref_env 3 False)) zero_stream (window_bits_for Fmt_Zlib) (lib ?w)
      = (Z_OK, st, L)" and L: "L (zstate st) = Some (Ref_Dec 0 At_Tag [])"
    by (simp add: ref_init_def ref_header_len_def)
  obtain r st' m' L' where c: "inflate (zlib (ref_env 3 False)) (set_windows ?i demo_out st) Z_FINISH (mem ?w) L
      = (r, st', m', L')"
    by (metis prod_cases4)
  have sc: "ref_scan 0 At_Tag (bytes_at (mem ?w) (next_in (set_windows ?i demo_out st))
      (unat (avail_in (set_windows ?i demo_out st)))) = (0, At_Tag, [9], [])"
    by (simp add: bytes_at_def to_uInt_def upt_conv_Cons)
  note f = ref_inflate_call [OF c [simplified ref_env_sel ref_zlib_sel] _ sc]
  have L2: "L (zstate (set_windows ?i demo_out st)) = Some (Ref_Dec 0 At_Tag [])" using L by simp
  have "r = Z_OK \<or> r = Z_BUF_ERROR" "avail_in st' = 0"
    "given (set_windows ?i demo_out st) st' = 1"
    using f(4,6) [OF L2] taken_all [OF _ f(1) [OF L2]] f(3) [OF L2] by (auto simp: to_uInt_def)
  with swell_accepts_truncated [OF ref_env_ok ref_world_wf _ _ st c] show ?thesis by auto
qed

end
