(* ===== verification/One_Shot_Unfinished.thy ===== *)
theory One_Shot_Unfinished
  imports One_Shot_Properties
begin

text \<open>
  What \<open>squeeze\<close> does when the output is not enough. \<open>zlib_backend::bound\<close> (\<open>src/detail/zlib.cpp\<close>)
  answers zlib's \<open>compressBound\<close> for every container, and zlib promises it for its own container
  only: a gzip member has a header and trailer of 18 bytes where the bound allows for 6. When
  \<open>deflate\<close> stops for want of room, \<open>zlib_squeezer::push\<close> reports progress that is not done,
  and \<open>squeeze\<close> does not look at \<open>done\<close>.
\<close>

lemma reply_patched_value:
  assumes "pg_out p \<le> span_size out"
  obtains m where "reply_patched f out (Inr p, w) = Inr (Inr \<lparr>bytes_written = pg_out p\<rparr>, w\<lparr>mem := m\<rparr>)"
    "\<And>k. k \<noteq> 9 \<or> f \<noteq> Fmt_Gzip \<Longrightarrow> m (span_data out + k) = mem w (span_data out + k)"
proof (cases "f = Fmt_Gzip \<and> 10 \<le> pg_out p")
  case True
  then have "9 < unat (span_size out)" using assms by (simp add: word_le_nat_alt)
  with True show thesis
    by (intro that [of "(mem w)(span_data out + 9 := 0xff)"]) (auto simp: reply_patched_def span_store_def)
next
  case False
  then show thesis by (intro that [of "mem w"]) (auto simp: reply_patched_def)
qed

text \<open>
  C32: a compressed stream that does not fit is reported as success. When the checks of \<open>squeeze\<close>
  pass and the finishing \<open>deflate\<close> stops with \<open>Z_OK\<close>, which zlib documents as "not finished, call
  again with more output space", \<open>squeeze\<close> returns a value: the whole output span is counted as
  written, the bytes are the beginning of a stream (a gzip OS byte apart), and its end is missing.
\<close>

theorem squeeze_accepts_unfinished:
  fixes E :: "(64, 'b) env" and w :: "(64, 'b, 'm) world_scheme"
  assumes ok: "env_ok E" "wf_world w" "zlib_code_contract (zlib E)"
    and f: "is_zlib_format f" "refusal E f lvl (span_size i) (span_size out) = None"
    and init: "deflateInit2 (zlib E) zero_stream (sint (zlib_level_int lvl)) 8 (window_bits_for f) 8 0 (lib w)
      = (Z_OK, st, L)"
    and call: "deflate (zlib E) (set_windows i out st) Z_FINISH (mem w) L = (Z_OK, st', m', L')"
    and small: "unat (span_size out) < 2 ^ 32"
  shows "\<exists>x w'. squeeze E f lvl i out w = Inr (Inr x, w') \<and> bytes_written x = span_size out \<and>
    (\<forall>k. k \<noteq> 9 \<or> f \<noteq> Fmt_Gzip \<longrightarrow> mem w' (span_data out + k) = m' (span_data out + k))"
proof -
  have lawful: "zlib_heap_contract (zlib E)" using ok(1) by (simp add: env_ok_def)
  define w1 where "w1 = w\<lparr>zstreams := (zstreams w)(brk w \<mapsto> st), brk := Suc (brk w), lib := L\<rparr>"
  have mk: "zlib_squeezer_new E f lvl w = Inr (\<lparr>zsq_stream = brk w\<rparr>, w1)"
    unfolding w1_def by (rule zlib_squeezer_new_run [OF init])
  have w1: "zstreams w1 (brk w) = Some st" by (simp add: w1_def)
  have c: "deflate (zlib E) (set_windows i out st) Z_FINISH (mem w1) (lib w1) = (Z_OK, st', m', L')"
    using call by (simp add: w1_def)
  have "wf_world w1" using zlib_squeezer_once.create_fresh [OF lawful ok(2) mk] by blast
  then have "0 \<notin> dom (lib w1)" by (simp add: wf_world_def)
  note n = zio_counts_64 [OF zlib_step_okD(1) [OF zlib_contract_steps(1) [OF lawful] this c]]
  have "avail_out st' = 0" using ok(3) call unfolding zlib_code_contract_def by blast
  then have full: "(of_nat (given (set_windows i out st) st') :: u64) = span_size out"
    using small by (simp add: given_def unat_to_uInt_small)
  let ?p = "mk_progress (of_nat (taken (set_windows i out st) st')) (span_size out) False"
  let ?w2 = "w1\<lparr>mem := m', lib := L', zstreams := (zstreams w1)(brk w \<mapsto> st')\<rparr>"
  have op: "zlib_squeezer_push E \<lparr>zsq_stream = brk w\<rparr> i out w1 = Inr (Inr ?p, ?w2)"
    using zcall_run [where call = "deflate (zlib E)", OF w1 c] n(1,2) full
    by (simp add: zlib_squeezer_push_def)
  obtain m where af: "reply_patched f out (Inr ?p, ?w2) = Inr (Inr \<lparr>bytes_written = pg_out ?p\<rparr>, ?w2\<lparr>mem := m\<rparr>)"
    and m: "\<And>k. k \<noteq> 9 \<or> f \<noteq> Fmt_Gzip \<Longrightarrow> m (span_data out + k) = mem ?w2 (span_data out + k)"
    by (rule reply_patched_value [of ?p out f ?w2]) simp_all
  have "\<exists>w'. zlib_squeeze E f lvl i out w = Inr (Inr \<lparr>bytes_written = pg_out ?p\<rparr>, w') \<and> mem w' = m"
    unfolding zlib_squeeze_def
    by (rule zlib_squeezer_once.one_call_value [where after = "reply_patched f out", OF lawful ok(2) mk op af]) simp
  then show ?thesis using f refusal_zlib(3) [OF f(2,1)] m by (force simp: squeeze_branches)
qed

text \<open>An engine whose bound, like zlib's, leaves too little room for a gzip header.\<close>

definition tight_env :: "(64, ref_state) env" where
  "tight_env = (ref_env 3 True)\<lparr>zlib := (ref_zlib 3)\<lparr>compressBound := (\<lambda>n. n + 13)\<rparr>\<rparr>"

lemma tight_env_ok: "env_ok tight_env" "zlib_code_contract (zlib tight_env)"
  using ref_env_ok [of 3 True] ref_zlib_codes [of 3]
  by (simp_all add: tight_env_def env_ok_def zlib_heap_contract_def zlib_code_contract_def)

lemma squeeze_accepts_unfinished_witness:
  "\<exists>x w'. squeeze tight_env Fmt_Gzip zlib_best demo_in \<lparr>span_data = 2000, span_size = 18\<rparr> demo_world = Inr (Inr x, w') \<and>
    bytes_written x = 18"
proof -
  let ?o = "\<lparr>span_data = 2000, span_size = 18\<rparr>"
  obtain st L where i: "deflateInit2 (zlib tight_env) zero_stream (sint (zlib_level_int zlib_best)) 8
      (window_bits_for Fmt_Gzip) 8 0 (lib demo_world) = (Z_OK, st, L)"
    and b: "L (zstate st) = Some (Ref_Enc (ref_header 3 31) False)"
    using ref_init_state by (fastforce simp: tight_env_def ref_init_def zlib_best_def demo_world_def split: option.splits)
  obtain r st' m' L' where c: "deflate (zlib tight_env) (set_windows demo_in ?o st) Z_FINISH (mem demo_world) L = (r, st', m', L')"
    by (metis prod_cases4)
  have "r = Z_OK"
    using ref_deflate_call(6) [of "set_windows demo_in ?o st" Z_FINISH "mem demo_world" L r st' m' L' "ref_header 3 31" False] c b
    by (simp add: tight_env_def to_uInt_def ref_header_def bytes_at_def upt_conv_Cons)
  moreover have "refusal tight_env Fmt_Gzip zlib_best (span_size demo_in) (span_size ?o) = None"
    by (simp add: refusal_None_iff backend_present_def bound_def zlib_bound_def tight_env_def Let_def level_in_range_def zlib_best_def)
  ultimately show ?thesis
    using squeeze_accepts_unfinished [OF tight_env_ok(1) _ tight_env_ok(2) _ _ i, where out = ?o and i = demo_in] c by auto
qed

end
