(* ===== verification/Backend_Dispatch.thy ===== *)
theory Backend_Dispatch
  imports One_Shot
begin

text \<open>
  The concept of \<open>include/detail/backend.hpp\<close> as a record of operations, the two backend types
  of \<open>src/detail/zlib.hpp\<close> and \<open>src/detail/zstd.hpp\<close> as values of it, and the choice of a backend
  by the one-shot layer against the formats that each of them lists.
\<close>

section \<open>The concept\<close>

record ('lvl, 'h, 's, 'w) backend =
  be_id :: backend_id
  be_formats :: "format list"
  be_make_squeezer :: "format \<Rightarrow> 'lvl \<Rightarrow> 'w \<Rightarrow> ('h \<times> 'w) run"
  be_make_sweller :: "format \<Rightarrow> 'w \<Rightarrow> ('s \<times> 'w) run"
  be_bound :: "'lvl \<Rightarrow> u64 \<Rightarrow> u64"
  be_push :: "'h \<Rightarrow> span \<Rightarrow> span \<Rightarrow> 'w \<Rightarrow> (op_result \<times> 'w) run"
  be_flush :: "'h \<Rightarrow> span \<Rightarrow> 'w \<Rightarrow> (op_result \<times> 'w) run"
  be_finish :: "'h \<Rightarrow> span \<Rightarrow> 'w \<Rightarrow> (op_result \<times> 'w) run"

definition zlib_backend ::
  "('l::len, 'b) env \<Rightarrow> (zlib_level, zlib_squeezer, zlib_sweller, ('l, 'b, 'm) world_scheme) backend" where
  "zlib_backend E = \<lparr>
     be_id = Zlib_Id,
     be_formats = zlib_formats,
     be_make_squeezer = zlib_backend_make_squeezer E,
     be_make_sweller = zlib_backend_make_sweller E,
     be_bound = zlib_bound E,
     be_push = zlib_backend_push E,
     be_flush = zlib_backend_flush E,
     be_finish = zlib_backend_finish E\<rparr>"

definition zstd_backend ::
  "('l::len, 'b) env \<Rightarrow> (zstd_level, zstd_squeezer, zstd_sweller, ('l, 'b, 'm) world_scheme) backend" where
  "zstd_backend E = \<lparr>
     be_id = Zstd_Id,
     be_formats = zstd_formats,
     be_make_squeezer = zstd_backend_make_squeezer E,
     be_make_sweller = zstd_backend_make_sweller E,
     be_bound = zstd_bound E,
     be_push = zstd_backend_push E,
     be_flush = zstd_backend_flush E,
     be_finish = zstd_backend_finish E\<rparr>"

section \<open>The choice of a backend\<close>

lemma backend_sel [simp]:
  "be_formats (zlib_backend E) = zlib_formats" "be_formats (zstd_backend E) = zstd_formats"
  "be_id (zlib_backend E) = Zlib_Id" "be_id (zstd_backend E) = Zstd_Id"
  "be_bound (zlib_backend E) = zlib_bound E" "be_bound (zstd_backend E) = zstd_bound E"
  by (simp_all add: zlib_backend_def zstd_backend_def)

lemma zlib_formats_set: "set zlib_formats = {f. is_zlib_format f}" "set zstd_formats = {Fmt_Zstd}"
  by (auto simp: zlib_formats_def zstd_formats_def is_zlib_format_def)

text \<open>
  The preprocessor branches of \<open>squeeze.cpp\<close> follow the lists of the concept: a format has a
  backend in a build exactly where one that is compiled in lists it.
\<close>

lemma served_formats:
  "backend_present E f \<longleftrightarrow>
     (f \<in> set (be_formats (zlib_backend E)) \<and> has_zlib E) \<or> (f \<in> set (be_formats (zstd_backend E)) \<and> has_zstd E)"
  by (cases f) (simp_all add: backend_present_def zlib_formats_set)

text \<open>Where none does, the one-shot calls answer \<open>format_mismatch\<close>, and the bound is 0.\<close>

lemma unserved_formats:
  assumes "\<not> backend_present E f"
  shows "squeeze E f lvl i out w = Inr (Inl no_such_format, w)" "swell E f i out w = Inr (Inl no_such_format, w)"
    "bound E f lvl n = 0"
  using assms by (cases f; simp add: squeeze_def swell_def bound_def backend_present_def Let_def)+

text \<open>The bound is the one the chosen backend's operation gives.\<close>

lemma bound_of_backend:
  "f \<in> set (be_formats (zlib_backend E)) \<Longrightarrow> has_zlib E \<Longrightarrow> bound E f lvl n = be_bound (zlib_backend E) lvl n"
  "f \<in> set (be_formats (zstd_backend E)) \<Longrightarrow> has_zstd E \<Longrightarrow>
     bound E f lvl n = be_bound (zstd_backend E) zstd_default_level n"
  by (cases f; simp add: bound_def zlib_formats_set)+

end
