(* ===== verification/Stream_Variants.thy ===== *)
theory Stream_Variants
  imports Handle_Creation
begin

text \<open>
  The unnamed namespace of \<open>src/stream.cpp\<close>: the handle variants with their stubs for the
  backends that are not compiled in, the three visitors, and \<open>make_squeezer\<close> and
  \<open>make_sweller\<close>. The variants then satisfy the same contracts as the handles inside them.
\<close>

section \<open>The variants\<close>

text \<open>
  A build has two alternatives of each variant, chosen by the preprocessor; the datatype has
  the four that occur. A stub holds nothing.
\<close>

datatype squeezer_variant =
    Zlib_Squeezer zlib_squeezer
  | Zlib_Stub_Squeezer
  | Zstd_Squeezer zstd_squeezer
  | Zstd_Stub_Squeezer

datatype sweller_variant =
    Zlib_Sweller zlib_sweller
  | Zlib_Stub_Sweller
  | Zstd_Sweller zstd_sweller
  | Zstd_Stub_Sweller

text \<open>The destructor of a variant runs the destructor of its alternative.\<close>

fun squeezer_variant_delete ::
  "('l::len, 'b) env \<Rightarrow> squeezer_variant \<Rightarrow> ('l, 'b, 'm) world_scheme \<Rightarrow> ('l, 'b, 'm) world_scheme run"
  where
  "squeezer_variant_delete E (Zlib_Squeezer h) w = zlib_squeezer_delete E h w"
| "squeezer_variant_delete E Zlib_Stub_Squeezer w = Inr w"
| "squeezer_variant_delete E (Zstd_Squeezer h) w = zstd_squeezer_delete E h w"
| "squeezer_variant_delete E Zstd_Stub_Squeezer w = Inr w"

fun sweller_variant_delete ::
  "('l::len, 'b) env \<Rightarrow> sweller_variant \<Rightarrow> ('l, 'b, 'm) world_scheme \<Rightarrow> ('l, 'b, 'm) world_scheme run"
  where
  "sweller_variant_delete E (Zlib_Sweller h) w = zlib_sweller_delete E h w"
| "sweller_variant_delete E Zlib_Stub_Sweller w = Inr w"
| "sweller_variant_delete E (Zstd_Sweller h) w = zstd_sweller_delete E h w"
| "sweller_variant_delete E Zstd_Stub_Sweller w = Inr w"

section \<open>The visitors\<close>

definition format_mismatch_err :: error where
  "format_mismatch_err = mk_error Format_Mismatch No_Backend 0 ''''"

record push_out =
  po_in :: u64
  po_out :: u64
  po_done :: bool

type_synonym visit_result = "error + push_out"

definition mk_push_out :: "u64 \<Rightarrow> u64 \<Rightarrow> bool \<Rightarrow> push_out" where
  "mk_push_out i out d = \<lparr>po_in = i, po_out = out, po_done = d\<rparr>"

lemma mk_push_out_sel [simp]:
  "po_in (mk_push_out i out d) = i" "po_out (mk_push_out i out d) = out"
  "po_done (mk_push_out i out d) = d"
  by (simp_all add: mk_push_out_def)

text \<open>\<open>if (!r) return std::unexpected(r.error()); return push_out{...}\<close>\<close>

definition adapt ::
  "(progress \<Rightarrow> push_out) \<Rightarrow> op_result \<times> 'w \<Rightarrow> (visit_result \<times> 'w) run" where
  "adapt g = (\<lambda>(r, w). case r of Inl e \<Rightarrow> Inr (Inl e, w) | Inr p \<Rightarrow> Inr (Inr (g p), w))"

fun push_visit_squeezer ::
  "('l::len, 'b) env \<Rightarrow> span \<Rightarrow> span \<Rightarrow> squeezer_variant \<Rightarrow> ('l, 'b, 'm) world_scheme
    \<Rightarrow> (visit_result \<times> ('l, 'b, 'm) world_scheme) run" where
  "push_visit_squeezer E i out (Zlib_Squeezer h) w =
     chain (zlib_squeezer_push_more E h i out w) (adapt (\<lambda>r. mk_push_out (pg_in r) (pg_out r) False))"
| "push_visit_squeezer E i out (Zstd_Squeezer h) w =
     chain (zstd_squeezer_push_more E h i out w) (adapt (\<lambda>r. mk_push_out (pg_in r) (pg_out r) False))"
| "push_visit_squeezer E i out _ w = Inr (Inl format_mismatch_err, w)"

fun push_visit_sweller ::
  "('l::len, 'b) env \<Rightarrow> span \<Rightarrow> span \<Rightarrow> sweller_variant \<Rightarrow> ('l, 'b, 'm) world_scheme
    \<Rightarrow> (visit_result \<times> ('l, 'b, 'm) world_scheme) run" where
  "push_visit_sweller E i out (Zlib_Sweller h) w =
     chain (zlib_sweller_push_more E h i out w)
       (adapt (\<lambda>r. mk_push_out (pg_in r) (pg_out r) (pg_done r)))"
| "push_visit_sweller E i out (Zstd_Sweller h) w =
     chain (zstd_sweller_push_more E h i out w)
       (adapt (\<lambda>r. mk_push_out (pg_in r) (pg_out r) (pg_done r)))"
| "push_visit_sweller E i out _ w = Inr (Inl format_mismatch_err, w)"

fun flush_visit ::
  "('l::len, 'b) env \<Rightarrow> span \<Rightarrow> squeezer_variant \<Rightarrow> ('l, 'b, 'm) world_scheme
    \<Rightarrow> (visit_result \<times> ('l, 'b, 'm) world_scheme) run" where
  "flush_visit E out (Zlib_Squeezer h) w =
     chain (zlib_squeezer_flush E h out w) (adapt (\<lambda>r. mk_push_out 0 (pg_out r) False))"
| "flush_visit E out (Zstd_Squeezer h) w =
     chain (zstd_squeezer_flush E h out w) (adapt (\<lambda>r. mk_push_out 0 (pg_out r) False))"
| "flush_visit E out _ w = Inr (Inl format_mismatch_err, w)"

fun finish_visit ::
  "('l::len, 'b) env \<Rightarrow> span \<Rightarrow> squeezer_variant \<Rightarrow> ('l, 'b, 'm) world_scheme
    \<Rightarrow> (visit_result \<times> ('l, 'b, 'm) world_scheme) run" where
  "finish_visit E out (Zlib_Squeezer h) w =
     chain (zlib_squeezer_finish E h out w) (adapt (\<lambda>r. mk_push_out 0 (pg_out r) True))"
| "finish_visit E out (Zstd_Squeezer h) w =
     chain (zstd_squeezer_finish E h out w) (adapt (\<lambda>r. mk_push_out 0 (pg_out r) True))"
| "finish_visit E out _ w = Inr (Inl format_mismatch_err, w)"

section \<open>make_squeezer and make_sweller\<close>

text \<open>
  \<open>return detail::zlib_squeezer{f, lvl};\<close> builds a temporary, moves it into the variant, and
  destroys the moved-from temporary.
\<close>

definition zlib_into_variant ::
  "('l::len, 'b) env \<Rightarrow> format \<Rightarrow> zlib_level \<Rightarrow> ('l, 'b, 'm) world_scheme
    \<Rightarrow> (squeezer_variant \<times> ('l, 'b, 'm) world_scheme) run" where
  "zlib_into_variant E f lvl w =
     chain (zlib_squeezer_new E f lvl w) (\<lambda>(tmp, w1).
       let (h, tmp') = zlib_squeezer_move tmp
       in chain (zlib_squeezer_delete E tmp' w1) (\<lambda>w2. Inr (Zlib_Squeezer h, w2)))"

definition zstd_into_variant ::
  "('l::len, 'b) env \<Rightarrow> format \<Rightarrow> zstd_level \<Rightarrow> ('l, 'b, 'm) world_scheme
    \<Rightarrow> (squeezer_variant \<times> ('l, 'b, 'm) world_scheme) run" where
  "zstd_into_variant E f lvl w =
     chain (zstd_squeezer_new E f lvl w) (\<lambda>(tmp, w1).
       let (h, tmp') = zstd_squeezer_move tmp
       in chain (zstd_squeezer_delete E tmp' w1) (\<lambda>w2. Inr (Zstd_Squeezer h, w2)))"

definition zlib_into_sweller_variant ::
  "('l::len, 'b) env \<Rightarrow> format \<Rightarrow> ('l, 'b, 'm) world_scheme
    \<Rightarrow> (sweller_variant \<times> ('l, 'b, 'm) world_scheme) run" where
  "zlib_into_sweller_variant E f w =
     chain (zlib_sweller_new E f w) (\<lambda>(tmp, w1).
       let (h, tmp') = zlib_sweller_move tmp
       in chain (zlib_sweller_delete E tmp' w1) (\<lambda>w2. Inr (Zlib_Sweller h, w2)))"

definition zstd_into_sweller_variant ::
  "('l::len, 'b) env \<Rightarrow> format \<Rightarrow> ('l, 'b, 'm) world_scheme
    \<Rightarrow> (sweller_variant \<times> ('l, 'b, 'm) world_scheme) run" where
  "zstd_into_sweller_variant E f w =
     chain (zstd_sweller_new E f w) (\<lambda>(tmp, w1).
       let (h, tmp') = zstd_sweller_move tmp
       in chain (zstd_sweller_delete E tmp' w1) (\<lambda>w2. Inr (Zstd_Sweller h, w2)))"

definition make_squeezer ::
  "('l::len, 'b) env \<Rightarrow> format \<Rightarrow> zlib_level \<Rightarrow> ('l, 'b, 'm) world_scheme
    \<Rightarrow> (squeezer_variant \<times> ('l, 'b, 'm) world_scheme) run" where
  "make_squeezer E f lvl w = (case f of
     Fmt_Zstd \<Rightarrow>
       if has_zstd E then zstd_into_variant E f (Zstd_Level (zlib_level_int lvl)) w
       else Inr (Zstd_Stub_Squeezer, w)
   | _ \<Rightarrow>
       if has_zlib E then zlib_into_variant E f lvl w
       else Inr (Zlib_Stub_Squeezer, w))"

definition make_sweller ::
  "('l::len, 'b) env \<Rightarrow> format \<Rightarrow> ('l, 'b, 'm) world_scheme
    \<Rightarrow> (sweller_variant \<times> ('l, 'b, 'm) world_scheme) run" where
  "make_sweller E f w = (case f of
     Fmt_Zstd \<Rightarrow>
       if has_zstd E then zstd_into_sweller_variant E f w else Inr (Zstd_Stub_Sweller, w)
   | _ \<Rightarrow>
       if has_zlib E then zlib_into_sweller_variant E f w else Inr (Zlib_Stub_Sweller, w))"

lemma handle_record_eqs [simp]:
  "\<lparr>zsq_stream = zsq_stream h1\<rparr> = h1" "\<lparr>zsw_stream = zsw_stream h2\<rparr> = h2"
  "\<lparr>cctx = cctx h3, csq_fmt = csq_fmt h3, csq_level = csq_level h3\<rparr> = h3"
  "\<lparr>dctx = dctx h4, dsw_fmt = dsw_fmt h4\<rparr> = h4"
  by simp_all

lemma zlib_into_variant_eq:
  "zlib_into_variant E f lvl w =
     chain (zlib_squeezer_new E f lvl w) (\<lambda>(h, w1). Inr (Zlib_Squeezer h, w1))"
  by (simp add: zlib_into_variant_def zlib_squeezer_move_def zlib_squeezer_delete_def)

lemma zstd_into_variant_eq:
  "zstd_into_variant E f lvl w =
     chain (zstd_squeezer_new E f lvl w) (\<lambda>(h, w1). Inr (Zstd_Squeezer h, w1))"
  by (simp add: zstd_into_variant_def zstd_squeezer_move_def zstd_squeezer_delete_def)

lemma zlib_into_sweller_variant_eq:
  "zlib_into_sweller_variant E f w =
     chain (zlib_sweller_new E f w) (\<lambda>(h, w1). Inr (Zlib_Sweller h, w1))"
  by (simp add: zlib_into_sweller_variant_def zlib_sweller_move_def zlib_sweller_delete_def)

lemma zstd_into_sweller_variant_eq:
  "zstd_into_sweller_variant E f w =
     chain (zstd_sweller_new E f w) (\<lambda>(h, w1). Inr (Zstd_Sweller h, w1))"
  by (simp add: zstd_into_sweller_variant_def zstd_sweller_move_def zstd_sweller_delete_def)

lemmas into_variant_eqs = zlib_into_variant_eq zstd_into_variant_eq
  zlib_into_sweller_variant_eq zstd_into_sweller_variant_eq

section \<open>The footprint of a variant\<close>

fun sq_cells :: "squeezer_variant \<Rightarrow> ('l::len, 'b, 'm) world_scheme \<Rightarrow> addr set" where
  "sq_cells (Zlib_Squeezer h) w = zcells (zsq_stream h) w"
| "sq_cells (Zstd_Squeezer h) w = ctx_cells (cctx h) w"
| "sq_cells _ w = {}"

fun sq_objects :: "squeezer_variant \<Rightarrow> ('l::len, 'b, 'm) world_scheme \<Rightarrow> addr set" where
  "sq_objects (Zlib_Squeezer h) w = zobjects (zsq_stream h) w"
| "sq_objects (Zstd_Squeezer h) w = ctx_objects (cctx h) w"
| "sq_objects _ w = {}"

text \<open>\<open>sq_owned\<close> is what destruction needs, \<open>sq_ready\<close> what the calls need.\<close>

fun sq_owned :: "squeezer_variant \<Rightarrow> ('l::len, 'b, 'm) world_scheme \<Rightarrow> bool" where
  "sq_owned (Zlib_Squeezer h) w = zready (zsq_stream h) w"
| "sq_owned (Zstd_Squeezer h) w = ctx_owned (cctx h) w"
| "sq_owned _ w = True"

fun sq_ready :: "squeezer_variant \<Rightarrow> ('l::len, 'b, 'm) world_scheme \<Rightarrow> bool" where
  "sq_ready (Zlib_Squeezer h) w = zready (zsq_stream h) w"
| "sq_ready (Zstd_Squeezer h) w = ctx_ready (cctx h) w"
| "sq_ready _ w = True"

fun sw_cells :: "sweller_variant \<Rightarrow> ('l::len, 'b, 'm) world_scheme \<Rightarrow> addr set" where
  "sw_cells (Zlib_Sweller h) w = zcells (zsw_stream h) w"
| "sw_cells (Zstd_Sweller h) w = ctx_cells (dctx h) w"
| "sw_cells _ w = {}"

fun sw_objects :: "sweller_variant \<Rightarrow> ('l::len, 'b, 'm) world_scheme \<Rightarrow> addr set" where
  "sw_objects (Zlib_Sweller h) w = zobjects (zsw_stream h) w"
| "sw_objects (Zstd_Sweller h) w = ctx_objects (dctx h) w"
| "sw_objects _ w = {}"

fun sw_owned :: "sweller_variant \<Rightarrow> ('l::len, 'b, 'm) world_scheme \<Rightarrow> bool" where
  "sw_owned (Zlib_Sweller h) w = zready (zsw_stream h) w"
| "sw_owned (Zstd_Sweller h) w = ctx_owned (dctx h) w"
| "sw_owned _ w = True"

fun sw_ready :: "sweller_variant \<Rightarrow> ('l::len, 'b, 'm) world_scheme \<Rightarrow> bool" where
  "sw_ready (Zlib_Sweller h) w = zready (zsw_stream h) w"
| "sw_ready (Zstd_Sweller h) w = ctx_ready (dctx h) w"
| "sw_ready _ w = True"

lemma ready_owned: "sq_ready v w \<Longrightarrow> sq_owned v w" "sw_ready u w \<Longrightarrow> sw_owned u w"
  by (cases v; simp add: ctx_ready_def ctx_owned_def; fail)
    (cases u; simp add: ctx_ready_def ctx_owned_def)

lemma chain_adapt:
  "chain x (adapt g) = Inr (r, w') \<longleftrightarrow> (\<exists>y. x = Inr (y, w') \<and> r = map_sum id g y)"
  by (cases x) (auto simp: adapt_def split: sum.splits)

lemma chain_adapt_split:
  "chain x (adapt g) = Inr (Inr r, w') \<longleftrightarrow> (\<exists>p. x = Inr (Inr p, w') \<and> r = g p)"
  "chain x (adapt g) = Inr (Inl e, w') \<longleftrightarrow> x = Inr (Inl e, w')"
  by (cases x; auto simp: adapt_def split: sum.splits)+

section \<open>The variants satisfy the contracts of their handles\<close>

interpretation squeezer_variant_life: raii_handle
  "make_squeezer E f lvl" "squeezer_variant_delete E" sq_cells sq_objects sq_owned "env_ok E"
  for E :: "('l::len, 'b) env" and f lvl
proof (unfold_locales, goal_cases)
  case (1 w v w')
  then have laws: "zlib_heap_contract (zlib E)" "zstd_heap_contract (zstd E)"
    by (simp_all add: env_ok_def)
  consider (zl) h where "zlib_squeezer_new E f lvl w = Inr (h, w')" "v = Zlib_Squeezer h"
    | (zs) h where "zstd_squeezer_new E f (Zstd_Level (zlib_level_int lvl)) w = Inr (h, w')"
        "v = Zstd_Squeezer h"
    | (stub) "w' = w" "v = Zlib_Stub_Squeezer \<or> v = Zstd_Stub_Squeezer"
    using 1(3) by (cases f) (auto simp: make_squeezer_def into_variant_eqs chain_Inr_iff split: if_splits)
  then show ?case
  proof cases
    case zl
    from zlib_squeezer_once.create_fresh [OF laws(1) 1(2) zl(1)] zl(2) show ?thesis by simp
  next
    case zs
    from zstd_squeezer_once.create_fresh [OF laws(2) 1(2) zs(1)] zs(2) show ?thesis by simp
  next
    case stub
    with 1(2) show ?thesis by auto
  qed
next
  case (2 w v)
  then have laws: "zlib_heap_contract (zlib E)" "zstd_heap_contract (zstd E)"
    by (simp_all add: env_ok_def)
  show ?case
  proof (cases v)
    case (Zlib_Squeezer h)
    with zlib_squeezer_once.destroy_frees [OF laws(1) 2(2), of h] 2(3) show ?thesis by simp
  next
    case (Zstd_Squeezer h)
    with zstd_squeezer_once.destroy_frees [OF laws(2) 2(2), of h] 2(3) show ?thesis by simp
  qed (use 2(2) in auto)
qed

interpretation sweller_variant_life: raii_handle
  "make_sweller E f" "sweller_variant_delete E" sw_cells sw_objects sw_owned "env_ok E"
  for E :: "('l::len, 'b) env" and f
proof (unfold_locales, goal_cases)
  case (1 w v w')
  then have laws: "zlib_heap_contract (zlib E)" "zstd_heap_contract (zstd E)"
    by (simp_all add: env_ok_def)
  consider (zl) h where "zlib_sweller_new E f w = Inr (h, w')" "v = Zlib_Sweller h"
    | (zs) h where "zstd_sweller_new E f w = Inr (h, w')" "v = Zstd_Sweller h"
    | (stub) "w' = w" "v = Zlib_Stub_Sweller \<or> v = Zstd_Stub_Sweller"
    using 1(3) by (cases f) (auto simp: make_sweller_def into_variant_eqs chain_Inr_iff split: if_splits)
  then show ?case
  proof cases
    case zl
    from zlib_sweller_once.create_fresh [OF laws(1) 1(2) zl(1)] zl(2) show ?thesis by simp
  next
    case zs
    from zstd_sweller_once.create_fresh [OF laws(2) 1(2) zs(1)] zs(2) show ?thesis by simp
  next
    case stub
    with 1(2) show ?thesis by auto
  qed
next
  case (2 w v)
  then have laws: "zlib_heap_contract (zlib E)" "zstd_heap_contract (zstd E)"
    by (simp_all add: env_ok_def)
  show ?case
  proof (cases v)
    case (Zlib_Sweller h)
    with zlib_sweller_once.destroy_frees [OF laws(1) 2(2), of h] 2(3) show ?thesis by simp
  next
    case (Zstd_Sweller h)
    with zstd_sweller_once.destroy_frees [OF laws(2) 2(2), of h] 2(3) show ?thesis by simp
  qed (use 2(2) in auto)
qed

interpretation squeezer_variant_push: handle_op
  "\<lambda>v i out. push_visit_squeezer E i out v" sq_cells sq_objects sq_ready "env_ok E"
  for E :: "('l::len, 'b) env"
proof (unfold_locales, goal_cases)
  case (1 w v i out)
  then have laws: "zlib_heap_contract (zlib E)" "zstd_heap_contract (zstd E)"
    by (simp_all add: env_ok_def)
  show ?case
  proof (cases v)
    case (Zlib_Squeezer h)
    with zlib_squeezer_more.op_defined [OF laws(1) 1(2), of h] 1(3-) show ?thesis
      by (fastforce simp: chain_adapt)
  next
    case (Zstd_Squeezer h)
    with zstd_squeezer_more.op_defined [OF laws(2) 1(2), of h] 1(3-) show ?thesis
      by (fastforce simp: chain_adapt)
  qed (use 1 in auto)
next
  case (2 w v i out r w')
  then have laws: "zlib_heap_contract (zlib E)" "zstd_heap_contract (zstd E)"
    by (simp_all add: env_ok_def)
  show ?case
  proof (cases v)
    case (Zlib_Squeezer h)
    with zlib_squeezer_more.op_frame [OF laws(1) 2(2), of h] 2(3-) show ?thesis
      by (fastforce simp: chain_adapt)
  next
    case (Zstd_Squeezer h)
    with zstd_squeezer_more.op_frame [OF laws(2) 2(2), of h] 2(3-) show ?thesis
      by (fastforce simp: chain_adapt)
  qed (use 2 in auto)
next
  case (3 w v i out r w')
  then have laws: "zlib_heap_contract (zlib E)" "zstd_heap_contract (zstd E)"
    by (simp_all add: env_ok_def)
  show ?case
  proof (cases v)
    case (Zlib_Squeezer h)
    with zlib_squeezer_more.op_writes [OF laws(1) 3(2), of h] 3(3-) show ?thesis
      by (fastforce simp: chain_adapt)
  next
    case (Zstd_Squeezer h)
    with zstd_squeezer_more.op_writes [OF laws(2) 3(2), of h] 3(3-) show ?thesis
      by (fastforce simp: chain_adapt)
  qed (use 3 in auto)
qed

interpretation squeezer_variant_flush: handle_op
  "\<lambda>v i out. flush_visit E out v" sq_cells sq_objects sq_ready "env_ok E"
  for E :: "('l::len, 'b) env"
proof (unfold_locales, goal_cases)
  case (1 w v i out)
  then have laws: "zlib_heap_contract (zlib E)" "zstd_heap_contract (zstd E)"
    by (simp_all add: env_ok_def)
  show ?case
  proof (cases v)
    case (Zlib_Squeezer h)
    with zlib_squeezer_sync.op_defined [OF laws(1) 1(2), of h] 1(3-) show ?thesis
      by (fastforce simp: chain_adapt)
  next
    case (Zstd_Squeezer h)
    with zstd_squeezer_sync.op_defined [OF laws(2) 1(2), of h] 1(3-) show ?thesis
      by (fastforce simp: chain_adapt)
  qed (use 1 in auto)
next
  case (2 w v i out r w')
  then have laws: "zlib_heap_contract (zlib E)" "zstd_heap_contract (zstd E)"
    by (simp_all add: env_ok_def)
  show ?case
  proof (cases v)
    case (Zlib_Squeezer h)
    with zlib_squeezer_sync.op_frame [OF laws(1) 2(2), of h] 2(3-) show ?thesis
      by (fastforce simp: chain_adapt)
  next
    case (Zstd_Squeezer h)
    with zstd_squeezer_sync.op_frame [OF laws(2) 2(2), of h] 2(3-) show ?thesis
      by (fastforce simp: chain_adapt)
  qed (use 2 in auto)
next
  case (3 w v i out r w')
  then have laws: "zlib_heap_contract (zlib E)" "zstd_heap_contract (zstd E)"
    by (simp_all add: env_ok_def)
  show ?case
  proof (cases v)
    case (Zlib_Squeezer h)
    with zlib_squeezer_sync.op_writes [OF laws(1) 3(2), of h] 3(3-) show ?thesis
      by (fastforce simp: chain_adapt)
  next
    case (Zstd_Squeezer h)
    with zstd_squeezer_sync.op_writes [OF laws(2) 3(2), of h] 3(3-) show ?thesis
      by (fastforce simp: chain_adapt)
  qed (use 3 in auto)
qed

interpretation squeezer_variant_finish: handle_op
  "\<lambda>v i out. finish_visit E out v" sq_cells sq_objects sq_ready "env_ok E \<and> zstd_end_progress (zstd E)"
  for E :: "('l::len, 'b) env"
proof (unfold_locales, goal_cases)
  case (1 w v i out)
  then have laws: "zlib_heap_contract (zlib E)" "zstd_heap_contract (zstd E) \<and> zstd_end_progress (zstd E)"
    by (simp_all add: env_ok_def)
  show ?case
  proof (cases v)
    case (Zlib_Squeezer h)
    with zlib_squeezer_end.op_defined [OF laws(1) 1(2), of h] 1(3-) show ?thesis
      by (fastforce simp: chain_adapt)
  next
    case (Zstd_Squeezer h)
    with zstd_squeezer_end.op_defined [OF laws(2) 1(2), of h] 1(3-) show ?thesis
      by (fastforce simp: chain_adapt)
  qed (use 1 in auto)
next
  case (2 w v i out r w')
  then have laws: "zlib_heap_contract (zlib E)" "zstd_heap_contract (zstd E) \<and> zstd_end_progress (zstd E)"
    by (simp_all add: env_ok_def)
  show ?case
  proof (cases v)
    case (Zlib_Squeezer h)
    with zlib_squeezer_end.op_frame [OF laws(1) 2(2), of h] 2(3-) show ?thesis
      by (fastforce simp: chain_adapt)
  next
    case (Zstd_Squeezer h)
    with zstd_squeezer_end.op_frame [OF laws(2) 2(2), of h] 2(3-) show ?thesis
      by (fastforce simp: chain_adapt)
  qed (use 2 in auto)
next
  case (3 w v i out r w')
  then have laws: "zlib_heap_contract (zlib E)" "zstd_heap_contract (zstd E) \<and> zstd_end_progress (zstd E)"
    by (simp_all add: env_ok_def)
  show ?case
  proof (cases v)
    case (Zlib_Squeezer h)
    with zlib_squeezer_end.op_writes [OF laws(1) 3(2), of h] 3(3-) show ?thesis
      by (fastforce simp: chain_adapt)
  next
    case (Zstd_Squeezer h)
    with zstd_squeezer_end.op_writes [OF laws(2) 3(2), of h] 3(3-) show ?thesis
      by (fastforce simp: chain_adapt)
  qed (use 3 in auto)
qed

interpretation sweller_variant_push: handle_op
  "\<lambda>v i out. push_visit_sweller E i out v" sw_cells sw_objects sw_ready "env_ok E"
  for E :: "('l::len, 'b) env"
proof (unfold_locales, goal_cases)
  case (1 w v i out)
  then have laws: "zlib_heap_contract (zlib E)" "zstd_heap_contract (zstd E)"
    by (simp_all add: env_ok_def)
  show ?case
  proof (cases v)
    case (Zlib_Sweller h)
    with zlib_sweller_more.op_defined [OF laws(1) 1(2), of h] 1(3-) show ?thesis
      by (fastforce simp: chain_adapt)
  next
    case (Zstd_Sweller h)
    with zstd_sweller_more.op_defined [OF laws(2) 1(2), of h] 1(3-) show ?thesis
      by (fastforce simp: chain_adapt)
  qed (use 1 in auto)
next
  case (2 w v i out r w')
  then have laws: "zlib_heap_contract (zlib E)" "zstd_heap_contract (zstd E)"
    by (simp_all add: env_ok_def)
  show ?case
  proof (cases v)
    case (Zlib_Sweller h)
    with zlib_sweller_more.op_frame [OF laws(1) 2(2), of h] 2(3-) show ?thesis
      by (fastforce simp: chain_adapt)
  next
    case (Zstd_Sweller h)
    with zstd_sweller_more.op_frame [OF laws(2) 2(2), of h] 2(3-) show ?thesis
      by (fastforce simp: chain_adapt)
  qed (use 2 in auto)
next
  case (3 w v i out r w')
  then have laws: "zlib_heap_contract (zlib E)" "zstd_heap_contract (zstd E)"
    by (simp_all add: env_ok_def)
  show ?case
  proof (cases v)
    case (Zlib_Sweller h)
    with zlib_sweller_more.op_writes [OF laws(1) 3(2), of h] 3(3-) show ?thesis
      by (fastforce simp: chain_adapt)
  next
    case (Zstd_Sweller h)
    with zstd_sweller_more.op_writes [OF laws(2) 3(2), of h] 3(3-) show ?thesis
      by (fastforce simp: chain_adapt)
  qed (use 3 in auto)
qed

end
