(* ===== verification/Streaming.thy ===== *)
theory Streaming
  imports Stream_Variants
begin

text \<open>
  \<open>include/polliwog/stream.hpp\<close> and the public half of \<open>src/stream.cpp\<close>: \<open>compressor\<close> and
  \<open>decompressor\<close>, each a \<open>std::unique_ptr\<close> to an \<open>impl\<close> that holds one variant. The world is
  extended with the cells of the two kinds of \<open>impl\<close>.
\<close>

section \<open>State\<close>

record (overloaded) ('l, 'b) stream_world = "('l, 'b) world" +
  cimpls :: "addr \<rightharpoonup> squeezer_variant"
  dimpls :: "addr \<rightharpoonup> sweller_variant"

record compressor =
  cp_impl :: addr

record decompressor =
  dp_impl :: addr

record stream_result =
  bytes_consumed :: u64
  bytes_produced :: u64
  sr_done :: bool

type_synonym stream_reply = "error + stream_result"

text \<open>The exceptions of the C++ library that can leave a function of the repository.\<close>

datatype exn = Invalid_Argument string | Length_Error

definition wf_stream :: "('l::len, 'b, 'm) stream_world_scheme \<Rightarrow> bool" where
  "wf_stream w \<longleftrightarrow> wf_world w \<and> 0 \<notin> dom (cimpls w) \<and> 0 \<notin> dom (dimpls w) \<and>
     (\<forall>a. brk w \<le> a \<longrightarrow> cimpls w a = None \<and> dimpls w a = None)"

section \<open>compressor\<close>

text \<open>
  The constructor checks the level and throws before it allocates; \<open>std::make_unique\<close> then
  takes a cell and builds the variant in it.
\<close>

definition compressor_new ::
  "('l::len, 'b) env \<Rightarrow> format \<Rightarrow> zlib_level \<Rightarrow> ('l, 'b, 'm) stream_world_scheme
    \<Rightarrow> ((exn + compressor) \<times> ('l, 'b, 'm) stream_world_scheme) run" where
  "compressor_new E f lvl w =
     (let v = sint (zlib_level_int lvl)
      in if f \<noteq> Fmt_Zstd \<and> (v < 0 \<or> v > 9)
         then Inr (Inl (Invalid_Argument ''level_unsupported: zlib levels are 0-9''), w)
         else
           let p = brk w
           in chain (make_squeezer E f lvl (w\<lparr>brk := Suc p\<rparr>)) (\<lambda>(h, w1).
                Inr (Inr \<lparr>cp_impl = p\<rparr>, w1\<lparr>cimpls := (cimpls w1)(p \<mapsto> h)\<rparr>)))"

text \<open>Following \<open>p_\<close>: undefined when it is null or its cell is gone.\<close>

definition compressor_handle ::
  "compressor \<Rightarrow> ('l::len, 'b, 'm) stream_world_scheme \<Rightarrow> squeezer_variant run" where
  "compressor_handle c w =
     (case cimpls w (cp_impl c) of None \<Rightarrow> Inl Undefined_Behaviour | Some h \<Rightarrow> Inr h)"

text \<open>Deleting an \<open>impl\<close>: its variant is destroyed, then the cell is freed.\<close>

definition compressor_impl_delete ::
  "('l::len, 'b) env \<Rightarrow> compressor \<Rightarrow> ('l, 'b, 'm) stream_world_scheme
    \<Rightarrow> ('l, 'b, 'm) stream_world_scheme run" where
  "compressor_impl_delete E c w =
     chain (compressor_handle c w) (\<lambda>h.
     chain (squeezer_variant_delete E h w) (\<lambda>w1.
       Inr (w1\<lparr>cimpls := (cimpls w1)(cp_impl c := None)\<rparr>)))"

definition compressor_delete ::
  "('l::len, 'b) env \<Rightarrow> compressor \<Rightarrow> ('l, 'b, 'm) stream_world_scheme
    \<Rightarrow> ('l, 'b, 'm) stream_world_scheme run" where
  "compressor_delete E c w = (if cp_impl c = 0 then Inr w else compressor_impl_delete E c w)"

definition compressor_move :: "compressor \<Rightarrow> compressor \<times> compressor" where
  "compressor_move other = (\<lparr>cp_impl = cp_impl other\<rparr>, \<lparr>cp_impl = 0\<rparr>)"

text \<open>The defaulted move assignment: \<open>reset(other.release())\<close> on the \<open>unique_ptr\<close>.\<close>

definition compressor_assign ::
  "('l::len, 'b) env \<Rightarrow> bool \<Rightarrow> compressor \<Rightarrow> compressor \<Rightarrow> ('l, 'b, 'm) stream_world_scheme
    \<Rightarrow> ((compressor \<times> compressor) \<times> ('l, 'b, 'm) stream_world_scheme) run" where
  "compressor_assign E same self other w =
     (if same then Inr ((self, self), w)
      else chain (if cp_impl self = 0 then Inr w else compressor_impl_delete E self w)
        (\<lambda>w1. Inr ((\<lparr>cp_impl = cp_impl other\<rparr>, \<lparr>cp_impl = 0\<rparr>), w1)))"

definition stream_reply_of ::
  "(push_out \<Rightarrow> stream_result) \<Rightarrow> visit_result \<times> 'w \<Rightarrow> (stream_reply \<times> 'w) run" where
  "stream_reply_of g = (\<lambda>(r, w). case r of Inl e \<Rightarrow> Inr (Inl e, w) | Inr p \<Rightarrow> Inr (Inr (g p), w))"

definition compressor_push ::
  "('l::len, 'b) env \<Rightarrow> compressor \<Rightarrow> span \<Rightarrow> span \<Rightarrow> ('l, 'b, 'm) stream_world_scheme
    \<Rightarrow> (stream_reply \<times> ('l, 'b, 'm) stream_world_scheme) run" where
  "compressor_push E c i out w =
     chain (compressor_handle c w) (\<lambda>h.
     chain (push_visit_squeezer E i out h w) (stream_reply_of
       (\<lambda>r. \<lparr>bytes_consumed = po_in r, bytes_produced = po_out r, sr_done = False\<rparr>)))"

definition compressor_flush ::
  "('l::len, 'b) env \<Rightarrow> compressor \<Rightarrow> span \<Rightarrow> ('l, 'b, 'm) stream_world_scheme
    \<Rightarrow> (stream_reply \<times> ('l, 'b, 'm) stream_world_scheme) run" where
  "compressor_flush E c out w =
     chain (compressor_handle c w) (\<lambda>h.
     chain (flush_visit E out h w) (stream_reply_of
       (\<lambda>r. \<lparr>bytes_consumed = 0, bytes_produced = po_out r, sr_done = False\<rparr>)))"

definition compressor_finish ::
  "('l::len, 'b) env \<Rightarrow> compressor \<Rightarrow> span \<Rightarrow> ('l, 'b, 'm) stream_world_scheme
    \<Rightarrow> (stream_reply \<times> ('l, 'b, 'm) stream_world_scheme) run" where
  "compressor_finish E c out w =
     chain (compressor_handle c w) (\<lambda>h.
     chain (finish_visit E out h w) (stream_reply_of
       (\<lambda>r. \<lparr>bytes_consumed = po_in r, bytes_produced = po_out r, sr_done = True\<rparr>)))"

section \<open>decompressor\<close>

definition decompressor_new ::
  "('l::len, 'b) env \<Rightarrow> format \<Rightarrow> ('l, 'b, 'm) stream_world_scheme
    \<Rightarrow> (decompressor \<times> ('l, 'b, 'm) stream_world_scheme) run" where
  "decompressor_new E f w =
     (let p = brk w
      in chain (make_sweller E f (w\<lparr>brk := Suc p\<rparr>)) (\<lambda>(h, w1).
           Inr (\<lparr>dp_impl = p\<rparr>, w1\<lparr>dimpls := (dimpls w1)(p \<mapsto> h)\<rparr>)))"

definition decompressor_handle ::
  "decompressor \<Rightarrow> ('l::len, 'b, 'm) stream_world_scheme \<Rightarrow> sweller_variant run" where
  "decompressor_handle d w =
     (case dimpls w (dp_impl d) of None \<Rightarrow> Inl Undefined_Behaviour | Some h \<Rightarrow> Inr h)"

definition decompressor_impl_delete ::
  "('l::len, 'b) env \<Rightarrow> decompressor \<Rightarrow> ('l, 'b, 'm) stream_world_scheme
    \<Rightarrow> ('l, 'b, 'm) stream_world_scheme run" where
  "decompressor_impl_delete E d w =
     chain (decompressor_handle d w) (\<lambda>h.
     chain (sweller_variant_delete E h w) (\<lambda>w1.
       Inr (w1\<lparr>dimpls := (dimpls w1)(dp_impl d := None)\<rparr>)))"

definition decompressor_delete ::
  "('l::len, 'b) env \<Rightarrow> decompressor \<Rightarrow> ('l, 'b, 'm) stream_world_scheme
    \<Rightarrow> ('l, 'b, 'm) stream_world_scheme run" where
  "decompressor_delete E d w = (if dp_impl d = 0 then Inr w else decompressor_impl_delete E d w)"

definition decompressor_move :: "decompressor \<Rightarrow> decompressor \<times> decompressor" where
  "decompressor_move other = (\<lparr>dp_impl = dp_impl other\<rparr>, \<lparr>dp_impl = 0\<rparr>)"

definition decompressor_assign ::
  "('l::len, 'b) env \<Rightarrow> bool \<Rightarrow> decompressor \<Rightarrow> decompressor \<Rightarrow> ('l, 'b, 'm) stream_world_scheme
    \<Rightarrow> ((decompressor \<times> decompressor) \<times> ('l, 'b, 'm) stream_world_scheme) run" where
  "decompressor_assign E same self other w =
     (if same then Inr ((self, self), w)
      else chain (if dp_impl self = 0 then Inr w else decompressor_impl_delete E self w)
        (\<lambda>w1. Inr ((\<lparr>dp_impl = dp_impl other\<rparr>, \<lparr>dp_impl = 0\<rparr>), w1)))"

definition decompressor_push ::
  "('l::len, 'b) env \<Rightarrow> decompressor \<Rightarrow> span \<Rightarrow> span \<Rightarrow> ('l, 'b, 'm) stream_world_scheme
    \<Rightarrow> (stream_reply \<times> ('l, 'b, 'm) stream_world_scheme) run" where
  "decompressor_push E d i out w =
     chain (decompressor_handle d w) (\<lambda>h.
     chain (push_visit_sweller E i out h w) (stream_reply_of
       (\<lambda>r. \<lparr>bytes_consumed = po_in r, bytes_produced = po_out r, sr_done = po_done r\<rparr>)))"

section \<open>Calls through the pointer\<close>

text \<open>
  Every call follows \<open>p_\<close> to a variant, makes one call on it and rewraps the result. What the
  variant's call promises carries over, because no call on a variant touches the cells of the
  \<open>impl\<close> objects.
\<close>

definition via ::
  "('c \<Rightarrow> 'w \<Rightarrow> 'v option) \<Rightarrow> ('v \<Rightarrow> span \<Rightarrow> span \<Rightarrow> 'w \<Rightarrow> (visit_result \<times> 'w) run)
    \<Rightarrow> (push_out \<Rightarrow> stream_result) \<Rightarrow> 'c \<Rightarrow> span \<Rightarrow> span \<Rightarrow> 'w \<Rightarrow> (stream_reply \<times> 'w) run" where
  "via get vop g c i out w = (case get c w of
     None \<Rightarrow> Inl Undefined_Behaviour
   | Some v \<Rightarrow> chain (vop v i out w) (stream_reply_of g))"

definition over :: "('c \<Rightarrow> 'w \<Rightarrow> 'v option) \<Rightarrow> 'r \<Rightarrow> ('v \<Rightarrow> 'w \<Rightarrow> 'r) \<Rightarrow> 'c \<Rightarrow> 'w \<Rightarrow> 'r" where
  "over get d F c w = (case get c w of None \<Rightarrow> d | Some v \<Rightarrow> F v w)"

lemma chain_stream_reply:
  "chain x (stream_reply_of g) = Inr (r, w') \<longleftrightarrow> (\<exists>y. x = Inr (y, w') \<and> r = map_sum id g y)"
  by (cases x) (auto simp: stream_reply_of_def split: sum.splits)

lemma chain_reply_split:
  "chain x (stream_reply_of g) = Inr (Inr r, w') \<longleftrightarrow> (\<exists>p. x = Inr (Inr p, w') \<and> r = g p)"
  "chain x (stream_reply_of g) = Inr (Inl e, w') \<longleftrightarrow> x = Inr (Inl e, w')"
  by (cases x; auto simp: stream_reply_of_def split: sum.splits)+

locale pimpl_op = handle_op vop vcells vobjects vready lawful
  for vop :: "'v \<Rightarrow> span \<Rightarrow> span \<Rightarrow> ('l::len, 'b, 'm) world_scheme
      \<Rightarrow> (visit_result \<times> ('l, 'b, 'm) world_scheme) run"
    and vcells vobjects vready lawful +
  fixes get :: "'c \<Rightarrow> ('l, 'b, 'm) world_scheme \<Rightarrow> 'v option"
  assumes get_more: "world.more w' = world.more w \<Longrightarrow> get c w' = get c w"
begin

lemma outer:
  "handle_op (via get vop g) (over get {} vcells) (over get {} vobjects) (over get False vready) lawful"
proof (unfold_locales, goal_cases)
  case (1 w c i out)
  then obtain v where "get c w = Some v" "vready v w"
    by (auto simp: over_def split: option.splits)
  with op_defined [OF 1(1,2), of v i out] show ?case by (auto simp: via_def chain_stream_reply)
next
  case (2 w c i out r w')
  then obtain v where v: "get c w = Some v" "vready v w"
    by (auto simp: over_def split: option.splits)
  with 2(4) obtain y where "vop v i out w = Inr (y, w')"
    by (auto simp: via_def chain_stream_reply)
  note fr = op_frame [OF 2(1,2) v(2) this]
  then have "get c w' = Some v" using v get_more [of w' w c] by (simp add: frame_def)
  with fr v show ?case by (simp add: over_def)
next
  case (3 w c i out r w')
  then obtain v where v: "get c w = Some v" "vready v w"
    by (auto simp: over_def split: option.splits)
  with 3(4) obtain y where "vop v i out w = Inr (y, w')"
    by (auto simp: via_def chain_stream_reply)
  from op_writes [OF 3(1,2) v(2) this] show ?case .
qed

end

definition cp_get :: "compressor \<Rightarrow> ('l::len, 'b, 'm) stream_world_scheme \<Rightarrow> squeezer_variant option" where
  "cp_get c w = cimpls w (cp_impl c)"

definition dp_get :: "decompressor \<Rightarrow> ('l::len, 'b, 'm) stream_world_scheme \<Rightarrow> sweller_variant option" where
  "dp_get d w = dimpls w (dp_impl d)"

lemma impls_more:
  fixes w :: "('l::len, 'b, 'm) stream_world_scheme"
  assumes "world.more w' = world.more w"
  shows "cimpls w' = cimpls w" "dimpls w' = dimpls w"
  using assms by (cases w; cases w'; simp)+

lemma gets_more:
  "world.more w' = world.more w \<Longrightarrow> cp_get c w' = cp_get c w"
  "world.more w' = world.more w \<Longrightarrow> dp_get d w' = dp_get d w"
  by (simp_all only: cp_get_def dp_get_def impls_more [of w' w])

definition cp_ready :: "compressor \<Rightarrow> ('l::len, 'b, 'm) stream_world_scheme \<Rightarrow> bool" where
  "cp_ready = over cp_get False sq_ready"

definition dp_ready :: "decompressor \<Rightarrow> ('l::len, 'b, 'm) stream_world_scheme \<Rightarrow> bool" where
  "dp_ready = over dp_get False sw_ready"

definition cp_cells :: "compressor \<Rightarrow> ('l::len, 'b, 'm) stream_world_scheme \<Rightarrow> addr set" where
  "cp_cells = over cp_get {} sq_cells"

definition cp_objects :: "compressor \<Rightarrow> ('l::len, 'b, 'm) stream_world_scheme \<Rightarrow> addr set" where
  "cp_objects = over cp_get {} sq_objects"

definition dp_cells :: "decompressor \<Rightarrow> ('l::len, 'b, 'm) stream_world_scheme \<Rightarrow> addr set" where
  "dp_cells = over dp_get {} sw_cells"

definition dp_objects :: "decompressor \<Rightarrow> ('l::len, 'b, 'm) stream_world_scheme \<Rightarrow> addr set" where
  "dp_objects = over dp_get {} sw_objects"

lemmas footprint_defs = cp_ready_def cp_cells_def cp_objects_def dp_ready_def dp_cells_def dp_objects_def

interpretation cp_push_through: pimpl_op "\<lambda>v i out. push_visit_squeezer E i out v"
  sq_cells sq_objects sq_ready "env_ok E" cp_get
  for E :: "('l::len, 'b) env"
  by unfold_locales (rule gets_more)

interpretation cp_flush_through: pimpl_op "\<lambda>v i out. flush_visit E out v"
  sq_cells sq_objects sq_ready "env_ok E" cp_get
  for E :: "('l::len, 'b) env"
  by unfold_locales (rule gets_more)

interpretation cp_finish_through: pimpl_op "\<lambda>v i out. finish_visit E out v"
  sq_cells sq_objects sq_ready "env_ok E \<and> zstd_end_progress (zstd E)" cp_get
  for E :: "('l::len, 'b) env"
  by unfold_locales (rule gets_more)

interpretation dp_push_through: pimpl_op "\<lambda>v i out. push_visit_sweller E i out v"
  sw_cells sw_objects sw_ready "env_ok E" dp_get
  for E :: "('l::len, 'b) env"
  by unfold_locales (rule gets_more)

lemma compressor_calls_via:
  "compressor_push E = via cp_get (\<lambda>v i out. push_visit_squeezer E i out v)
     (\<lambda>r. \<lparr>bytes_consumed = po_in r, bytes_produced = po_out r, sr_done = False\<rparr>)"
  "(\<lambda>c i. compressor_flush E c) = via cp_get (\<lambda>v i out. flush_visit E out v)
     (\<lambda>r. \<lparr>bytes_consumed = 0, bytes_produced = po_out r, sr_done = False\<rparr>)"
  "(\<lambda>c i. compressor_finish E c) = via cp_get (\<lambda>v i out. finish_visit E out v)
     (\<lambda>r. \<lparr>bytes_consumed = po_in r, bytes_produced = po_out r, sr_done = True\<rparr>)"
  by (intro ext; simp add: compressor_push_def compressor_flush_def compressor_finish_def via_def
      compressor_handle_def cp_get_def split: option.split)+

lemma decompressor_calls_via:
  "decompressor_push E = via dp_get (\<lambda>v i out. push_visit_sweller E i out v)
     (\<lambda>r. \<lparr>bytes_consumed = po_in r, bytes_produced = po_out r, sr_done = po_done r\<rparr>)"
  by (intro ext; simp add: decompressor_push_def via_def decompressor_handle_def dp_get_def
      split: option.split)

interpretation compressor_push: handle_op "compressor_push E" cp_cells cp_objects cp_ready "env_ok E"
  for E :: "('l::len, 'b) env"
  unfolding compressor_calls_via footprint_defs by (rule cp_push_through.outer)

interpretation compressor_flush: handle_op "\<lambda>c i. compressor_flush E c" cp_cells cp_objects cp_ready
  "env_ok E"
  for E :: "('l::len, 'b) env"
  unfolding compressor_calls_via footprint_defs by (rule cp_flush_through.outer)

interpretation compressor_finish: handle_op "\<lambda>c i. compressor_finish E c" cp_cells cp_objects cp_ready
  "env_ok E \<and> zstd_end_progress (zstd E)"
  for E :: "('l::len, 'b) env"
  unfolding compressor_calls_via footprint_defs by (rule cp_finish_through.outer)

interpretation decompressor_push: handle_op "decompressor_push E" dp_cells dp_objects dp_ready "env_ok E"
  for E :: "('l::len, 'b) env"
  unfolding decompressor_calls_via footprint_defs by (rule dp_push_through.outer)

text \<open>A call that reports a value made one on the variant.\<close>

lemma compressor_call_cases:
  "compressor_push E c i out w = Inr (Inr r, w') \<Longrightarrow> \<exists>v p. cimpls w (cp_impl c) = Some v \<and>
     push_visit_squeezer E i out v w = Inr (Inr p, w') \<and> r = \<lparr>bytes_consumed = po_in p, bytes_produced = po_out p, sr_done = False\<rparr>"
  "compressor_flush E c out w = Inr (Inr r, w') \<Longrightarrow> \<exists>v p. cimpls w (cp_impl c) = Some v \<and>
     flush_visit E out v w = Inr (Inr p, w') \<and> r = \<lparr>bytes_consumed = 0, bytes_produced = po_out p, sr_done = False\<rparr>"
  "compressor_finish E c out w = Inr (Inr r, w') \<Longrightarrow> \<exists>v p. cimpls w (cp_impl c) = Some v \<and>
     finish_visit E out v w = Inr (Inr p, w') \<and> r = \<lparr>bytes_consumed = po_in p, bytes_produced = po_out p, sr_done = True\<rparr>"
  by (auto simp: compressor_push_def compressor_flush_def compressor_finish_def compressor_handle_def
      chain_Inr_iff [of "case_option a b x" for a b x] chain_reply_split split: option.splits)

end
