(* ===== verification/Ownership.thy ===== *)
theory Ownership
  imports Streaming
begin

text \<open>
  Who owns what on the heaps while streaming objects are alive. Every cell and every library
  object belongs to exactly one \<open>impl\<close>; the three kinds of change a program can make (a new
  object, a call, a deletion) keep that accounting.
\<close>

section \<open>Owners and their footprints\<close>

datatype owner = Comp addr | Decomp addr

type_synonym any_handle = "squeezer_variant + sweller_variant"

definition held :: "('l::len, 'b, 'm) stream_world_scheme \<Rightarrow> owner \<Rightarrow> any_handle option" where
  "held w o1 = (case o1 of Comp p \<Rightarrow> map_option Inl (cimpls w p) | Decomp p \<Rightarrow> map_option Inr (dimpls w p))"

definition h_cells :: "any_handle \<Rightarrow> ('l::len, 'b, 'm) world_scheme \<Rightarrow> addr set" where
  "h_cells h w = (case h of Inl v \<Rightarrow> sq_cells v w | Inr v \<Rightarrow> sw_cells v w)"

definition h_objects :: "any_handle \<Rightarrow> ('l::len, 'b, 'm) world_scheme \<Rightarrow> addr set" where
  "h_objects h w = (case h of Inl v \<Rightarrow> sq_objects v w | Inr v \<Rightarrow> sw_objects v w) - {0}"

definition h_ready :: "any_handle \<Rightarrow> ('l::len, 'b, 'm) world_scheme \<Rightarrow> bool" where
  "h_ready h w = (case h of Inl v \<Rightarrow> sq_ready v w | Inr v \<Rightarrow> sw_ready v w)"

lemmas h_defs = h_cells_def h_objects_def h_ready_def

lemma h_simps [simp]:
  "h_cells (Inl v) w = sq_cells v w" "h_cells (Inr u) w = sw_cells u w"
  "h_objects (Inl v) w = sq_objects v w - {0}" "h_objects (Inr u) w = sw_objects u w - {0}"
  "h_ready (Inl v) w = sq_ready v w" "h_ready (Inr u) w = sw_ready u w"
  by (simp_all add: h_defs)

text \<open>Outside \<open>P\<close> and \<open>S\<close> nothing of the two heaps changes.\<close>

definition touches ::
  "addr set \<Rightarrow> addr set \<Rightarrow> ('l::len, 'b, 'm) world_scheme \<Rightarrow> ('l, 'b, 'm) world_scheme \<Rightarrow> bool" where
  "touches P S w w' \<longleftrightarrow> (\<forall>a. a \<notin> P \<longrightarrow> zstreams w' a = zstreams w a) \<and> (\<forall>a. a \<notin> S \<longrightarrow> lib w' a = lib w a)"

lemma frame_touches:
  assumes "frame P S w w'" "wf_world w" "wf_world w'"
  shows "touches P (S - {0}) w w'"
proof -
  have "lib w 0 = None" "lib w' 0 = None"
    using assms(2,3) by (simp_all add: wf_world_def domIff)
  then show ?thesis using assms(1) by (auto simp: frame_def touches_def)
qed

lemma zstep_touches:
  assumes "touches P S w w'" "zready p w" "p \<notin> P" "(zobjects p w - {0}) \<inter> S = {}"
  shows "zobjects p w' = zobjects p w \<and> zready p w'"
proof -
  from assms(2) obtain st where st: "zstreams w p = Some st" "zstate st = 0 \<or> zstate st \<in> dom (lib w)"
    by (rule zreadyE)
  then have "zstreams w' p = Some st" using assms(1,3) by (simp add: touches_def)
  moreover have "zstate st = 0 \<or> lib w' (zstate st) = lib w (zstate st)"
    using assms(1,4) st(1) by (auto simp: touches_def zobjects_def)
  ultimately show ?thesis using st by (auto simp: zobjects_def zready_def)
qed

lemma ctx_touches:
  assumes "touches P S w w'" "ctx_ready a w" "({a} - {0}) \<inter> S = {}" "wf_world w"
  shows "ctx_ready a w'"
proof -
  have "a \<noteq> 0" using assms(2,4) by (auto simp: ctx_ready_def wf_world_def)
  then have "a \<notin> S" using assms(3) by simp
  then show ?thesis using assms(1,2) by (auto simp: touches_def ctx_ready_def)
qed

lemma footprint_touches:
  assumes "touches P S w w'" "wf_world w" "h_ready h w" "h_cells h w \<inter> P = {}" "h_objects h w \<inter> S = {}"
  shows "h_cells h w' = h_cells h w \<and> h_objects h w' = h_objects h w \<and> h_ready h w'"
proof (cases h)
  case (Inl v)
  then show ?thesis
    using assms zstep_touches [OF assms(1)] ctx_touches [OF assms(1)]
    by (cases v) (auto simp: zcells_def ctx_cells_def ctx_objects_def)
next
  case (Inr v)
  then show ?thesis
    using assms zstep_touches [OF assms(1)] ctx_touches [OF assms(1)]
    by (cases v) (auto simp: zcells_def ctx_cells_def ctx_objects_def)
qed

lemma ready_allocated:
  assumes "h_ready h w"
  shows "h_cells h w \<subseteq> dom (zstreams w) \<and> h_objects h w \<subseteq> dom (lib w)"
proof (cases h)
  case (Inl v)
  then show ?thesis using assms
    by (cases v) (auto simp: zcells_def zobjects_def ctx_cells_def ctx_objects_def ctx_ready_def
      elim!: zreadyE)
next
  case (Inr v)
  then show ?thesis using assms
    by (cases v) (auto simp: zcells_def zobjects_def ctx_cells_def ctx_objects_def ctx_ready_def
      elim!: zreadyE)
qed

section \<open>The accounting\<close>

definition owned :: "(any_handle \<Rightarrow> ('l::len, 'b, 'm) stream_world_scheme \<Rightarrow> addr set)
    \<Rightarrow> ('l, 'b, 'm) stream_world_scheme \<Rightarrow> addr set" where
  "owned F w = (\<Union>h \<in> ran (held w). F h w)"

definition accounted :: "('l::len, 'b, 'm) stream_world_scheme \<Rightarrow> bool" where
  "accounted w \<longleftrightarrow> wf_stream w \<and>
     (\<forall>o1 h1. held w o1 = Some h1 \<longrightarrow> h_ready h1 w) \<and>
     (\<forall>o1 h1 o2 h2. held w o1 = Some h1 \<longrightarrow> held w o2 = Some h2 \<longrightarrow> o1 \<noteq> o2 \<longrightarrow>
        h_cells h1 w \<inter> h_cells h2 w = {} \<and> h_objects h1 w \<inter> h_objects h2 w = {}) \<and>
     dom (zstreams w) = owned h_cells w \<and> dom (lib w) = owned h_objects w"

lemma owned_iff: "a \<in> owned F w \<longleftrightarrow> (\<exists>o1 h1. held w o1 = Some h1 \<and> a \<in> F h1 w)"
  by (auto simp: owned_def ran_def)

lemma accountedD:
  assumes "accounted w"
  shows "wf_stream w" "wf_world w" "held w o1 = Some h1 \<Longrightarrow> h_ready h1 w"
    "held w o1 = Some h1 \<Longrightarrow> held w o2 = Some h2 \<Longrightarrow> o1 \<noteq> o2 \<Longrightarrow>
      h_cells h1 w \<inter> h_cells h2 w = {} \<and> h_objects h1 w \<inter> h_objects h2 w = {}"
    "dom (zstreams w) = owned h_cells w" "dom (lib w) = owned h_objects w"
  using assms by (simp_all add: accounted_def wf_stream_def)

text \<open>What is owned after one owner changed what it holds; \<open>D\<close> and \<open>D'\<close> are a heap's domains.\<close>

lemma owned_update:
  assumes D: "D = owned F w" and hd: "held w' = (held w)(o1 := x)"
    and keep: "\<And>o2 h2. o2 \<noteq> o1 \<Longrightarrow> held w o2 = Some h2 \<Longrightarrow> F h2 w' = F h2 w"
    and old: "\<And>h1. held w o1 = Some h1 \<Longrightarrow> F h1 w \<subseteq> P"
    and gone: "\<And>a. a \<in> P \<Longrightarrow> a \<in> D' \<Longrightarrow> \<exists>h1. x = Some h1 \<and> a \<in> F h1 w'"
    and same: "\<And>a. a \<notin> P \<Longrightarrow> a \<in> D' \<Longrightarrow> a \<in> D"
    and alloc: "\<And>o2 h2. held w' o2 = Some h2 \<Longrightarrow> F h2 w' \<subseteq> D'"
  shows "D' = owned F w'"
proof (intro set_eqI iffI)
  fix a assume a: "a \<in> D'"
  show "a \<in> owned F w'"
  proof (cases "a \<in> P")
    case True
    from gone [OF this a] show ?thesis by (auto simp: owned_iff hd)
  next
    case False
    then obtain o2 h2 where o2: "held w o2 = Some h2" "a \<in> F h2 w"
      using same [OF False a] by (auto simp: D owned_iff)
    with old False have "o2 \<noteq> o1" by blast
    with o2 keep [of o2 h2] show ?thesis by (auto simp: owned_iff hd intro!: exI [of _ o2])
  qed
next
  fix a assume "a \<in> owned F w'"
  with alloc show "a \<in> D'" by (auto simp: owned_iff)
qed

text \<open>
  One owner changes what it holds, from \<open>held w o1\<close> to \<open>x\<close>, inside the footprint \<open>P\<close>, \<open>S\<close>.
\<close>

lemma accounted_update:
  assumes acc: "accounted w" and wf: "wf_stream w'" and t: "touches P S w w'"
    and hd: "held w' = (held w)(o1 := x)"
    and rest: "\<And>o2 h2. o2 \<noteq> o1 \<Longrightarrow> held w o2 = Some h2 \<Longrightarrow> h_cells h2 w \<inter> P = {} \<and> h_objects h2 w \<inter> S = {}"
    and old: "\<And>h1. held w o1 = Some h1 \<Longrightarrow> h_cells h1 w \<subseteq> P \<and> h_objects h1 w \<subseteq> S"
    and new: "\<And>h1. x = Some h1 \<Longrightarrow> h_ready h1 w' \<and> h_cells h1 w' \<subseteq> P \<and> h_objects h1 w' \<subseteq> S"
    and gone: "\<And>a. a \<in> P \<Longrightarrow> a \<in> dom (zstreams w') \<Longrightarrow> \<exists>h1. x = Some h1 \<and> a \<in> h_cells h1 w'"
      "\<And>a. a \<in> S \<Longrightarrow> a \<in> dom (lib w') \<Longrightarrow> \<exists>h1. x = Some h1 \<and> a \<in> h_objects h1 w'"
  shows "accounted w'"
proof -
  note acc = accountedD [OF acc]
  have keep: "h_cells h2 w' = h_cells h2 w \<and> h_objects h2 w' = h_objects h2 w \<and> h_ready h2 w'"
    if "o2 \<noteq> o1" "held w o2 = Some h2" for o2 h2
    using footprint_touches [OF t acc(2) acc(3) [OF that(2)]] rest [OF that] by blast
  have ready: "h_ready h2 w'" if "held w' o2 = Some h2" for o2 h2
    using that keep [of o2 h2] new by (auto simp: hd split: if_splits)
  have disj: "h_cells h2 w' \<inter> h_cells h3 w' = {} \<and> h_objects h2 w' \<inter> h_objects h3 w' = {}"
    if i: "held w' o2 = Some h2" "held w' o3 = Some h3" "o2 \<noteq> o3" for o2 h2 o3 h3
  proof -
    consider "o2 = o1" "x = Some h2" "o3 \<noteq> o1" "held w o3 = Some h3"
      | "o3 = o1" "x = Some h3" "o2 \<noteq> o1" "held w o2 = Some h2"
      | "o2 \<noteq> o1" "o3 \<noteq> o1" "held w o2 = Some h2" "held w o3 = Some h3"
      using i by (auto simp: hd split: if_splits)
    then show ?thesis
    proof cases
      case 1
      with keep [OF 1(3,4)] new [OF 1(2)] rest [OF 1(3,4)] show ?thesis by blast
    next
      case 2
      with keep [OF 2(3,4)] new [OF 2(2)] rest [OF 2(3,4)] show ?thesis by blast
    next
      case 3
      with keep [OF 3(1,3)] keep [OF 3(2,4)] acc(4) [OF 3(3,4) i(3)] show ?thesis by simp
    qed
  qed
  have alloc: "h_cells h2 w' \<subseteq> dom (zstreams w')" "h_objects h2 w' \<subseteq> dom (lib w')" if "held w' o2 = Some h2" for o2 h2
    using ready_allocated [OF ready [OF that]] by blast+
  have cells: "dom (zstreams w') = owned h_cells w'"
    by (rule owned_update [where D' = "dom (zstreams w')" and P = P, OF acc(5) hd _ _ gone(1) _ alloc(1)])
      (use keep old t in \<open>auto simp: touches_def\<close>)
  have objects: "dom (lib w') = owned h_objects w'"
    by (rule owned_update [where D' = "dom (lib w')" and P = S, OF acc(6) hd _ _ gone(2) _ alloc(2)])
      (use keep old t in \<open>auto simp: touches_def\<close>)
  show ?thesis using wf ready disj cells objects by (simp add: accounted_def)
qed

section \<open>The three kinds of change\<close>

lemma footprint_impls [simp]:
  "h_cells h (w\<lparr>cimpls := C\<rparr>) = h_cells h w" "h_cells h (w\<lparr>dimpls := D\<rparr>) = h_cells h w"
  "h_objects h (w\<lparr>cimpls := C\<rparr>) = h_objects h w" "h_objects h (w\<lparr>dimpls := D\<rparr>) = h_objects h w"
  "h_ready h (w\<lparr>cimpls := C\<rparr>) = h_ready h w" "h_ready h (w\<lparr>dimpls := D\<rparr>) = h_ready h w"
proof -
  have z: "zcells p (w\<lparr>cimpls := C\<rparr>) = zcells p w" "zcells p (w\<lparr>dimpls := D\<rparr>) = zcells p w"
    "zobjects p (w\<lparr>cimpls := C\<rparr>) = zobjects p w" "zobjects p (w\<lparr>dimpls := D\<rparr>) = zobjects p w"
    "zready p (w\<lparr>cimpls := C\<rparr>) = zready p w" "zready p (w\<lparr>dimpls := D\<rparr>) = zready p w" for p
    by (simp_all add: zcells_def zobjects_def zready_def split: option.split)
  have q: "sq_cells v (w\<lparr>cimpls := C\<rparr>) = sq_cells v w" "sq_cells v (w\<lparr>dimpls := D\<rparr>) = sq_cells v w"
    "sq_objects v (w\<lparr>cimpls := C\<rparr>) = sq_objects v w" "sq_objects v (w\<lparr>dimpls := D\<rparr>) = sq_objects v w"
    "sq_ready v (w\<lparr>cimpls := C\<rparr>) = sq_ready v w" "sq_ready v (w\<lparr>dimpls := D\<rparr>) = sq_ready v w" for v
    by (cases v; simp add: z ctx_defs)+
  have u: "sw_cells v (w\<lparr>cimpls := C\<rparr>) = sw_cells v w" "sw_cells v (w\<lparr>dimpls := D\<rparr>) = sw_cells v w"
    "sw_objects v (w\<lparr>cimpls := C\<rparr>) = sw_objects v w" "sw_objects v (w\<lparr>dimpls := D\<rparr>) = sw_objects v w"
    "sw_ready v (w\<lparr>cimpls := C\<rparr>) = sw_ready v w" "sw_ready v (w\<lparr>dimpls := D\<rparr>) = sw_ready v w" for v
    by (cases v; simp add: z ctx_defs)+
  show "h_cells h (w\<lparr>cimpls := C\<rparr>) = h_cells h w" "h_cells h (w\<lparr>dimpls := D\<rparr>) = h_cells h w"
    "h_objects h (w\<lparr>cimpls := C\<rparr>) = h_objects h w" "h_objects h (w\<lparr>dimpls := D\<rparr>) = h_objects h w"
    "h_ready h (w\<lparr>cimpls := C\<rparr>) = h_ready h w" "h_ready h (w\<lparr>dimpls := D\<rparr>) = h_ready h w"
    by (simp_all add: h_defs q u split: sum.split)
qed

lemma held_impls:
  "held (w\<lparr>cimpls := (cimpls w)(p := x)\<rparr>) = (held w)(Comp p := map_option Inl x)"
  "held (w\<lparr>dimpls := (dimpls w)(p := y)\<rparr>) = (held w)(Decomp p := map_option Inr y)"
  by (auto simp: held_def fun_eq_iff split: owner.split)

lemma held_more: "world.more w' = world.more w \<Longrightarrow> held w' = held w"
  by (intro ext) (simp add: held_def impls_more [of w' w] split: owner.split)

lemma wf_stream_frame:
  assumes "wf_stream w" "frame P S w w'" "wf_world w'"
  shows "wf_stream w'"
proof -
  have "cimpls w' = cimpls w" "dimpls w' = dimpls w" "brk w \<le> brk w'"
    using assms(2) impls_more [of w' w] by (simp_all add: frame_def)
  then show ?thesis using assms(1,3) by (simp add: wf_stream_def)
qed

lemma accounted_op:
  assumes acc: "accounted w" and h: "held w o1 = Some h"
    and fr: "frame (h_cells h w) S w w'" "S - {0} = h_objects h w" "wf_world w'"
    and same: "h_ready h w'" "h_cells h w' = h_cells h w" "h_objects h w' = h_objects h w"
  shows "accounted w' \<and> held w' = held w"
proof -
  have hd: "held w' = held w" using fr(1) held_more [of w' w] by (simp add: frame_def)
  have "accounted w'"
  proof (rule accounted_update [where ?o1.0 = o1 and x = "Some h" and P = "h_cells h w" and S = "h_objects h w",
        OF acc wf_stream_frame [OF accountedD(1) [OF acc] fr(1,3)]])
    show "touches (h_cells h w) (h_objects h w) w w'"
      using frame_touches [OF fr(1) accountedD(2) [OF acc] fr(3)] fr(2) by simp
    show "held w' = (held w)(o1 := Some h)" using hd h by auto
    show "h_cells h2 w \<inter> h_cells h w = {} \<and> h_objects h2 w \<inter> h_objects h w = {}"
      if "o2 \<noteq> o1" "held w o2 = Some h2" for o2 h2
      using accountedD(4) [OF acc that(2) h that(1)] .
  qed (use h same in auto)
  with hd show ?thesis by blast
qed

lemma accounted_add:
  assumes acc: "accounted w" and wf: "wf_stream w'" and hd: "held w' = (held w)(o1 := Some h)"
    and free: "held w o1 = None" and r: "h_ready h w'"
    and t: "touches (h_cells h w') (h_objects h w') w w'"
    and fresh: "\<forall>a \<in> h_cells h w'. zstreams w a = None" "\<forall>a \<in> h_objects h w'. lib w a = None"
  shows "accounted w'"
proof (rule accounted_update [OF acc wf t hd])
  show "h_cells h2 w \<inter> h_cells h w' = {} \<and> h_objects h2 w \<inter> h_objects h w' = {}"
    if "o2 \<noteq> o1" "held w o2 = Some h2" for o2 h2
    using ready_allocated [OF accountedD(3) [OF acc that(2)]] fresh by fastforce
qed (use free r in auto)

lemma accounted_remove:
  assumes acc: "accounted w" and wf: "wf_stream w'" and hd: "held w' = (held w)(o1 := None)"
    and h: "held w o1 = Some h" and t: "touches (h_cells h w) (h_objects h w) w w'"
    and gone: "\<forall>a \<in> h_cells h w. zstreams w' a = None" "\<forall>a \<in> h_objects h w. lib w' a = None"
  shows "accounted w'"
proof (rule accounted_update [OF acc wf t hd])
  show "h_cells h2 w \<inter> h_cells h w = {} \<and> h_objects h2 w \<inter> h_objects h w = {}"
    if "o2 \<noteq> o1" "held w o2 = Some h2" for o2 h2
    using accountedD(4) [OF acc that(2) h that(1)] .
qed (use h gone in auto)

section \<open>Construction, calls and destruction of the streaming objects\<close>

lemma make_squeezer_ready:
  assumes "env_ok E" "wf_world w" "allocations_succeed E w" "f = Fmt_Zstd \<or> level_in_range lvl"
  obtains v w1 where "make_squeezer E f lvl w = Inr (v, w1)" "sq_ready v w1"
proof -
  have "\<exists>v w1. make_squeezer E f lvl w = Inr (v, w1)"
  proof (cases "f = Fmt_Zstd")
    case True
    with handles_exist(3) [OF assms(3), of f "Zstd_Level (zlib_level_int lvl)"] show ?thesis
      by (auto simp: make_squeezer_def into_variant_eqs)
  next
    case False
    with assms(4) handles_exist(1) [OF assms(3), of lvl f] show ?thesis
      by (cases f) (auto simp: make_squeezer_def into_variant_eqs)
  qed
  then obtain v w1 where mk: "make_squeezer E f lvl w = Inr (v, w1)" by blast
  have "sq_owned v w1" using squeezer_variant_life.create_fresh [OF assms(1,2) mk] by blast
  moreover have "cctx h \<noteq> 0" if "v = Zstd_Squeezer h" for h
    using mk that by (cases f) (auto simp: make_squeezer_def into_variant_eqs chain_Inr_iff
      zstd_squeezer_new_def Let_def split: if_splits prod.splits)
  ultimately have "sq_ready v w1"
    by (cases v) (auto simp: ctx_owned_def ctx_ready_def)
  with mk that show thesis by blast
qed

lemma make_sweller_ready:
  assumes "env_ok E" "wf_world w" "allocations_succeed E w"
  obtains v w1 where "make_sweller E f w = Inr (v, w1)" "sw_ready v w1"
proof -
  have "\<exists>v w1. make_sweller E f w = Inr (v, w1)"
    using handles_exist(2,4) [OF assms(3), of f]
    by (cases f) (auto simp: make_sweller_def into_variant_eqs)
  then obtain v w1 where mk: "make_sweller E f w = Inr (v, w1)" by blast
  have "sw_owned v w1" using sweller_variant_life.create_fresh [OF assms(1,2) mk] by blast
  moreover have "fst (ZSTD_createDCtx (zstd E) (lib w)) \<noteq> 0"
    using assms(3) by (simp add: allocations_succeed_def)
  then have "dctx h \<noteq> 0" if "v = Zstd_Sweller h" for h
    using mk that by (cases f) (auto simp: make_sweller_def into_variant_eqs chain_Inr_iff
      zstd_sweller_new_def split: if_splits prod.splits)
  ultimately have "sw_ready v w1"
    by (cases v) (auto simp: ctx_owned_def ctx_ready_def)
  with mk that show thesis by blast
qed

lemma wf_world_brk: "wf_world w \<Longrightarrow> wf_world (w\<lparr>brk := Suc (brk w)\<rparr>)"
  by (auto simp: wf_world_def)

lemma allocations_brk [simp]: "allocations_succeed E (w\<lparr>brk := n\<rparr>) = allocations_succeed E w"
  by (simp add: allocations_succeed_def)

text \<open>What is left to check once the variant has been built in the new cell.\<close>

lemma accounted_built:
  assumes acc: "accounted w" and wf1: "wf_world w1" and h: "h_ready h w1"
    and fr: "frame (h_cells h w1) S (w\<lparr>brk := Suc (brk w)\<rparr>) w1" "S - {0} = h_objects h w1"
    and fresh: "\<forall>a \<in> h_cells h w1. zstreams w a = None" "\<forall>a \<in> S. lib w a = None"
    and w': "(\<exists>v. h = Inl v \<and> o1 = Comp (brk w) \<and> w' = w1\<lparr>cimpls := (cimpls w1)(brk w \<mapsto> v)\<rparr>) \<or>
      (\<exists>v. h = Inr v \<and> o1 = Decomp (brk w) \<and> w' = w1\<lparr>dimpls := (dimpls w1)(brk w \<mapsto> v)\<rparr>)"
  shows "accounted w' \<and> held w o1 = None \<and> held w' = (held w)(o1 := Some h)"
proof -
  let ?w0 = "w\<lparr>brk := Suc (brk w)\<rparr>"
  note wf = accountedD(1,2) [OF acc]
  have wf0: "wf_stream ?w0" using wf wf_world_brk [OF wf(2)] by (simp add: wf_stream_def)
  have wfs: "wf_stream w1" by (rule wf_stream_frame [OF wf0 fr(1) wf1])
  have brk: "brk w < brk w1" "brk w \<noteq> 0" using fr(1) wf(2) by (simp_all add: frame_def wf_world_def)
  have t: "touches (h_cells h w1) (h_objects h w1) w w1"
    using frame_touches [OF fr(1) _ wf1] wf0 fr(2) by (simp add: wf_stream_def touches_def)
  have same: "zstreams w' = zstreams w1" "lib w' = lib w1" "h_ready h w'"
    "h_cells h w' = h_cells h w1" "h_objects h w' = h_objects h w1"
    using w' h by auto
  have free: "held w o1 = None"
    using w' wf(1) by (auto simp: held_def wf_stream_def)
  have "world.more w1 = world.more ?w0" using fr(1) by (simp add: frame_def)
  then have "held w1 = held ?w0" by (rule held_more)
  also have "held ?w0 = held w" by (intro ext) (simp add: held_def split: owner.split)
  finally have hd: "held w' = (held w)(o1 := Some h)" using w' by (auto simp: held_impls)
  have "wf_stream w'" using w' wfs brk by (auto simp: wf_stream_def wf_world_def)
  then have "accounted w'"
    by (rule accounted_add [OF acc _ hd free same(3)])
      (use t fresh fr(2) same in \<open>auto simp: touches_def\<close>)
  with free hd show ?thesis by blast
qed

lemma compressor_new_accounted:
  assumes acc: "accounted w" and E: "env_ok E" "allocations_succeed E w"
    and lvl: "f = Fmt_Zstd \<or> level_in_range lvl"
  obtains v w' where "compressor_new E f lvl w = Inr (Inr \<lparr>cp_impl = brk w\<rparr>, w')" "accounted w'"
    "held w (Comp (brk w)) = None" "held w' = (held w)(Comp (brk w) := Some (Inl v))" "brk w \<noteq> 0"
proof -
  let ?w0 = "w\<lparr>brk := Suc (brk w)\<rparr>"
  have wf0: "wf_world ?w0" using wf_world_brk accountedD(2) [OF acc] by blast
  obtain v w1 where mk: "make_squeezer E f lvl ?w0 = Inr (v, w1)" and r: "sq_ready v w1"
    using make_squeezer_ready [OF E(1) wf0 _ lvl] E(2) by auto
  note c = squeezer_variant_life.create_fresh [OF E(1) wf0 mk]
  let ?w' = "w1\<lparr>cimpls := (cimpls w1)(brk w \<mapsto> v)\<rparr>"
  have "accounted ?w' \<and> held w (Comp (brk w)) = None \<and> held ?w' = (held w)(Comp (brk w) := Some (Inl v))"
    by (rule accounted_built [where S = "sq_objects v w1", OF acc]) (use c r in auto)
  moreover have "compressor_new E f lvl w = Inr (Inr \<lparr>cp_impl = brk w\<rparr>, ?w')"
    using lvl mk by (auto simp: compressor_new_def level_in_range_def Let_def)
  moreover have "brk w \<noteq> 0" using accountedD(2) [OF acc] by (simp add: wf_world_def)
  ultimately show thesis using that by blast
qed

lemma decompressor_new_accounted:
  assumes acc: "accounted w" and E: "env_ok E" "allocations_succeed E w"
  obtains v w' where "decompressor_new E f w = Inr (\<lparr>dp_impl = brk w\<rparr>, w')" "accounted w'"
    "held w (Decomp (brk w)) = None" "held w' = (held w)(Decomp (brk w) := Some (Inr v))" "brk w \<noteq> 0"
proof -
  let ?w0 = "w\<lparr>brk := Suc (brk w)\<rparr>"
  have wf0: "wf_world ?w0" using wf_world_brk accountedD(2) [OF acc] by blast
  obtain v w1 where mk: "make_sweller E f ?w0 = Inr (v, w1)" and r: "sw_ready v w1"
    using make_sweller_ready [OF E(1) wf0] E(2) by auto
  note c = sweller_variant_life.create_fresh [OF E(1) wf0 mk]
  let ?w' = "w1\<lparr>dimpls := (dimpls w1)(brk w \<mapsto> v)\<rparr>"
  have "accounted ?w' \<and> held w (Decomp (brk w)) = None \<and> held ?w' = (held w)(Decomp (brk w) := Some (Inr v))"
    by (rule accounted_built [where S = "sw_objects v w1", OF acc]) (use c r in auto)
  moreover have "decompressor_new E f w = Inr (\<lparr>dp_impl = brk w\<rparr>, ?w')"
    using mk by (auto simp: decompressor_new_def Let_def)
  moreover have "brk w \<noteq> 0" using accountedD(2) [OF acc] by (simp add: wf_world_def)
  ultimately show thesis using that by blast
qed

text \<open>Deletion: the destructor's frame, then the cell.\<close>

lemma accounted_deleted:
  assumes acc: "accounted w" and h: "held w o1 = Some h" and wf1: "wf_world w1"
    and fr: "frame (h_cells h w) S w w1" "S - {0} = h_objects h w"
    and gone: "\<forall>a \<in> h_cells h w. zstreams w1 a = None" "\<forall>a \<in> S. lib w1 a = None"
    and w': "(\<exists>p. o1 = Comp p \<and> w' = w1\<lparr>cimpls := (cimpls w1)(p := None)\<rparr>) \<or>
      (\<exists>p. o1 = Decomp p \<and> w' = w1\<lparr>dimpls := (dimpls w1)(p := None)\<rparr>)"
  shows "accounted w' \<and> held w' = (held w)(o1 := None)"
proof -
  note wf = accountedD(1,2) [OF acc]
  have wfs: "wf_stream w1" by (rule wf_stream_frame [OF wf(1) fr(1) wf1])
  have "held w1 = held w" using fr(1) held_more [of w1 w] by (simp add: frame_def)
  then have hd: "held w' = (held w)(o1 := None)" using w' by (auto simp: held_impls)
  have "touches (h_cells h w) (h_objects h w) w w1"
    using frame_touches [OF fr(1) wf(2) wf1] fr(2) by simp
  moreover have "zstreams w' = zstreams w1" "lib w' = lib w1" using w' by auto
  moreover have "wf_stream w'"
    using w' wfs by (auto simp: wf_stream_def wf_world_def split: if_splits)
  ultimately have "accounted w'"
    by (intro accounted_remove [OF acc _ hd h]) (use gone fr(2) in \<open>auto simp: touches_def\<close>)
  with hd show ?thesis by blast
qed

lemma compressor_delete_accounted:
  assumes acc: "accounted w" and E: "env_ok E" and h: "held w (Comp p) = Some h"
  obtains w' where "compressor_delete E \<lparr>cp_impl = p\<rparr> w = Inr w'" "accounted w'"
    "held w' = (held w)(Comp p := None)"
proof -
  from h obtain v where v: "cimpls w p = Some v" "h = Inl v" by (auto simp: held_def)
  have p: "p \<noteq> 0" using accountedD(1) [OF acc] v(1) by (auto simp: wf_stream_def)
  have r: "sq_owned v w" using accountedD(3) [OF acc h] v(2) ready_owned(1) by simp
  from squeezer_variant_life.destroy_frees [OF E accountedD(2) [OF acc] r]
  obtain w1 where d: "squeezer_variant_delete E v w = Inr w1" "wf_world w1"
    "frame (sq_cells v w) (sq_objects v w) w w1"
    "\<forall>a \<in> sq_cells v w. zstreams w1 a = None" "\<forall>a \<in> sq_objects v w. lib w1 a = None"
    by blast
  let ?w' = "w1\<lparr>cimpls := (cimpls w1)(p := None)\<rparr>"
  have "accounted ?w' \<and> held ?w' = (held w)(Comp p := None)"
    by (rule accounted_deleted [where S = "sq_objects v w", OF acc h d(2)]) (use d v(2) in auto)
  moreover have "compressor_delete E \<lparr>cp_impl = p\<rparr> w = Inr ?w'"
    using p v(1) d(1) by (simp add: compressor_delete_def compressor_impl_delete_def compressor_handle_def)
  ultimately show thesis using that by blast
qed

lemma decompressor_delete_accounted:
  assumes acc: "accounted w" and E: "env_ok E" and h: "held w (Decomp p) = Some h"
  obtains w' where "decompressor_delete E \<lparr>dp_impl = p\<rparr> w = Inr w'" "accounted w'"
    "held w' = (held w)(Decomp p := None)"
proof -
  from h obtain v where v: "dimpls w p = Some v" "h = Inr v" by (auto simp: held_def)
  have p: "p \<noteq> 0" using accountedD(1) [OF acc] v(1) by (auto simp: wf_stream_def)
  have r: "sw_owned v w" using accountedD(3) [OF acc h] v(2) ready_owned(2) by simp
  from sweller_variant_life.destroy_frees [OF E accountedD(2) [OF acc] r]
  obtain w1 where d: "sweller_variant_delete E v w = Inr w1" "wf_world w1"
    "frame (sw_cells v w) (sw_objects v w) w w1"
    "\<forall>a \<in> sw_cells v w. zstreams w1 a = None" "\<forall>a \<in> sw_objects v w. lib w1 a = None"
    by blast
  let ?w' = "w1\<lparr>dimpls := (dimpls w1)(p := None)\<rparr>"
  have "accounted ?w' \<and> held ?w' = (held w)(Decomp p := None)"
    by (rule accounted_deleted [where S = "sw_objects v w", OF acc h d(2)]) (use d v(2) in auto)
  moreover have "decompressor_delete E \<lparr>dp_impl = p\<rparr> w = Inr ?w'"
    using p v(1) d(1) by (simp add: decompressor_delete_def decompressor_impl_delete_def decompressor_handle_def)
  ultimately show thesis using that by blast
qed

end
