(* ===== verification/Client_Program.thy ===== *)
theory Client_Program
  imports Ownership
begin

text \<open>
  The streaming objects as a C++ program uses them: named local variables of the two types of
  \<open>stream.hpp\<close>, built, called, moved, assigned and destroyed in any order. The statements run
  the operations of \<open>Streaming\<close>; what is proved here is the ownership that the
  special member functions of both classes are there to keep.
\<close>

section \<open>Programs\<close>

datatype variable = Comp_Var compressor | Decomp_Var decompressor

type_synonym slots = "string \<rightharpoonup> variable"

datatype stmt =
    New_Compressor string format zlib_level
  | New_Decompressor string format
  | Push string span span
  | Flush string span
  | Finish string span
  | Move_Construct string string
  | Move_Assign string string
  | Destroy string

text \<open>
  \<open>None\<close> is a statement that does not compile in this scope: the name is taken, missing, or of
  the wrong type. A constructor that throws leaves no variable.
\<close>

fun exec ::
  "('l::len, 'b) env \<Rightarrow> stmt \<Rightarrow> slots \<times> ('l, 'b, 'm) stream_world_scheme
    \<Rightarrow> (slots \<times> ('l, 'b, 'm) stream_world_scheme) run option" where
  "exec E (New_Compressor x f lvl) (s, w) =
     (if s x \<noteq> None then None
      else Some (chain (compressor_new E f lvl w) (\<lambda>(r, w').
        Inr (case r of Inl e \<Rightarrow> s | Inr c \<Rightarrow> s(x \<mapsto> Comp_Var c), w'))))"
| "exec E (New_Decompressor x f) (s, w) =
     (if s x \<noteq> None then None
      else Some (chain (decompressor_new E f w) (\<lambda>(d, w'). Inr (s(x \<mapsto> Decomp_Var d), w'))))"
| "exec E (Push x i out) (s, w) = (case s x of
     None \<Rightarrow> None
   | Some (Comp_Var c) \<Rightarrow> Some (chain (compressor_push E c i out w) (\<lambda>(r, w'). Inr (s, w')))
   | Some (Decomp_Var d) \<Rightarrow> Some (chain (decompressor_push E d i out w) (\<lambda>(r, w'). Inr (s, w'))))"
| "exec E (Flush x out) (s, w) = (case s x of
     Some (Comp_Var c) \<Rightarrow> Some (chain (compressor_flush E c out w) (\<lambda>(r, w'). Inr (s, w')))
   | _ \<Rightarrow> None)"
| "exec E (Finish x out) (s, w) = (case s x of
     Some (Comp_Var c) \<Rightarrow> Some (chain (compressor_finish E c out w) (\<lambda>(r, w'). Inr (s, w')))
   | _ \<Rightarrow> None)"
| "exec E (Move_Construct x y) (s, w) =
     (if s x \<noteq> None then None
      else case s y of
        None \<Rightarrow> None
      | Some (Comp_Var c) \<Rightarrow>
          let (new, old) = compressor_move c in Some (Inr (s(x \<mapsto> Comp_Var new, y \<mapsto> Comp_Var old), w))
      | Some (Decomp_Var d) \<Rightarrow>
          let (new, old) = decompressor_move d
          in Some (Inr (s(x \<mapsto> Decomp_Var new, y \<mapsto> Decomp_Var old), w)))"
| "exec E (Move_Assign x y) (s, w) = (case (s x, s y) of
     (Some (Comp_Var a), Some (Comp_Var b)) \<Rightarrow>
       Some (chain (compressor_assign E (x = y) a b w) (\<lambda>((a', b'), w').
         Inr (s(x \<mapsto> Comp_Var a', y \<mapsto> Comp_Var b'), w')))
   | (Some (Decomp_Var a), Some (Decomp_Var b)) \<Rightarrow>
       Some (chain (decompressor_assign E (x = y) a b w) (\<lambda>((a', b'), w').
         Inr (s(x \<mapsto> Decomp_Var a', y \<mapsto> Decomp_Var b'), w')))
   | _ \<Rightarrow> None)"
| "exec E (Destroy x) (s, w) = (case s x of
     None \<Rightarrow> None
   | Some (Comp_Var c) \<Rightarrow> Some (chain (compressor_delete E c w) (\<lambda>w'. Inr (s(x := None), w')))
   | Some (Decomp_Var d) \<Rightarrow> Some (chain (decompressor_delete E d w) (\<lambda>w'. Inr (s(x := None), w'))))"

text \<open>A program starts with no variables and empty heaps, and its allocations succeed.\<close>

definition empty_heaps :: "('l::len, 'b, 'm) stream_world_scheme \<Rightarrow> bool" where
  "empty_heaps w \<longleftrightarrow> 0 < brk w \<and> zstreams w = Map.empty \<and> lib w = Map.empty \<and>
     cimpls w = Map.empty \<and> dimpls w = Map.empty"

inductive reachable ::
  "('l::len, 'b) env \<Rightarrow> slots \<Rightarrow> ('l, 'b, 'm) stream_world_scheme \<Rightarrow> bool" for E where
  start: "empty_heaps w \<Longrightarrow> reachable E Map.empty w"
| step: "reachable E s w \<Longrightarrow> allocations_succeed E w \<Longrightarrow> exec E st (s, w) = Some (Inr (s', w')) \<Longrightarrow>
    reachable E s' w'"

section \<open>The invariant\<close>

fun ptr :: "variable \<Rightarrow> owner option" where
  "ptr (Comp_Var c) = (if cp_impl c = 0 then None else Some (Comp (cp_impl c)))"
| "ptr (Decomp_Var d) = (if dp_impl d = 0 then None else Some (Decomp (dp_impl d)))"

definition owners :: "slots \<Rightarrow> string \<rightharpoonup> owner" where
  "owners s x = (case s x of None \<Rightarrow> None | Some v \<Rightarrow> ptr v)"

definition unique :: "('x \<rightharpoonup> 'o) \<Rightarrow> bool" where
  "unique m \<longleftrightarrow> (\<forall>x y z. m x = Some z \<longrightarrow> m y = Some z \<longrightarrow> x = y)"

text \<open>The heaps are accounted for, and each owner is the pointer of exactly one variable.\<close>

definition well_owned :: "slots \<Rightarrow> ('l::len, 'b, 'm) stream_world_scheme \<Rightarrow> bool" where
  "well_owned s w \<longleftrightarrow> accounted w \<and> unique (owners s) \<and> dom (held w) = ran (owners s)"

lemma owners_upd [simp]:
  "owners (s(x \<mapsto> v)) = (owners s)(x := ptr v)" "owners (s(x := None)) = (owners s)(x := None)"
  "owners Map.empty = Map.empty"
  by (auto simp: owners_def fun_eq_iff)

lemma unique_add:
  assumes "unique m" "m x = None" "z \<notin> ran m"
  shows "unique (m(x \<mapsto> z))" "ran (m(x \<mapsto> z)) = insert z (ran m)"
  using assms by (auto simp: unique_def ran_map_upd intro: ranI split: if_splits)

lemma unique_remove:
  assumes "unique m"
  shows "unique (m(x := None))" "ran (m(x := None)) = ran m - (case m x of None \<Rightarrow> {} | Some z \<Rightarrow> {z})"
proof -
  show "unique (m(x := None))" using assms by (auto simp: unique_def split: if_splits)
  show "ran (m(x := None)) = ran m - (case m x of None \<Rightarrow> {} | Some z \<Rightarrow> {z})"
    using assms by (auto simp: unique_def ran_def split: option.splits) (metis option.distinct(1) option.inject)+
qed

lemma unique_transfer:
  assumes "unique m" "x \<noteq> y"
  shows "unique (m(x := m y, y := None))"
    "ran (m(x := m y, y := None)) = ran (m(x := None))"
proof -
  show "unique (m(x := m y, y := None))"
    using assms unfolding unique_def by (metis fun_upd_apply option.distinct(1))
  show "ran (m(x := m y, y := None)) = ran (m(x := None))"
    using assms by (auto simp: ran_def split: if_splits)
qed

lemma well_ownedD:
  assumes "well_owned s w"
  shows "accounted w" "unique (owners s)" "dom (held w) = ran (owners s)"
    "owners s x = Some z \<Longrightarrow> \<exists>h. held w z = Some h"
  using assms by (auto simp: well_owned_def ran_def dom_def)

section \<open>Every statement keeps the invariant\<close>

lemma well_owned_start: "empty_heaps w \<Longrightarrow> well_owned Map.empty w"
proof -
  assume e: "empty_heaps w"
  have "held w o1 = None" for o1 using e by (simp add: held_def empty_heaps_def split: owner.split)
  then have hd: "held w = Map.empty" by blast
  have "wf_stream w" using e by (simp add: wf_stream_def wf_world_def empty_heaps_def)
  with e show ?thesis by (simp add: well_owned_def accounted_def hd owned_def unique_def empty_heaps_def)
qed

lemma well_owned_new:
  assumes i: "well_owned s w" and x: "s x = None" and acc: "accounted w'"
    and z: "held w z = None" "held w' = (held w)(z := Some h)" "ptr v = Some z"
  shows "well_owned (s(x \<mapsto> v)) w'"
proof -
  have "owners s x = None" using x by (simp add: owners_def)
  moreover have "z \<notin> ran (owners s)" using well_ownedD(3) [OF i] z(1) by auto
  ultimately show ?thesis
    using unique_add [OF well_ownedD(2) [OF i], of x z] well_ownedD(3) [OF i] acc z
    by (auto simp: well_owned_def)
qed

lemma well_owned_same:
  assumes "well_owned s w" "accounted w'" "held w' = held w"
  shows "well_owned s w'"
  using assms by (simp add: well_owned_def)

lemma well_owned_destroy:
  assumes i: "well_owned s w" and x: "owners s x = Some z" and acc: "accounted w'"
    and z: "held w' = (held w)(z := None)"
  shows "well_owned (s(x := None)) w'"
  using unique_remove [OF well_ownedD(2) [OF i], of x] well_ownedD(3) [OF i] acc z x
  by (auto simp: well_owned_def)

lemma well_owned_forget:
  assumes i: "well_owned s w" and x: "owners s x = None"
  shows "well_owned (s(x := None)) w"
  using unique_remove [OF well_ownedD(2) [OF i], of x] i x by (auto simp: well_owned_def)

text \<open>Handing \<open>y\<close>'s pointer to \<open>x\<close>, which has none of its own left.\<close>

lemma well_owned_transfer:
  assumes i: "well_owned (s(x := None)) w" and y: "x \<noteq> y" "ptr v = owners s y" "ptr u = None"
  shows "well_owned (s(x \<mapsto> v, y \<mapsto> u)) w"
proof -
  have u: "unique ((owners s)(x := None))" "dom (held w) = ran ((owners s)(x := None))"
    using well_ownedD(2,3) [OF i] by simp_all
  have o1: "owners (s(x \<mapsto> v, y \<mapsto> u)) = ((owners s)(x := None))(x := ((owners s)(x := None)) y, y := None)"
    using y by (auto simp: fun_eq_iff)
  show ?thesis
    using unique_transfer [OF u(1) y(1)] u(2) well_ownedD(1) [OF i]
    by (simp add: well_owned_def o1 del: owners_upd)
qed

text \<open>A call on a variable whose pointer is not null.\<close>

lemma cp_footprint:
  assumes "cimpls w p = Some v"
  shows "cp_ready \<lparr>cp_impl = p\<rparr> w = sq_ready v w" "cp_cells \<lparr>cp_impl = p\<rparr> w = sq_cells v w"
    "cp_objects \<lparr>cp_impl = p\<rparr> w = sq_objects v w"
  using assms by (simp_all add: footprint_defs over_def cp_get_def)

lemma dp_footprint:
  assumes "dimpls w p = Some v"
  shows "dp_ready \<lparr>dp_impl = p\<rparr> w = sw_ready v w" "dp_cells \<lparr>dp_impl = p\<rparr> w = sw_cells v w"
    "dp_objects \<lparr>dp_impl = p\<rparr> w = sw_objects v w"
  using assms by (simp_all add: footprint_defs over_def dp_get_def)

lemma held_ready:
  assumes "accounted w" "held w o1 = Some h"
  shows "o1 = Comp p \<Longrightarrow> cp_ready \<lparr>cp_impl = p\<rparr> w" "o1 = Decomp p \<Longrightarrow> dp_ready \<lparr>dp_impl = p\<rparr> w"
  using accountedD(3) [OF assms] assms(2) by (auto simp: held_def cp_footprint dp_footprint)

lemma comp_call_keeps:
  assumes acc: "accounted w" and h: "held w (Comp p) = Some h"
    and op: "frame (cp_cells \<lparr>cp_impl = p\<rparr> w) (cp_objects \<lparr>cp_impl = p\<rparr> w) w w' \<and> wf_world w' \<and>
      cp_ready \<lparr>cp_impl = p\<rparr> w' \<and> cp_cells \<lparr>cp_impl = p\<rparr> w' = cp_cells \<lparr>cp_impl = p\<rparr> w \<and>
      cp_objects \<lparr>cp_impl = p\<rparr> w' = cp_objects \<lparr>cp_impl = p\<rparr> w"
  shows "accounted w' \<and> held w' = held w"
proof -
  from h obtain v where v: "cimpls w p = Some v" "h = Inl v" by (auto simp: held_def)
  have "cimpls w' = cimpls w" using op impls_more [of w' w] by (simp add: frame_def)
  then have v': "cimpls w' p = Some v" using v by simp
  show ?thesis
    by (rule accounted_op [where S = "sq_objects v w", OF acc h])
      (use op in \<open>simp_all add: cp_footprint [OF v(1)] cp_footprint [OF v'] v(2)\<close>)
qed

lemma decomp_call_keeps:
  assumes acc: "accounted w" and h: "held w (Decomp p) = Some h"
    and op: "frame (dp_cells \<lparr>dp_impl = p\<rparr> w) (dp_objects \<lparr>dp_impl = p\<rparr> w) w w' \<and> wf_world w' \<and>
      dp_ready \<lparr>dp_impl = p\<rparr> w' \<and> dp_cells \<lparr>dp_impl = p\<rparr> w' = dp_cells \<lparr>dp_impl = p\<rparr> w \<and>
      dp_objects \<lparr>dp_impl = p\<rparr> w' = dp_objects \<lparr>dp_impl = p\<rparr> w"
  shows "accounted w' \<and> held w' = held w"
proof -
  from h obtain v where v: "dimpls w p = Some v" "h = Inr v" by (auto simp: held_def)
  have "dimpls w' = dimpls w" using op impls_more [of w' w] by (simp add: frame_def)
  then have v': "dimpls w' p = Some v" using v by simp
  show ?thesis
    by (rule accounted_op [where S = "sw_objects v w", OF acc h])
      (use op in \<open>simp_all add: dp_footprint [OF v(1)] dp_footprint [OF v'] v(2)\<close>)
qed

text \<open>Deletion of a variable's object, null or not.\<close>

lemma comp_delete_step:
  assumes "env_ok E" "well_owned s w" "s x = Some (Comp_Var c)"
  shows "\<exists>w'. compressor_delete E c w = Inr w' \<and> well_owned (s(x := None)) w'"
proof (cases "cp_impl c = 0")
  case True
  with assms(3) have "owners s x = None" by (simp add: owners_def)
  from well_owned_forget [OF assms(2) this] True show ?thesis by (simp add: compressor_delete_def)
next
  case False
  obtain p where c: "c = \<lparr>cp_impl = p\<rparr>" by (cases c) auto
  with assms(3) False have o1: "owners s x = Some (Comp p)" by (simp add: owners_def)
  from well_ownedD(4) [OF assms(2) o1] obtain h where h: "held w (Comp p) = Some h" by blast
  obtain w' where "compressor_delete E \<lparr>cp_impl = p\<rparr> w = Inr w'" "accounted w'"
    "held w' = (held w)(Comp p := None)"
    by (rule compressor_delete_accounted [OF well_ownedD(1) [OF assms(2)] assms(1) h])
  then show ?thesis using well_owned_destroy [OF assms(2) o1] c by blast
qed

lemma decomp_delete_step:
  assumes "env_ok E" "well_owned s w" "s x = Some (Decomp_Var d)"
  shows "\<exists>w'. decompressor_delete E d w = Inr w' \<and> well_owned (s(x := None)) w'"
proof (cases "dp_impl d = 0")
  case True
  with assms(3) have "owners s x = None" by (simp add: owners_def)
  from well_owned_forget [OF assms(2) this] True show ?thesis by (simp add: decompressor_delete_def)
next
  case False
  obtain p where d: "d = \<lparr>dp_impl = p\<rparr>" by (cases d) auto
  with assms(3) False have o1: "owners s x = Some (Decomp p)" by (simp add: owners_def)
  from well_ownedD(4) [OF assms(2) o1] obtain h where h: "held w (Decomp p) = Some h" by blast
  obtain w' where "decompressor_delete E \<lparr>dp_impl = p\<rparr> w = Inr w'" "accounted w'"
    "held w' = (held w)(Decomp p := None)"
    by (rule decompressor_delete_accounted [OF well_ownedD(1) [OF assms(2)] assms(1) h])
  then show ?thesis using well_owned_destroy [OF assms(2) o1] d by blast
qed

lemma assign_eq:
  "compressor_assign E False a b w = chain (compressor_delete E a w) (\<lambda>w1. Inr (compressor_move b, w1))"
  "decompressor_assign E False d e w = chain (decompressor_delete E d w) (\<lambda>w1. Inr (decompressor_move e, w1))"
  by (simp_all add: compressor_assign_def compressor_delete_def compressor_move_def
      decompressor_assign_def decompressor_delete_def decompressor_move_def)

text \<open>
  The statements that need a live object. On a null pointer they are undefined; that is the
  only fault a statement can have.
\<close>

fun target :: "stmt \<Rightarrow> string option" where
  "target (Push x i out) = Some x"
| "target (Flush x out) = Some x"
| "target (Finish x out) = Some x"
| "target _ = None"

definition uses_moved_from :: "stmt \<Rightarrow> slots \<Rightarrow> bool" where
  "uses_moved_from st s \<longleftrightarrow> (\<exists>x. target st = Some x \<and> owners s x = None)"

definition stmt_ok ::
  "('l::len, 'b) env \<Rightarrow> stmt \<Rightarrow> slots \<Rightarrow> (slots \<times> ('l, 'b, 'm) stream_world_scheme) run \<Rightarrow> bool" where
  "stmt_ok E st s r \<longleftrightarrow>
     (if uses_moved_from st s then r = Inl Undefined_Behaviour
      else \<exists>s' w'. r = Inr (s', w') \<and> well_owned s' w')"

lemma comp_call_step:
  assumes law: "handle_op (op :: compressor \<Rightarrow> span \<Rightarrow> span \<Rightarrow> ('l::len, 'b, 'm) stream_world_scheme
      \<Rightarrow> (stream_reply \<times> ('l, 'b, 'm) stream_world_scheme) run) cp_cells cp_objects cp_ready True"
    and i: "well_owned s w" and x: "s x = Some (Comp_Var c)"
    and null: "\<And>i out. cimpls w (cp_impl c) = None \<Longrightarrow> op c i out w = Inl Undefined_Behaviour"
    and st: "target st = Some x"
  shows "stmt_ok E st s (chain (op c i out w) (\<lambda>(r, w'). Inr (s, w')))"
proof (cases "cp_impl c = 0")
  case True
  then have "cimpls w (cp_impl c) = None"
    using accountedD(1) [OF well_ownedD(1) [OF i]] by (auto simp: wf_stream_def)
  from null [OF this] True x st show ?thesis
    by (simp add: stmt_ok_def uses_moved_from_def owners_def)
next
  case False
  obtain p where c: "c = \<lparr>cp_impl = p\<rparr>" by (cases c) auto
  with x False have o1: "owners s x = Some (Comp p)" by (simp add: owners_def)
  note acc = well_ownedD(1) [OF i]
  from well_ownedD(4) [OF i o1] obtain h where h: "held w (Comp p) = Some h" by blast
  note r = accountedD(2) [OF acc] held_ready(1) [OF acc h refl]
  from handle_op.op_defined [OF law TrueI r] obtain q w' where op: "op c i out w = Inr (q, w')"
    unfolding c by blast
  from comp_call_keeps [OF acc h handle_op.op_frame [OF law TrueI r op [unfolded c]]]
  have "well_owned s w'" using well_owned_same [OF i] by blast
  with op o1 st show ?thesis by (simp add: stmt_ok_def uses_moved_from_def)
qed

lemma decomp_call_step:
  assumes law: "handle_op (op :: decompressor \<Rightarrow> span \<Rightarrow> span \<Rightarrow> ('l::len, 'b, 'm) stream_world_scheme
      \<Rightarrow> (stream_reply \<times> ('l, 'b, 'm) stream_world_scheme) run) dp_cells dp_objects dp_ready True"
    and i: "well_owned s w" and x: "s x = Some (Decomp_Var c)"
    and null: "\<And>i out. dimpls w (dp_impl c) = None \<Longrightarrow> op c i out w = Inl Undefined_Behaviour"
    and st: "target st = Some x"
  shows "stmt_ok E st s (chain (op c i out w) (\<lambda>(r, w'). Inr (s, w')))"
proof (cases "dp_impl c = 0")
  case True
  then have "dimpls w (dp_impl c) = None"
    using accountedD(1) [OF well_ownedD(1) [OF i]] by (auto simp: wf_stream_def)
  from null [OF this] True x st show ?thesis
    by (simp add: stmt_ok_def uses_moved_from_def owners_def)
next
  case False
  obtain p where c: "c = \<lparr>dp_impl = p\<rparr>" by (cases c) auto
  with x False have o1: "owners s x = Some (Decomp p)" by (simp add: owners_def)
  note acc = well_ownedD(1) [OF i]
  from well_ownedD(4) [OF i o1] obtain h where h: "held w (Decomp p) = Some h" by blast
  note r = accountedD(2) [OF acc] held_ready(2) [OF acc h refl]
  from handle_op.op_defined [OF law TrueI r] obtain q w' where op: "op c i out w = Inr (q, w')"
    unfolding c by blast
  from decomp_call_keeps [OF acc h handle_op.op_frame [OF law TrueI r op [unfolded c]]]
  have "well_owned s w'" using well_owned_same [OF i] by blast
  with op o1 st show ?thesis by (simp add: stmt_ok_def uses_moved_from_def)
qed

lemma lawful_calls:
  assumes "env_ok E" "zstd_end_progress (zstd E)"
  shows "handle_op (compressor_push E) cp_cells cp_objects cp_ready True"
    "handle_op (\<lambda>c i. compressor_flush E c) cp_cells cp_objects cp_ready True"
    "handle_op (\<lambda>c i. compressor_finish E c) cp_cells cp_objects cp_ready True"
    "handle_op (decompressor_push E) dp_cells dp_objects dp_ready True"
  using compressor_push.handle_op_axioms [of E] compressor_flush.handle_op_axioms [of E]
    compressor_finish.handle_op_axioms [of E] decompressor_push.handle_op_axioms [of E] assms
  by simp_all

lemma null_calls:
  "cimpls w (cp_impl c) = None \<Longrightarrow> compressor_push E c i out w = Inl Undefined_Behaviour"
  "cimpls w (cp_impl c) = None \<Longrightarrow> compressor_flush E c out w = Inl Undefined_Behaviour"
  "cimpls w (cp_impl c) = None \<Longrightarrow> compressor_finish E c out w = Inl Undefined_Behaviour"
  "dimpls w (dp_impl d) = None \<Longrightarrow> decompressor_push E d i out w = Inl Undefined_Behaviour"
  by (simp_all add: compressor_push_def compressor_flush_def compressor_finish_def
      decompressor_push_def compressor_handle_def decompressor_handle_def)

lemma new_compressor_ok:
  assumes "env_ok E" "allocations_succeed E w" "well_owned s w" "s x = None"
  shows "\<exists>r w'. compressor_new E f lvl w = Inr (r, w') \<and>
    well_owned (case r of Inl e \<Rightarrow> s | Inr c \<Rightarrow> s(x \<mapsto> Comp_Var c)) w'"
proof (cases "f = Fmt_Zstd \<or> level_in_range lvl")
  case True
  obtain v w' where "compressor_new E f lvl w = Inr (Inr \<lparr>cp_impl = brk w\<rparr>, w')" "accounted w'"
    "held w (Comp (brk w)) = None" "held w' = (held w)(Comp (brk w) := Some (Inl v))" "brk w \<noteq> 0"
    by (rule compressor_new_accounted [OF well_ownedD(1) [OF assms(3)] assms(1,2) True])
  then show ?thesis using well_owned_new [OF assms(3,4), of w' "Comp (brk w)"] by simp
next
  case False
  then have "compressor_new E f lvl w
      = Inr (Inl (Invalid_Argument ''level_unsupported: zlib levels are 0-9''), w)"
    by (auto simp: compressor_new_def level_in_range_def)
  then show ?thesis using assms(3) by simp
qed

lemma new_decompressor_ok:
  assumes "env_ok E" "allocations_succeed E w" "well_owned s w" "s x = None"
  shows "\<exists>d w'. decompressor_new E f w = Inr (d, w') \<and> well_owned (s(x \<mapsto> Decomp_Var d)) w'"
proof -
  obtain v w' where "decompressor_new E f w = Inr (\<lparr>dp_impl = brk w\<rparr>, w')" "accounted w'"
    "held w (Decomp (brk w)) = None" "held w' = (held w)(Decomp (brk w) := Some (Inr v))" "brk w \<noteq> 0"
    by (rule decompressor_new_accounted [OF well_ownedD(1) [OF assms(3)] assms(1,2)])
  then show ?thesis using well_owned_new [OF assms(3,4), of w' "Decomp (brk w)"] by simp
qed

lemma move_construct_ok:
  assumes i: "well_owned s w" and x: "s x = None" and y: "s y = Some v"
  shows "v = Comp_Var c \<Longrightarrow>
      well_owned (s(x \<mapsto> Comp_Var (fst (compressor_move c)), y \<mapsto> Comp_Var (snd (compressor_move c)))) w"
    "v = Decomp_Var d \<Longrightarrow>
      well_owned (s(x \<mapsto> Decomp_Var (fst (decompressor_move d)), y \<mapsto> Decomp_Var (snd (decompressor_move d)))) w"
proof -
  have s: "s(x := None) = s" using x by auto
  have ne: "x \<noteq> y" using x y by auto
  note t = well_owned_transfer [of s x w y, OF _ ne]
  show "well_owned (s(x \<mapsto> Comp_Var (fst (compressor_move c)), y \<mapsto> Comp_Var (snd (compressor_move c)))) w"
    if "v = Comp_Var c"
    by (rule t) (use i s y that in \<open>simp_all add: compressor_move_def owners_def\<close>)
  show "well_owned (s(x \<mapsto> Decomp_Var (fst (decompressor_move d)), y \<mapsto> Decomp_Var (snd (decompressor_move d)))) w"
    if "v = Decomp_Var d"
    by (rule t) (use i s y that in \<open>simp_all add: decompressor_move_def owners_def\<close>)
qed

lemma move_assign_comp_ok:
  assumes E: "env_ok E" and i: "well_owned s w" and x: "s x = Some (Comp_Var a)" and y: "s y = Some (Comp_Var b)"
  shows "\<exists>a' b' w'. compressor_assign E (x = y) a b w = Inr ((a', b'), w') \<and>
    well_owned (s(x \<mapsto> Comp_Var a', y \<mapsto> Comp_Var b')) w'"
proof (cases "x = y")
  case True
  then have "s(x \<mapsto> Comp_Var a, y \<mapsto> Comp_Var a) = s" using x by auto
  with True i show ?thesis by (simp add: compressor_assign_def)
next
  case False
  from comp_delete_step [OF E i x] obtain w1 where d: "compressor_delete E a w = Inr w1"
    "well_owned (s(x := None)) w1" by blast
  have "well_owned (s(x \<mapsto> Comp_Var (fst (compressor_move b)), y \<mapsto> Comp_Var (snd (compressor_move b)))) w1"
    by (rule well_owned_transfer [OF d(2) False]) (use y in \<open>simp_all add: compressor_move_def owners_def\<close>)
  with False d(1) show ?thesis by (auto simp: assign_eq compressor_move_def)
qed

lemma move_assign_decomp_ok:
  assumes E: "env_ok E" and i: "well_owned s w" and x: "s x = Some (Decomp_Var a)" and y: "s y = Some (Decomp_Var b)"
  shows "\<exists>a' b' w'. decompressor_assign E (x = y) a b w = Inr ((a', b'), w') \<and>
    well_owned (s(x \<mapsto> Decomp_Var a', y \<mapsto> Decomp_Var b')) w'"
proof (cases "x = y")
  case True
  then have "s(x \<mapsto> Decomp_Var a, y \<mapsto> Decomp_Var a) = s" using x by auto
  with True i show ?thesis by (simp add: decompressor_assign_def)
next
  case False
  from decomp_delete_step [OF E i x] obtain w1 where d: "decompressor_delete E a w = Inr w1"
    "well_owned (s(x := None)) w1" by blast
  have "well_owned (s(x \<mapsto> Decomp_Var (fst (decompressor_move b)), y \<mapsto> Decomp_Var (snd (decompressor_move b)))) w1"
    by (rule well_owned_transfer [OF d(2) False]) (use y in \<open>simp_all add: decompressor_move_def owners_def\<close>)
  with False d(1) show ?thesis by (auto simp: assign_eq decompressor_move_def)
qed

lemma stmt_okI:
  "target st = None \<Longrightarrow> r = Inr (s', w') \<Longrightarrow> well_owned s' w' \<Longrightarrow> stmt_ok E st s r"
  by (auto simp: stmt_ok_def uses_moved_from_def)

lemma exec_lifetime_ok:
  assumes E: "env_ok E" and al: "allocations_succeed E w" and i: "well_owned s w"
  shows "exec E (New_Compressor x f lvl) (s, w) = Some r \<Longrightarrow> stmt_ok E (New_Compressor x f lvl) s r"
    "exec E (New_Decompressor x f) (s, w) = Some r \<Longrightarrow> stmt_ok E (New_Decompressor x f) s r"
    "exec E (Destroy x) (s, w) = Some r \<Longrightarrow> stmt_ok E (Destroy x) s r"
proof -
  show "stmt_ok E (New_Compressor x f lvl) s r" if ex: "exec E (New_Compressor x f lvl) (s, w) = Some r"
  proof -
    have x: "s x = None" using ex by (auto split: if_splits)
    obtain q w' where q: "compressor_new E f lvl w = Inr (q, w')"
      "well_owned (case q of Inl e \<Rightarrow> s | Inr c \<Rightarrow> s(x \<mapsto> Comp_Var c)) w'"
      using new_compressor_ok [OF E al i x] by blast
    show ?thesis by (rule stmt_okI [OF _ _ q(2)]) (use ex x q(1) in auto)
  qed
  show "stmt_ok E (New_Decompressor x f) s r" if ex: "exec E (New_Decompressor x f) (s, w) = Some r"
  proof -
    have x: "s x = None" using ex by (auto split: if_splits)
    obtain d w' where d: "decompressor_new E f w = Inr (d, w')" "well_owned (s(x \<mapsto> Decomp_Var d)) w'"
      using new_decompressor_ok [OF E al i x] by blast
    show ?thesis by (rule stmt_okI [OF _ _ d(2)]) (use ex x d(1) in auto)
  qed
  show "stmt_ok E (Destroy x) s r" if ex: "exec E (Destroy x) (s, w) = Some r"
  proof -
    obtain v where x: "s x = Some v" using ex by (auto split: option.splits)
    have "\<exists>w'. r = Inr (s(x := None), w') \<and> well_owned (s(x := None)) w'"
      using comp_delete_step [OF E i, of x] decomp_delete_step [OF E i, of x] ex x
      by (cases v) fastforce+
    then show ?thesis by (auto intro: stmt_okI)
  qed
qed

lemma exec_call_ok:
  assumes E: "env_ok E" "zstd_end_progress (zstd E)" and i: "well_owned s w"
  shows "exec E (Push x sp out) (s, w) = Some r \<Longrightarrow> stmt_ok E (Push x sp out) s r"
    "exec E (Flush x out) (s, w) = Some r \<Longrightarrow> stmt_ok E (Flush x out) s r"
    "exec E (Finish x out) (s, w) = Some r \<Longrightarrow> stmt_ok E (Finish x out) s r"
proof -
  show "stmt_ok E (Push x sp out) s r" if "exec E (Push x sp out) (s, w) = Some r"
    using that by (auto intro!: comp_call_step [OF lawful_calls(1) [OF E] i]
      decomp_call_step [OF lawful_calls(4) [OF E] i] simp: null_calls split: option.splits variable.splits)
  show "stmt_ok E (Flush x out) s r" if "exec E (Flush x out) (s, w) = Some r"
    using that by (auto intro!: comp_call_step [OF lawful_calls(2) [OF E] i]
      simp: null_calls split: option.splits variable.splits)
  show "stmt_ok E (Finish x out) s r" if "exec E (Finish x out) (s, w) = Some r"
    using that by (auto intro!: comp_call_step [OF lawful_calls(3) [OF E] i]
      simp: null_calls split: option.splits variable.splits)
qed

lemma exec_move_ok:
  assumes E: "env_ok E" and i: "well_owned s w"
  shows "exec E (Move_Construct x y) (s, w) = Some r \<Longrightarrow> stmt_ok E (Move_Construct x y) s r"
    "exec E (Move_Assign x y) (s, w) = Some r \<Longrightarrow> stmt_ok E (Move_Assign x y) s r"
proof -
  show "stmt_ok E (Move_Construct x y) s r" if ex: "exec E (Move_Construct x y) (s, w) = Some r"
  proof -
    have x: "s x = None" using ex by (auto split: if_splits)
    obtain v where y: "s y = Some v" using ex x by (auto split: option.splits)
    have "\<exists>s'. r = Inr (s', w) \<and> well_owned s' w"
      using move_construct_ok [OF i x y] ex x y by (cases v) (fastforce simp: split_beta)+
    then show ?thesis by (auto intro: stmt_okI)
  qed
  show "stmt_ok E (Move_Assign x y) s r" if ex: "exec E (Move_Assign x y) (s, w) = Some r"
  proof -
    consider (c) a b where "s x = Some (Comp_Var a)" "s y = Some (Comp_Var b)"
      | (d) a b where "s x = Some (Decomp_Var a)" "s y = Some (Decomp_Var b)"
      using ex by (auto split: option.splits variable.splits)
    then have "\<exists>s' w'. r = Inr (s', w') \<and> well_owned s' w'"
    proof cases
      case c
      from move_assign_comp_ok [OF E i c] ex c show ?thesis by fastforce
    next
      case d
      from move_assign_decomp_ok [OF E i d] ex d show ?thesis by fastforce
    qed
    then show ?thesis by (auto intro: stmt_okI)
  qed
qed

lemma exec_ok:
  assumes "env_ok E" "zstd_end_progress (zstd E)" "allocations_succeed E w"
    and "well_owned s w" "exec E st (s, w) = Some r"
  shows "stmt_ok E st s r"
proof (cases st)
  case (New_Compressor x f lvl)
  show ?thesis using assms(5) unfolding New_Compressor by (rule exec_lifetime_ok(1) [OF assms(1,3,4)])
next
  case (New_Decompressor x f)
  show ?thesis using assms(5) unfolding New_Decompressor by (rule exec_lifetime_ok(2) [OF assms(1,3,4)])
next
  case (Push x i out)
  show ?thesis using assms(5) unfolding Push by (rule exec_call_ok(1) [OF assms(1,2,4)])
next
  case (Flush x out)
  show ?thesis using assms(5) unfolding Flush by (rule exec_call_ok(2) [OF assms(1,2,4)])
next
  case (Finish x out)
  show ?thesis using assms(5) unfolding Finish by (rule exec_call_ok(3) [OF assms(1,2,4)])
next
  case (Move_Construct x y)
  show ?thesis using assms(5) unfolding Move_Construct by (rule exec_move_ok(1) [OF assms(1,4)])
next
  case (Move_Assign x y)
  show ?thesis using assms(5) unfolding Move_Assign by (rule exec_move_ok(2) [OF assms(1,4)])
next
  case (Destroy x)
  show ?thesis using assms(5) unfolding Destroy by (rule exec_lifetime_ok(3) [OF assms(1,3,4)])
qed

lemma reachable_well_owned:
  assumes "reachable E s w" and E: "env_ok E" "zstd_end_progress (zstd E)"
  shows "well_owned s w"
  using assms(1)
proof (induction rule: reachable.induct)
  case (start w)
  then show ?case by (rule well_owned_start)
next
  case (step s w st s' w')
  from exec_ok [OF E step.hyps(2) step.IH step.hyps(3)] show ?case
    by (auto simp: stmt_ok_def split: if_splits)
qed

end
