(* ===== verification/Stream_Properties.thy ===== *)
theory Stream_Properties
  imports Client_Program One_Shot_Properties
begin

text \<open>
  The properties of \<open>compressor\<close> and \<open>decompressor\<close>: ownership over whole programs, what each
  call may touch, count, report and return, and where the two backends differ.
\<close>

section \<open>A setting for the examples\<close>

definition demo_stream :: "(64, ref_state) stream_world" where
  "demo_stream = \<lparr>mem = \<lambda>a. of_nat (a mod 7), zstreams = Map.empty, lib = Map.empty, brk = 1,
     cimpls = Map.empty, dimpls = Map.empty\<rparr>"

lemma demo_stream_sel [simp]:
  "mem demo_stream = (\<lambda>a. of_nat (a mod 7))" "zstreams demo_stream = Map.empty"
  "lib demo_stream = Map.empty" "brk demo_stream = 1" "cimpls demo_stream = Map.empty"
  "dimpls demo_stream = Map.empty"
  by (simp_all add: demo_stream_def)

lemma demo_stream_ok [simp]:
  "empty_heaps demo_stream" "wf_stream demo_stream" "wf_world demo_stream"
  by (simp_all add: empty_heaps_def wf_stream_def wf_world_def)

lemma ref_allocates_in:
  assumes "ref_fresh (lib w) \<noteq> None"
  shows "allocations_succeed (ref_env os nd) w"
proof -
  obtain a where a: "ref_fresh (lib w) = Some a" using assms by auto
  with ref_fresh_Some [of "lib w" a] show ?thesis
    by (simp add: allocations_succeed_def ref_init_def ref_create_def ref_is_error_def level_in_range_def)
qed

lemma demo_stream_allocates [simp]: "allocations_succeed (ref_env os nd) demo_stream"
  by (simp add: ref_allocates_in)

definition demo_zlib :: "ref_state \<Rightarrow> (64, ref_state) stream_world" where
  "demo_zlib x = \<lparr>mem = \<lambda>a. of_nat (a mod 7), zstreams = [2 \<mapsto> zero_stream\<lparr>zstate := 1\<rparr>],
     lib = [1 \<mapsto> x], brk = 3, cimpls = [1 \<mapsto> Zlib_Squeezer \<lparr>zsq_stream = 2\<rparr>], dimpls = Map.empty\<rparr>"

definition demo_zstd :: "ref_state \<Rightarrow> (64, ref_state) stream_world" where
  "demo_zstd x = \<lparr>mem = \<lambda>a. of_nat (a mod 7), zstreams = Map.empty, lib = [1 \<mapsto> x], brk = 2,
     cimpls = [1 \<mapsto> Zstd_Squeezer \<lparr>cctx = 1, csq_fmt = Fmt_Zstd, csq_level = 9\<rparr>],
     dimpls = Map.empty\<rparr>"

lemma demo_zlib_new:
  "compressor_new (ref_env 3 True) Fmt_Zlib zlib_best demo_stream
    = Inr (Inr \<lparr>cp_impl = 1\<rparr>, demo_zlib (Ref_Enc [] False))"
  by (simp add: compressor_new_def make_squeezer_def into_variant_eqs zlib_squeezer_new_def
      new_zstream_def ref_init_def zlib_best_def demo_zlib_def ref_header_def zero_stream_def demo_stream_def Let_def
      numeral_2_eq_2 numeral_3_eq_3)

lemma demo_zstd_new:
  "compressor_new (ref_env 3 True) Fmt_Zstd zlib_best demo_stream
    = Inr (Inr \<lparr>cp_impl = 1\<rparr>, demo_zstd (Ref_Enc [] False))"
  by (simp add: compressor_new_def make_squeezer_def into_variant_eqs zstd_squeezer_new_def
      ref_create_def ref_is_error_def zlib_best_def demo_zstd_def demo_stream_def Let_def)

section \<open>Ownership over whole programs\<close>

text \<open>
  C3: nothing leaks. In whatever order a program builds, calls, moves, assigns and destroys its
  compressors and decompressors, when its last variable is gone so is every allocation: no
  \<open>z_stream\<close>, no zlib state, no zstd context and no \<open>impl\<close> is left.
\<close>

theorem program_never_leaks:
  assumes "reachable E s w" "env_ok E" "zstd_end_progress (zstd E)" "s = Map.empty"
  shows "zstreams w = Map.empty \<and> lib w = Map.empty \<and> cimpls w = Map.empty \<and> dimpls w = Map.empty"
proof -
  have i: "well_owned s w" by (rule reachable_well_owned [OF assms(1-3)])
  note acc = accountedD [OF well_ownedD(1) [OF i]]
  have "dom (held w) = {}" using well_ownedD(3) [OF i] assms(4) by simp
  then have hd: "held w o1 = None" for o1 by (simp add: dom_def)
  then have "owned h_cells w = {}" "owned h_objects w = {}"
    by (simp_all add: owned_def ran_def)
  with acc(5,6) have "zstreams w = Map.empty" "lib w = Map.empty" by simp_all
  moreover have "cimpls w p = None" "dimpls w p = None" for p
    using hd [of "Comp p"] hd [of "Decomp p"] by (simp_all add: held_def)
  ultimately show ?thesis by blast
qed

text \<open>A program for the examples: build a compressor, move it to another name, destroy both.\<close>

lemma demo_zlib_allocates [simp]: "allocations_succeed (ref_env os nd) (demo_zlib x)"
proof -
  have "ref_fresh [1 \<mapsto> x] = Some 2" by (simp add: ref_fresh_def upt_conv_Cons)
  then show ?thesis by (intro ref_allocates_in) (simp add: demo_zlib_def)
qed

lemma demo_reach_1:
  "reachable (ref_env 3 True) [''a'' \<mapsto> Comp_Var \<lparr>cp_impl = 1\<rparr>] (demo_zlib (Ref_Enc [] False))"
  by (rule step [OF start, of demo_stream _ "New_Compressor ''a'' Fmt_Zlib zlib_best"])
    (simp_all add: demo_zlib_new)

lemma demo_reach_2:
  "reachable (ref_env 3 True)
    [''a'' \<mapsto> Comp_Var \<lparr>cp_impl = 0\<rparr>, ''b'' \<mapsto> Comp_Var \<lparr>cp_impl = 1\<rparr>] (demo_zlib (Ref_Enc [] False))"
  by (rule step [OF demo_reach_1, of "Move_Construct ''b'' ''a''"])
    (simp_all add: compressor_move_def fun_upd_twist)

lemma demo_reach_3:
  "\<exists>w :: (64, ref_state) stream_world. reachable (ref_env 3 True) Map.empty w \<and> 1 < brk w"
proof -
  let ?w = "demo_zlib (Ref_Enc [] False)"
  have 3: "reachable (ref_env 3 True) [''b'' \<mapsto> Comp_Var \<lparr>cp_impl = 1\<rparr>] ?w"
    by (rule step [OF demo_reach_2, of "Destroy ''a''"]) (auto simp: compressor_delete_def)
  have "\<exists>w'. compressor_delete (ref_env 3 True) \<lparr>cp_impl = 1\<rparr> ?w = Inr w' \<and> 1 < brk w'"
    by (simp add: compressor_delete_def compressor_impl_delete_def compressor_handle_def
        zlib_squeezer_delete_def delete_zstream_def demo_zlib_def ref_end_def)
  then obtain w' where "compressor_delete (ref_env 3 True) \<lparr>cp_impl = 1\<rparr> ?w = Inr w'" "1 < brk w'"
    by blast
  then have "reachable (ref_env 3 True) Map.empty w'"
    by (intro step [OF 3, of "Destroy ''b''"]) simp_all
  with \<open>1 < brk w'\<close> show ?thesis by blast
qed

lemma program_never_leaks_witness:
  "\<exists>w :: (64, ref_state) stream_world. reachable (ref_env 3 True) Map.empty w \<and> 1 < brk w \<and> zstreams w = Map.empty \<and> lib w = Map.empty"
proof -
  from demo_reach_3 obtain w :: "(64, ref_state) stream_world" where "reachable (ref_env 3 True) Map.empty w" "1 < brk w" by blast
  with program_never_leaks [of "ref_env 3 True" Map.empty w] show ?thesis
    by (auto simp: ref_zstd_progress)
qed

text \<open>
  C8: a moved-from object is the only way to go wrong. In every state a program can reach, a
  statement that compiles returns, unless it is a push, flush or finish on a variable whose
  contents were moved away, and then it is undefined behaviour. Construction, moves,
  assignments (also to self and to or from moved-from objects) and destruction never fault.
\<close>

theorem program_faults_only_on_moved_from:
  assumes "reachable E s w" "env_ok E" "zstd_end_progress (zstd E)" "allocations_succeed E w"
    and "exec E st (s, w) = Some r"
  shows "if uses_moved_from st s then r = Inl Undefined_Behaviour else \<exists>s' w'. r = Inr (s', w')"
  using exec_ok [OF assms(2-4) reachable_well_owned [OF assms(1-3)] assms(5)]
  by (auto simp: stmt_ok_def)

lemma program_faults_only_on_moved_from_witness:
  "exec (ref_env 3 True) (Finish ''a'' demo_out)
    ([''a'' \<mapsto> Comp_Var \<lparr>cp_impl = 0\<rparr>, ''b'' \<mapsto> Comp_Var \<lparr>cp_impl = 1\<rparr>], demo_zlib (Ref_Enc [] False))
    = Some (Inl Undefined_Behaviour)"
proof -
  let ?c = "([''a'' \<mapsto> Comp_Var \<lparr>cp_impl = 0\<rparr>, ''b'' \<mapsto> Comp_Var \<lparr>cp_impl = 1\<rparr>], demo_zlib (Ref_Enc [] False))"
  obtain r where r: "exec (ref_env 3 True) (Finish ''a'' demo_out) ?c = Some r" by simp
  have "uses_moved_from (Finish ''a'' demo_out) (fst ?c)"
    by (simp add: uses_moved_from_def owners_def)
  with program_faults_only_on_moved_from [OF demo_reach_2 _ _ _ r] r show ?thesis
    by (simp add: ref_zstd_progress)
qed

text \<open>
  C10: one owner each. In every reachable state each \<open>z_stream\<close> cell and each object of the C
  libraries belongs to the \<open>impl\<close> of exactly one variable of the program; no two variables
  share anything, and nothing is without an owner.
\<close>

theorem every_allocation_has_one_owner:
  assumes "reachable E s w" "env_ok E" "zstd_end_progress (zstd E)"
    and "a \<in> dom (zstreams w) \<and> F = h_cells \<or> a \<in> dom (lib w) \<and> F = h_objects"
  shows "\<exists>!x. \<exists>z h. owners s x = Some z \<and> held w z = Some h \<and> a \<in> F h w"
proof -
  have i: "well_owned s w" by (rule reachable_well_owned [OF assms(1-3)])
  note acc = accountedD [OF well_ownedD(1) [OF i]]
  from assms(4) acc(5,6) have "a \<in> owned F w" by auto
  then obtain z h where z: "held w z = Some h" "a \<in> F h w" by (auto simp: owned_iff)
  then have "z \<in> ran (owners s)" using well_ownedD(3) [OF i] by auto
  then obtain x where x: "owners s x = Some z" by (auto simp: ran_def)
  show ?thesis
  proof (rule ex1I [of _ x])
    show "\<exists>z h. owners s x = Some z \<and> held w z = Some h \<and> a \<in> F h w" using x z by blast
    fix y assume "\<exists>z h. owners s y = Some z \<and> held w z = Some h \<and> a \<in> F h w"
    then obtain z2 h2 where 2: "owners s y = Some z2" "held w z2 = Some h2" "a \<in> F h2 w" by blast
    have "z2 = z"
    proof (rule ccontr)
      assume "z2 \<noteq> z"
      from acc(4) [OF 2(2) z(1) this] 2(3) z(2) assms(4) show False by auto
    qed
    with 2(1) x well_ownedD(2) [OF i] show "y = x" by (auto simp: unique_def)
  qed
qed

lemma every_allocation_has_one_owner_witness:
  "\<exists>!x. \<exists>z h. owners [''a'' \<mapsto> Comp_Var \<lparr>cp_impl = 0\<rparr>, ''b'' \<mapsto> Comp_Var \<lparr>cp_impl = 1\<rparr>] x = Some z \<and>
    held (demo_zlib (Ref_Enc [] False)) z = Some h \<and> 2 \<in> h_cells h (demo_zlib (Ref_Enc [] False))"
  by (rule every_allocation_has_one_owner [OF demo_reach_2])
    (simp_all add: ref_zstd_progress demo_zlib_def)

section \<open>Construction\<close>

text \<open>
  When the constructor throws. It throws \<open>std::invalid_argument\<close> exactly for a level outside
  0 to 9 with a format other than zstd, before anything is allocated or changed, in every build;
  with zstd any \<open>int\<close> is accepted.
\<close>

theorem compressor_throws_iff:
  "compressor_new E f lvl w = Inr (Inl e, w') \<longleftrightarrow>
     f \<noteq> Fmt_Zstd \<and> \<not> level_in_range lvl \<and> w' = w \<and>
     e = Invalid_Argument ''level_unsupported: zlib levels are 0-9''"
  by (auto simp: compressor_new_def level_in_range_def Let_def chain_Inr_iff split: if_splits)

text \<open>
  C33: streaming serves \<open>lz4_frame\<close> with zlib. For both classes, asking for \<open>lz4_frame\<close> does
  exactly what asking for \<open>zlib\<close> does, while the one-shot calls refuse the format.
\<close>

theorem streaming_lz4_is_zlib:
  "compressor_new E Fmt_Lz4_Frame lvl w = compressor_new E Fmt_Zlib lvl w \<and>
   decompressor_new E Fmt_Lz4_Frame w = decompressor_new E Fmt_Zlib w \<and>
   squeeze E Fmt_Lz4_Frame lvl i out w = Inr (Inl no_such_format, w) \<and>
   swell E Fmt_Lz4_Frame i out w = Inr (Inl no_such_format, w)"
proof -
  have "zlib_squeezer_new E Fmt_Lz4_Frame lvl v = zlib_squeezer_new E Fmt_Zlib lvl v"
    "zlib_sweller_new E Fmt_Lz4_Frame v = zlib_sweller_new E Fmt_Zlib v" for v :: "('a, 'b, 'c stream_world_ext) world_scheme"
    by (simp_all add: zlib_squeezer_new_def zlib_sweller_new_def)
  then have "make_squeezer E Fmt_Lz4_Frame lvl v = make_squeezer E Fmt_Zlib lvl v"
    "make_sweller E Fmt_Lz4_Frame v = make_sweller E Fmt_Zlib v"
    for v :: "('a, 'b, 'c stream_world_ext) world_scheme"
    by (simp_all add: make_squeezer_def make_sweller_def into_variant_eqs)
  then show ?thesis
    by (simp add: compressor_new_def decompressor_new_def Let_def squeeze_def swell_def)
qed

text \<open>
  C34: a backend that is not compiled in. The objects can still be built, and every call on them
  returns \<open>format_mismatch\<close> and changes nothing.
\<close>

theorem missing_backend_mismatch:
  assumes "f = Fmt_Zstd \<or> level_in_range lvl" "if f = Fmt_Zstd then \<not> has_zstd E else \<not> has_zlib E"
  shows "\<exists>c d w1 w2. compressor_new E f lvl w = Inr (Inr c, w1) \<and>
    decompressor_new E f w1 = Inr (d, w2) \<and>
    compressor_push E c i out w2 = Inr (Inl format_mismatch_err, w2) \<and>
    compressor_flush E c out w2 = Inr (Inl format_mismatch_err, w2) \<and>
    compressor_finish E c out w2 = Inr (Inl format_mismatch_err, w2) \<and>
    decompressor_push E d i out w2 = Inr (Inl format_mismatch_err, w2)"
  using assms
  by (cases f) (auto simp: compressor_new_def decompressor_new_def make_squeezer_def make_sweller_def
      level_in_range_def Let_def compressor_push_def compressor_flush_def compressor_finish_def
      decompressor_push_def compressor_handle_def decompressor_handle_def stream_reply_of_def)

lemma missing_backend_mismatch_witness:
  "\<exists>c d w1 w2. compressor_new ((ref_env 3 True)\<lparr>has_zlib := False\<rparr>) Fmt_Gzip zlib_best demo_stream = Inr (Inr c, w1) \<and>
    decompressor_new ((ref_env 3 True)\<lparr>has_zlib := False\<rparr>) Fmt_Gzip w1 = Inr (d, w2) \<and>
    decompressor_push ((ref_env 3 True)\<lparr>has_zlib := False\<rparr>) d demo_in demo_out w2
      = Inr (Inl format_mismatch_err, w2)"
  using missing_backend_mismatch [of Fmt_Gzip zlib_best "(ref_env 3 True)\<lparr>has_zlib := False\<rparr>" demo_stream
      demo_in demo_out]
  by auto

section \<open>Calls\<close>

text \<open>
  C16: what a streaming call may touch. A push, flush or finish on a live compressor returns, and
  changes only the bytes of its output span, its own stream cell and its own library object;
  the \<open>impl\<close> objects and every other allocation stay as they are.
\<close>

theorem compressor_calls_contained:
  assumes "env_ok E" "zstd_end_progress (zstd E)" "wf_world w" "cp_ready c w"
    and call: "call = compressor_push E c i out \<or> call = compressor_flush E c out \<or>
      call = compressor_finish E c out"
  shows "\<exists>r w'. call w = Inr (r, w') \<and> frame (cp_cells c w) (cp_objects c w) w w' \<and>
    same_outside (mem w) (mem w') (span_data out) (unat (span_size out)) \<and> wf_world w' \<and> cp_ready c w'"
proof -
  note laws = lawful_calls [OF assms(1,2)]
  note r = TrueI assms(3,4)
  from call show ?thesis
  proof (elim disjE)
    assume c: "call = compressor_push E c i out"
    obtain q w' where "compressor_push E c i out w = Inr (q, w')"
      using handle_op.op_defined [OF laws(1) r] by blast
    with handle_op.op_frame [OF laws(1) r this] handle_op.op_writes [OF laws(1) r this]
    show ?thesis by (simp add: c)
  next
    assume c: "call = compressor_flush E c out"
    obtain q w' where "compressor_flush E c out w = Inr (q, w')"
      using handle_op.op_defined [OF laws(2) r] by blast
    with handle_op.op_frame [OF laws(2) r this] handle_op.op_writes [OF laws(2) r this]
    show ?thesis by (simp add: c)
  next
    assume c: "call = compressor_finish E c out"
    obtain q w' where "compressor_finish E c out w = Inr (q, w')"
      using handle_op.op_defined [OF laws(3) r] by blast
    with handle_op.op_frame [OF laws(3) r this] handle_op.op_writes [OF laws(3) r this]
    show ?thesis by (simp add: c)
  qed
qed

lemma demo_ready:
  "cp_ready \<lparr>cp_impl = 1\<rparr> (demo_zlib x)" "cp_ready \<lparr>cp_impl = 1\<rparr> (demo_zstd x)"
  "wf_world (demo_zlib x)" "wf_world (demo_zstd x)"
  by (simp_all add: cp_ready_def over_def cp_get_def demo_zlib_def demo_zstd_def zready_def
      ctx_ready_def wf_world_def zero_stream_def)

lemmas demo_ready_simps [simp] = demo_ready [unfolded One_nat_def]

lemma compressor_calls_contained_witness:
  "\<exists>r w'. compressor_finish (ref_env 3 True) \<lparr>cp_impl = 1\<rparr> demo_out (demo_zstd (Ref_Enc [1, 7] False))
      = Inr (r, w') \<and> same_outside (\<lambda>a. of_nat (a mod 7)) (mem w') 2000 64 \<and> wf_world w'"
proof -
  let ?w = "demo_zstd (Ref_Enc [1, 7] False)"
  have "mem ?w = (\<lambda>a. of_nat (a mod 7))" by (simp add: demo_zstd_def)
  with compressor_calls_contained [of "ref_env 3 True" ?w "\<lparr>cp_impl = 1\<rparr>"
      "compressor_finish (ref_env 3 True) \<lparr>cp_impl = 1\<rparr> demo_out" empty_span demo_out]
  show ?thesis by (auto simp: ref_zstd_progress)
qed

text \<open>
  C17: the same for decompression. A push on a live decompressor returns on any input, and
  changes only its output span and what it owns.
\<close>

theorem decompressor_push_contained:
  assumes "env_ok E" "wf_world w" "dp_ready d w"
  shows "\<exists>r w'. decompressor_push E d i out w = Inr (r, w') \<and>
    frame (dp_cells d w) (dp_objects d w) w w' \<and>
    same_outside (mem w) (mem w') (span_data out) (unat (span_size out)) \<and> wf_world w' \<and> dp_ready d w'"
proof -
  obtain q w' where "decompressor_push E d i out w = Inr (q, w')"
    using decompressor_push.op_defined [OF assms] by blast
  with decompressor_push.op_frame [OF assms this] decompressor_push.op_writes [OF assms this]
  show ?thesis by simp
qed

definition demo_dzstd :: "ref_state \<Rightarrow> (64, ref_state) stream_world" where
  "demo_dzstd x = \<lparr>mem = \<lambda>a. of_nat (a mod 7), zstreams = Map.empty, lib = [1 \<mapsto> x], brk = 2,
     cimpls = Map.empty, dimpls = [1 \<mapsto> Zstd_Sweller \<lparr>dctx = 1, dsw_fmt = Fmt_Zstd\<rparr>]\<rparr>"

lemma demo_dready: "dp_ready \<lparr>dp_impl = 1\<rparr> (demo_dzstd x)" "wf_world (demo_dzstd x)"
  by (simp_all add: dp_ready_def over_def dp_get_def demo_dzstd_def ctx_ready_def wf_world_def)

lemmas demo_dready_simps [simp] = demo_dready [unfolded One_nat_def]

lemma decompressor_push_contained_witness:
  "\<exists>r w'. decompressor_push (ref_env 3 True) \<lparr>dp_impl = 1\<rparr> demo_in demo_out (demo_dzstd (Ref_Dec 0 At_Tag []))
      = Inr (r, w') \<and> same_outside (mem (demo_dzstd (Ref_Dec 0 At_Tag []))) (mem w') 2000 64"
  using decompressor_push_contained [of "ref_env 3 True" "demo_dzstd (Ref_Dec 0 At_Tag [])" "\<lparr>dp_impl = 1\<rparr>"
      demo_in demo_out]
  by auto

section \<open>Byte counts and the done flag\<close>

lemma visit_counts:
  fixes E :: "(64, 'b) env" and w :: "(64, 'b, 'm) world_scheme"
  assumes E: "env_ok E" and w: "wf_world w" "sq_ready v w"
  shows "push_visit_squeezer E i out v w = Inr (Inr p, w') \<Longrightarrow> po_in p \<le> span_size i \<and> po_out p \<le> span_size out"
    "flush_visit E out v w = Inr (Inr p, w') \<Longrightarrow> po_out p \<le> span_size out"
    "zstd_end_progress (zstd E) \<Longrightarrow> finish_visit E out v w = Inr (Inr p, w') \<Longrightarrow>
      po_in p = 0 \<and> po_out p \<le> span_size out"
proof -
  have laws: "zlib_heap_contract (zlib E)" "zstd_heap_contract (zstd E)"
    using E by (simp_all add: env_ok_def)
  show "po_in p \<le> span_size i \<and> po_out p \<le> span_size out"
    if "push_visit_squeezer E i out v w = Inr (Inr p, w')"
    using that w zlib_squeezer_more_counts.op_counts [OF laws(1) w(1)]
      zstd_squeezer_more_counts.op_counts [OF laws(2) w(1)]
    by (cases v) (fastforce simp: chain_adapt_split)+
  show "po_out p \<le> span_size out" if "flush_visit E out v w = Inr (Inr p, w')"
    using that w zlib_squeezer_sync_counts.op_counts [OF laws(1) w(1)]
      zstd_squeezer_sync_counts.op_counts [OF laws(2) w(1)]
    by (cases v) (fastforce simp: chain_adapt_split)+
  show "po_in p = 0 \<and> po_out p \<le> span_size out"
    if "zstd_end_progress (zstd E)" "finish_visit E out v w = Inr (Inr p, w')"
    using that w zlib_squeezer_end_counts.op_counts [OF laws(1) w(1)]
      zstd_squeezer_end_counts.op_counts [OF conjI [OF laws(2) that(1)] w(1)]
    by (cases v) (fastforce simp: chain_adapt_split)+
qed

lemma cp_ready_variant: "cp_ready c w \<Longrightarrow> cimpls w (cp_impl c) = Some v \<Longrightarrow> sq_ready v w"
  by (simp add: cp_ready_def over_def cp_get_def)

text \<open>
  C21: honest counts of the compressor. With a 64-bit \<open>uLong\<close>, on either backend, a push reports
  no more consumed than its input and no more produced than its output span holds; flush and
  finish report nothing consumed and no more produced than their span holds.
\<close>

theorem compressor_counts:
  fixes E :: "(64, 'b) env" and w :: "(64, 'b, 'm) stream_world_scheme"
  assumes E: "env_ok E" "zstd_end_progress (zstd E)" and w: "wf_world w" "cp_ready c w"
    and run: "(compressor_push E c i out w = Inr (Inr r, w') \<and> n = span_size i) \<or>
      (compressor_flush E c out w = Inr (Inr r, w') \<and> n = 0) \<or>
      (compressor_finish E c out w = Inr (Inr r, w') \<and> n = 0)"
  shows "bytes_consumed r \<le> n \<and> bytes_produced r \<le> span_size out"
  using run
proof (elim disjE conjE)
  assume "compressor_push E c i out w = Inr (Inr r, w')" "n = span_size i"
  then show ?thesis using compressor_call_cases(1) visit_counts(1) [OF E(1) w(1)] cp_ready_variant [OF w(2)]
    by fastforce
next
  assume "compressor_flush E c out w = Inr (Inr r, w')" "n = 0"
  then show ?thesis using compressor_call_cases(2) visit_counts(2) [OF E(1) w(1)] cp_ready_variant [OF w(2)]
    by fastforce
next
  assume "compressor_finish E c out w = Inr (Inr r, w')" "n = 0"
  then show ?thesis using compressor_call_cases(3) visit_counts(3) [OF E(1) w(1) _ E(2)] cp_ready_variant [OF w(2)]
    by fastforce
qed

lemma demo_zstd_finish:
  "zstd_squeezer_finish (ref_env 3 True) \<lparr>cctx = 1, csq_fmt = Fmt_Zstd, csq_level = 9\<rparr>
     \<lparr>span_data = 2000, span_size = 0\<rparr> (demo_zstd (Ref_Enc [1, 7] False))
    = Inr (Inr (mk_progress 0 0 False), demo_zstd (Ref_Enc [1, 7, 0] True))"
proof -
  have "zstd_finish_loop ref_zstd 1 \<lparr>ob_dst = 2000, ob_size = 0, ob_pos = 0\<rparr> \<lparr>ib_src = 0, ib_size = 0, ib_pos = 0\<rparr>
      (\<lambda>a. of_nat (a mod 7)) [1 \<mapsto> Ref_Enc [1, 7] False]
    = Some (Inr (mk_progress 0 0 False), \<lambda>a. of_nat (a mod 7), [1 \<mapsto> Ref_Enc [1, 7, 0] True])"
    by (subst zstd_finish_loop.simps) (simp add: ref_compress_stream_def ref_buffers_def ref_advance_def ref_is_error_def)
  then show ?thesis
    by (simp add: demo_zstd_def zstd_squeezer_finish_def live_ctx_def out_window_def no_input_def)
qed

lemma demo_zstd_impl:
  "cimpls (demo_zstd x) (cp_impl \<lparr>cp_impl = 1\<rparr>)
    = Some (Zstd_Squeezer \<lparr>cctx = 1, csq_fmt = Fmt_Zstd, csq_level = 9\<rparr>)"
  by (simp add: demo_zstd_def)

lemma compressor_counts_witness:
  "\<exists>r w'. compressor_finish (ref_env 3 True) \<lparr>cp_impl = 1\<rparr> \<lparr>span_data = 2000, span_size = 0\<rparr>
      (demo_zstd (Ref_Enc [1, 7] False)) = Inr (Inr r, w') \<and> bytes_consumed r \<le> 0 \<and> bytes_produced r \<le> 0"
proof -
  have "\<exists>r w'. compressor_finish (ref_env 3 True) \<lparr>cp_impl = 1\<rparr> \<lparr>span_data = 2000, span_size = 0\<rparr>
      (demo_zstd (Ref_Enc [1, 7] False)) = Inr (Inr r, w')"
    using demo_zstd_finish demo_zstd_impl
    by (simp add: compressor_finish_def compressor_handle_def adapt_def stream_reply_of_def)
  then obtain r w' where "compressor_finish (ref_env 3 True) \<lparr>cp_impl = 1\<rparr> \<lparr>span_data = 2000, span_size = 0\<rparr>
      (demo_zstd (Ref_Enc [1, 7] False)) = Inr (Inr r, w')" by blast
  with compressor_counts [of "ref_env 3 True" "demo_zstd (Ref_Enc [1, 7] False)" "\<lparr>cp_impl = 1\<rparr>"
      empty_span "\<lparr>span_data = 2000, span_size = 0\<rparr>" r w' 0]
  show ?thesis by (auto simp: ref_zstd_progress)
qed

text \<open>
  \<open>finish\<close> always says done. On zstd, when the loop stops because the output span is full
  and frame data is still held back (the backend reports not done), the public call reports
  the same bytes with \<open>done\<close> true.
\<close>

theorem finish_done_when_output_full:
  assumes "cimpls w (cp_impl c) = Some (Zstd_Squeezer h)"
    and "zstd_squeezer_finish E h out w = Inr (Inr p, w')" "\<not> pg_done p"
  shows "compressor_finish E c out w
    = Inr (Inr \<lparr>bytes_consumed = 0, bytes_produced = pg_out p, sr_done = True\<rparr>, w')"
  using assms by (simp add: compressor_finish_def compressor_handle_def adapt_def stream_reply_of_def)

lemma finish_done_when_output_full_witness:
  "compressor_finish (ref_env 3 True) \<lparr>cp_impl = 1\<rparr> \<lparr>span_data = 2000, span_size = 0\<rparr>
      (demo_zstd (Ref_Enc [1, 7] False))
    = Inr (Inr \<lparr>bytes_consumed = 0, bytes_produced = 0, sr_done = True\<rparr>, demo_zstd (Ref_Enc [1, 7, 0] True))"
  using finish_done_when_output_full [OF demo_zstd_impl demo_zstd_finish] by simp

text \<open>
  C19: zstd's finish loop ends. Under the documented progress of the end directive, \<open>finish\<close>
  returns for every output span, the empty one included; and when the backend reports a value
  that is not done, the output span is exactly full.
\<close>

theorem zstd_finish_terminates:
  assumes "zstd_heap_contract (zstd E)" "zstd_end_progress (zstd E)" "ctx_ready (cctx h) w"
  shows "\<exists>r w'. zstd_squeezer_finish E h out w = Inr (r, w') \<and>
    (\<forall>p. r = Inr p \<longrightarrow> pg_out p \<le> span_size out \<and> (\<not> pg_done p \<longrightarrow> pg_out p = span_size out))"
proof -
  obtain r m L where "zstd_squeezer_finish E h out w = Inr (r, w\<lparr>mem := m, lib := L\<rparr>)"
    "\<And>p. r = Inr p \<Longrightarrow> pg_in p = 0 \<and> pg_out p \<le> span_size out \<and> (\<not> pg_done p \<longrightarrow> pg_out p = span_size out)"
    by (rule zstd_squeezer_finish_run [OF assms]) blast
  then show ?thesis by blast
qed

lemma zstd_finish_terminates_witness:
  "\<exists>r w'. zstd_squeezer_finish (ref_env 3 True) \<lparr>cctx = 1, csq_fmt = Fmt_Zstd, csq_level = 9\<rparr> demo_out
      (demo_zstd (Ref_Enc [1, 7] False)) = Inr (r, w')"
  using zstd_finish_terminates [of "ref_env 3 True" "\<lparr>cctx = 1, csq_fmt = Fmt_Zstd, csq_level = 9\<rparr>"
      "demo_zstd (Ref_Enc [1, 7] False)" demo_out]
  by (auto simp: ref_zstd_heap ref_zstd_progress ctx_ready_def demo_zstd_def)

lemma decompressor_push_counts:
  fixes E :: "(64, 'b) env" and w :: "(64, 'b, 'm) stream_world_scheme"
  assumes "env_ok E" "wf_world w" "dp_ready d w" and run: "decompressor_push E d i out w = Inr (Inr r, w')"
  shows "bytes_consumed r \<le> span_size i \<and> bytes_produced r \<le> span_size out"
proof -
  have laws: "zlib_heap_contract (zlib E)" "zstd_heap_contract (zstd E)"
    using assms(1) by (simp_all add: env_ok_def)
  obtain v where v: "dimpls w (dp_impl d) = Some v" "sw_ready v w"
    using assms(3) by (auto simp: dp_ready_def over_def dp_get_def split: option.splits)
  with run obtain p where p: "push_visit_sweller E i out v w = Inr (Inr p, w')"
    "bytes_consumed r = po_in p" "bytes_produced r = po_out p"
    by (auto simp: decompressor_push_def decompressor_handle_def chain_reply_split)
  have "po_in p \<le> span_size i \<and> po_out p \<le> span_size out"
    using p(1) v(2) zlib_sweller_more_counts.op_counts [OF laws(1) assms(2)]
      zstd_sweller_more_counts.op_counts [OF laws(2) assms(2)]
    by (cases v) (fastforce simp: chain_adapt_split)+
  with p show ?thesis by simp
qed

text \<open>
  C22: honest counts of the decompressor, with a 64-bit \<open>uLong\<close>: a push reports no more consumed
  than its input and no more produced than its output span holds.
\<close>

theorem decompressor_counts:
  fixes E :: "(64, 'b) env" and w :: "(64, 'b, 'm) stream_world_scheme"
  assumes "env_ok E" "wf_world w" "dp_ready d w" and run: "decompressor_push E d i out w = Inr (Inr r, w')"
  shows "bytes_consumed r \<le> span_size i \<and> bytes_produced r \<le> span_size out"
  by (rule decompressor_push_counts [OF assms])

text \<open>The run of the example: two bytes in, one byte out, the stream not ended.\<close>

lemma demo_dzstd_push:
  "\<exists>r w'. decompressor_push (ref_env 3 True) \<lparr>dp_impl = 1\<rparr> \<lparr>span_data = 1, span_size = 2\<rparr> demo_out
      (demo_dzstd (Ref_Dec 0 At_Tag [])) = Inr (Inr r, w')"
  by (simp add: decompressor_push_def decompressor_handle_def demo_dzstd_def zstd_sweller_push_more_def
      live_ctx_def out_window_def in_window_def ref_decompress_stream_def ref_buffers_def bytes_at_def upt_conv_Cons
      ref_advance_def ref_is_error_def adapt_def stream_reply_of_def Let_def)

lemma decompressor_counts_witness:
  "\<exists>r w'. decompressor_push (ref_env 3 True) \<lparr>dp_impl = 1\<rparr> \<lparr>span_data = 1, span_size = 2\<rparr> demo_out
      (demo_dzstd (Ref_Dec 0 At_Tag [])) = Inr (Inr r, w') \<and> bytes_consumed r \<le> 2 \<and> bytes_produced r \<le> 64"
proof -
  obtain r w' where r: "decompressor_push (ref_env 3 True) \<lparr>dp_impl = 1\<rparr> \<lparr>span_data = 1, span_size = 2\<rparr> demo_out
      (demo_dzstd (Ref_Dec 0 At_Tag [])) = Inr (Inr r, w')"
    using demo_dzstd_push by blast
  with decompressor_counts [OF _ _ _ r] show ?thesis by (auto simp: demo_dready)
qed

section \<open>Errors of the streaming calls\<close>

lemma call_error_cases:
  "compressor_push E c i out w = Inr (Inl e, w') \<Longrightarrow>
    \<exists>v. cimpls w (cp_impl c) = Some v \<and> push_visit_squeezer E i out v w = Inr (Inl e, w')"
  "compressor_flush E c out w = Inr (Inl e, w') \<Longrightarrow>
    \<exists>v. cimpls w (cp_impl c) = Some v \<and> flush_visit E out v w = Inr (Inl e, w')"
  "compressor_finish E c out w = Inr (Inl e, w') \<Longrightarrow>
    \<exists>v. cimpls w (cp_impl c) = Some v \<and> finish_visit E out v w = Inr (Inl e, w')"
  "decompressor_push E d i out w = Inr (Inl e, w') \<Longrightarrow>
    \<exists>u. dimpls w (dp_impl d) = Some u \<and> push_visit_sweller E i out u w = Inr (Inl e, w')"
  by (auto simp: compressor_push_def compressor_flush_def compressor_finish_def decompressor_push_def
      compressor_handle_def decompressor_handle_def chain_reply_split split: option.splits)

text \<open>What one call on a handle can fail with.\<close>

lemma zlib_more_errors:
  "zlib_squeezer_push_more E h i out w = Inr (Inl e, w') \<Longrightarrow> err_k e = Backend_Failure \<and> err_b e = Zlib_Id"
  "zlib_squeezer_flush E h out w = Inr (Inl e, w') \<Longrightarrow> err_k e = Backend_Failure \<and> err_b e = Zlib_Id"
  "zlib_squeezer_finish E h out w = Inr (Inl e, w') \<Longrightarrow> err_k e = Backend_Failure \<and> err_b e = Zlib_Id"
  "zlib_sweller_push_more E g i out w = Inr (Inl e, w') \<Longrightarrow> err_k e = Stream_Corrupt \<and> err_b e = Zlib_Id"
  by (auto simp: zlib_squeezer_push_more_def zlib_squeezer_flush_def zlib_squeezer_finish_def
      zlib_squeezer_push_def zlib_sweller_push_more_def chain_Inr_iff split: if_splits)

lemma zstd_more_errors:
  "zstd_squeezer_push_more E h i out w = Inr (Inl e, w') \<Longrightarrow> err_k e = Backend_Failure \<and> err_b e = Zstd_Id"
  "zstd_squeezer_flush E h out w = Inr (Inl e, w') \<Longrightarrow> err_k e = Backend_Failure \<and> err_b e = Zstd_Id"
  "zstd_squeezer_finish E h out w = Inr (Inl e, w') \<Longrightarrow> err_k e = Backend_Failure \<and> err_b e = Zstd_Id"
  "zstd_sweller_push_more E g i out w = Inr (Inl e, w') \<Longrightarrow> err_k e = Stream_Corrupt \<and> err_b e = Zstd_Id"
  by (auto simp: zstd_squeezer_push_more_def zstd_squeezer_flush_def zstd_squeezer_finish_def
      zstd_sweller_push_more_def zstd_error_def chain_Inr_iff Let_def
      split: if_splits prod.splits option.splits dest!: zstd_finish_loop_error)

text \<open>
  C27: every error of the compressor's calls. Push, flush and finish fail only with
  \<open>format_mismatch\<close> and the world untouched, when the backend is not compiled in, or with
  \<open>backend_failure\<close> naming the backend the variant holds.
\<close>

theorem compressor_errors:
  assumes "compressor_push E c i out w = Inr (Inl e, w') \<or> compressor_flush E c out w = Inr (Inl e, w') \<or>
    compressor_finish E c out w = Inr (Inl e, w')"
  shows "\<exists>v. cimpls w (cp_impl c) = Some v \<and> (case v of
      Zlib_Squeezer h \<Rightarrow> err_k e = Backend_Failure \<and> err_b e = Zlib_Id
    | Zstd_Squeezer h \<Rightarrow> err_k e = Backend_Failure \<and> err_b e = Zstd_Id
    | _ \<Rightarrow> e = format_mismatch_err \<and> w' = w)"
proof -
  have "\<exists>v. cimpls w (cp_impl c) = Some v \<and> (push_visit_squeezer E i out v w = Inr (Inl e, w') \<or>
      flush_visit E out v w = Inr (Inl e, w') \<or> finish_visit E out v w = Inr (Inl e, w'))"
    using assms by (auto dest!: call_error_cases(1-3))
  then obtain v where v: "cimpls w (cp_impl c) = Some v"
    and e: "push_visit_squeezer E i out v w = Inr (Inl e, w') \<or> flush_visit E out v w = Inr (Inl e, w') \<or>
      finish_visit E out v w = Inr (Inl e, w')"
    by blast
  have "case v of
      Zlib_Squeezer h \<Rightarrow> err_k e = Backend_Failure \<and> err_b e = Zlib_Id
    | Zstd_Squeezer h \<Rightarrow> err_k e = Backend_Failure \<and> err_b e = Zstd_Id
    | _ \<Rightarrow> e = format_mismatch_err \<and> w' = w"
    using e by (cases v) (auto simp: chain_adapt_split dest: zlib_more_errors zstd_more_errors)
  with v show ?thesis by blast
qed

lemma compressor_errors_witness:
  "\<exists>v. cimpls (demo_zstd (Ref_Dec 0 At_Tag [])) 1 = Some v \<and> (case v of Zstd_Squeezer h \<Rightarrow> True | _ \<Rightarrow> False)"
proof -
  have "\<exists>e w'. compressor_push (ref_env 3 True) \<lparr>cp_impl = 1\<rparr> demo_in demo_out (demo_zstd (Ref_Dec 0 At_Tag []))
      = Inr (Inl e, w') \<and> err_b e = Zstd_Id"
    by (simp add: compressor_push_def compressor_handle_def demo_zstd_def zstd_squeezer_push_more_def live_ctx_def
        ref_compress_stream_def ref_is_error_def adapt_def stream_reply_of_def zstd_error_def Let_def)
  then obtain e w' where c: "compressor_push (ref_env 3 True) \<lparr>cp_impl = 1\<rparr> demo_in demo_out
      (demo_zstd (Ref_Dec 0 At_Tag [])) = Inr (Inl e, w')" and e: "err_b e = Zstd_Id"
    by blast
  from compressor_errors [OF disjI1, OF c] e show ?thesis
    by (auto simp: format_mismatch_err_def split: squeezer_variant.splits)
qed

text \<open>
  C28: every error of the decompressor's push: \<open>format_mismatch\<close> with the world untouched when
  the backend is not compiled in, and otherwise \<open>stream_corrupt\<close> naming the backend. A short
  output span is never an error there.
\<close>

theorem decompressor_errors:
  assumes "decompressor_push E d i out w = Inr (Inl e, w')"
  shows "\<exists>v. dimpls w (dp_impl d) = Some v \<and> (case v of
      Zlib_Sweller h \<Rightarrow> err_k e = Stream_Corrupt \<and> err_b e = Zlib_Id
    | Zstd_Sweller h \<Rightarrow> err_k e = Stream_Corrupt \<and> err_b e = Zstd_Id
    | _ \<Rightarrow> e = format_mismatch_err \<and> w' = w)"
proof -
  from call_error_cases(4) [OF assms] obtain v where v: "dimpls w (dp_impl d) = Some v"
    and e: "push_visit_sweller E i out v w = Inr (Inl e, w')" by blast
  have "case v of
      Zlib_Sweller h \<Rightarrow> err_k e = Stream_Corrupt \<and> err_b e = Zlib_Id
    | Zstd_Sweller h \<Rightarrow> err_k e = Stream_Corrupt \<and> err_b e = Zstd_Id
    | _ \<Rightarrow> e = format_mismatch_err \<and> w' = w"
    using e by (cases v) (auto simp: chain_adapt_split dest: zlib_more_errors zstd_more_errors)
  with v show ?thesis by blast
qed

text \<open>Memory from address 4 holds 4, 5, 6, ...: no byte there is a tag.\<close>

lemma decompressor_errors_witness:
  "\<exists>e w'. decompressor_push (ref_env 3 True) \<lparr>dp_impl = 1\<rparr> \<lparr>span_data = 4, span_size = 2\<rparr> demo_out
      (demo_dzstd (Ref_Dec 0 At_Tag [])) = Inr (Inl e, w') \<and> err_k e = Stream_Corrupt"
proof -
  have "\<exists>e w'. decompressor_push (ref_env 3 True) \<lparr>dp_impl = 1\<rparr> \<lparr>span_data = 4, span_size = 2\<rparr> demo_out
      (demo_dzstd (Ref_Dec 0 At_Tag [])) = Inr (Inl e, w')"
    by (simp add: decompressor_push_def decompressor_handle_def demo_dzstd_def zstd_sweller_push_more_def
        live_ctx_def out_window_def in_window_def ref_decompress_stream_def ref_buffers_def bytes_at_def upt_conv_Cons
        ref_advance_def ref_is_error_def adapt_def stream_reply_of_def Let_def)
  then obtain e w' where c: "decompressor_push (ref_env 3 True) \<lparr>dp_impl = 1\<rparr> \<lparr>span_data = 4, span_size = 2\<rparr> demo_out
      (demo_dzstd (Ref_Dec 0 At_Tag [])) = Inr (Inl e, w')" by blast
  from decompressor_errors [OF c] c show ?thesis by (auto simp: demo_dzstd_def)
qed

end
