(* ===== verification/Stream_History.thy ===== *)
theory Stream_History
  imports Backend_Contract "HOL-Library.Sublist"
begin

text \<open>
  What zlib and zstd promise about a stream that is fed and drained in pieces. A stream has a
  history: the bytes it has taken and the bytes it has given since it was made, and a phase.
  The library's state is opaque, so that a state has a history is a relation, a parameter like
  the library itself; the promises say how each documented call moves the history on. The
  abstract stream they describe is the specification that the streaming layer refines.
\<close>

section \<open>Histories\<close>

datatype phase = Running | Finishing | Ended

record history =
  h_phase :: phase
  h_taken :: "u8 list"
  h_given :: "u8 list"

definition new_history :: history where
  "new_history = \<lparr>h_phase = Running, h_taken = [], h_given = []\<rparr>"

definition move_on :: "phase \<Rightarrow> u8 list \<Rightarrow> u8 list \<Rightarrow> history \<Rightarrow> history" where
  "move_on ph xs ys hs = \<lparr>h_phase = ph, h_taken = h_taken hs @ xs, h_given = h_given hs @ ys\<rparr>"

lemma move_on_sel [simp]:
  "h_phase (move_on ph xs ys hs) = ph" "h_taken (move_on ph xs ys hs) = h_taken hs @ xs"
  "h_given (move_on ph xs ys hs) = h_given hs @ ys"
  by (simp_all add: move_on_def)

lemma new_history_sel [simp]:
  "h_phase new_history = Running" "h_taken new_history = []" "h_given new_history = []"
  by (simp_all add: new_history_def)

lemma move_on_twice [simp]:
  "move_on ph xs ys (move_on ph' us vs hs) = move_on ph (us @ xs) (vs @ ys) hs"
  by (simp add: move_on_def)

text \<open>What a call may ask of a stream: once it is finishing only the end may be asked for.\<close>

definition may_ask :: "history \<Rightarrow> bool \<Rightarrow> bool \<Rightarrow> bool" where
  "may_ask hs finish no_input \<longleftrightarrow> (case h_phase hs of
     Running \<Rightarrow> True | Finishing \<Rightarrow> finish \<and> no_input | Ended \<Rightarrow> False)"

text \<open>So far the stream has read a part of \<open>ys\<close> and restored a part of \<open>xs\<close>.\<close>

definition reads_in :: "u8 list \<Rightarrow> u8 list \<Rightarrow> history \<Rightarrow> bool" where
  "reads_in ys xs hs \<longleftrightarrow> prefix (h_taken hs) ys \<and> prefix (h_given hs) xs"

section \<open>zlib\<close>

text \<open>
  Compression. Every call takes a prefix of its input window, appends to its output window, and
  the stream goes on; when \<open>deflate\<close> returns \<open>Z_STREAM_END\<close> what it has given in all is a
  complete stream of what it has taken in all. A stream asked to finish must be asked again,
  without input, until it ends. With both pointers set a call does not fail, and a finishing
  call that does not end the stream has run out of output.
\<close>

definition zlib_deflates ::
  "('l::len, 'b) zlib_api \<Rightarrow> (int \<Rightarrow> 'b \<Rightarrow> history \<Rightarrow> bool) \<Rightarrow> (int \<Rightarrow> u8 list \<Rightarrow> u8 list \<Rightarrow> bool)
    \<Rightarrow> bool" where
  "zlib_deflates Z hist stream_of \<longleftrightarrow>
     (\<forall>lvl wb L0 st L. deflateInit2 Z zero_stream lvl 8 wb 8 0 L0 = (Z_OK, st, L) \<longrightarrow>
        (\<exists>b. L (zstate st) = Some b \<and> hist wb b new_history)) \<and>
     (\<forall>wb st fl m L r st' m' L' b hs.
        L (zstate st) = Some b \<longrightarrow> hist wb b hs \<longrightarrow>
        may_ask hs (fl = Z_FINISH) (avail_in st = 0) \<longrightarrow>
        apart (next_in st) (unat (avail_in st)) (next_out st) (unat (avail_out st)) \<longrightarrow>
        deflate Z st fl m L = (r, st', m', L') \<longrightarrow>
        (windows_set st \<longrightarrow> r = Z_STREAM_END \<or> r = Z_OK \<or> r = Z_BUF_ERROR) \<and>
        (fl = Z_FINISH \<and> r = Z_BUF_ERROR \<longrightarrow> avail_out st' = 0) \<and>
        (r = Z_STREAM_END \<or> r = Z_OK \<or> r = Z_BUF_ERROR \<longrightarrow>
          (let hs' = move_on (if r = Z_STREAM_END then Ended else if fl = Z_FINISH then Finishing else Running)
               (bytes_at m (next_in st) (taken st st')) (bytes_at m' (next_out st) (given st st')) hs
           in (\<exists>b'. L' (zstate st) = Some b' \<and> hist wb b' hs') \<and>
              (r = Z_STREAM_END \<longrightarrow> stream_of wb (h_given hs') (h_taken hs')))))"

text \<open>
  Decompression of a complete stream \<open>ys\<close> of \<open>xs\<close> that arrives in pieces. While what arrives is
  a part of \<open>ys\<close>, \<open>inflate\<close> does not fail and restores a part of \<open>xs\<close>; it returns
  \<open>Z_STREAM_END\<close> exactly when the end of the compressed data is reached and all output has been
  produced, it leaves output pending only when the output window is full, and it leaves input
  only for want of room in the output.
\<close>

definition zlib_inflates ::
  "('l::len, 'b) zlib_api \<Rightarrow> (int \<Rightarrow> 'b \<Rightarrow> history \<Rightarrow> bool) \<Rightarrow> (int \<Rightarrow> u8 list \<Rightarrow> u8 list \<Rightarrow> bool)
    \<Rightarrow> bool" where
  "zlib_inflates Z hist stream_of \<longleftrightarrow>
     (\<forall>wb L0 st L. inflateInit2 Z zero_stream wb L0 = (Z_OK, st, L) \<longrightarrow>
        (\<exists>b. L (zstate st) = Some b \<and> hist wb b new_history)) \<and>
     (\<forall>wb st m L r st' m' L' b hs ys xs.
        L (zstate st) = Some b \<longrightarrow> hist wb b hs \<longrightarrow> h_phase hs = Running \<longrightarrow> windows_set st \<longrightarrow>
        apart (next_in st) (unat (avail_in st)) (next_out st) (unat (avail_out st)) \<longrightarrow>
        stream_of wb ys xs \<longrightarrow> reads_in ys xs hs \<longrightarrow>
        prefix (h_taken hs @ bytes_at m (next_in st) (unat (avail_in st))) ys \<longrightarrow>
        inflate Z st Z_NO_FLUSH m L = (r, st', m', L') \<longrightarrow>
        (let hs' = move_on (if r = Z_STREAM_END then Ended else Running)
               (bytes_at m (next_in st) (taken st st')) (bytes_at m' (next_out st) (given st st')) hs
         in (r = Z_STREAM_END \<or> r = Z_OK \<or> r = Z_BUF_ERROR) \<and>
            (\<exists>b'. L' (zstate st) = Some b' \<and> hist wb b' hs') \<and> reads_in ys xs hs' \<and>
            (r = Z_STREAM_END \<longleftrightarrow> h_taken hs' = ys \<and> h_given hs' = xs) \<and>
            (h_taken hs' = ys \<longrightarrow> avail_out st' \<noteq> 0 \<longrightarrow> r = Z_STREAM_END) \<and>
            (h_given hs' = xs \<longrightarrow> avail_in st' = 0)))"

section \<open>zstd\<close>

text \<open>What a streaming call took from the input buffer and gave to the output buffer.\<close>

definition ib_between :: "memory \<Rightarrow> in_buffer \<Rightarrow> in_buffer \<Rightarrow> u8 list" where
  "ib_between m ib ib' =
     bytes_at m (ib_src ib + unat (ib_pos ib)) (unat (ib_pos ib') - unat (ib_pos ib))"

definition ob_between :: "memory \<Rightarrow> out_buffer \<Rightarrow> out_buffer \<Rightarrow> u8 list" where
  "ob_between m ob ob' =
     bytes_at m (ob_dst ob + unat (ob_pos ob)) (unat (ob_pos ob') - unat (ob_pos ob))"

definition buffers_apart :: "in_buffer \<Rightarrow> out_buffer \<Rightarrow> bool" where
  "buffers_apart ib ob \<longleftrightarrow> apart (ib_src ib) (unat (ib_size ib)) (ob_dst ob) (unat (ob_size ob))"

definition zstd_compresses ::
  "'b zstd_api \<Rightarrow> ('b \<Rightarrow> history \<Rightarrow> bool) \<Rightarrow> (u8 list \<Rightarrow> u8 list \<Rightarrow> bool) \<Rightarrow> bool" where
  "zstd_compresses S hist frame_of \<longleftrightarrow>
     (\<forall>L0 a L v r L'. ZSTD_createCCtx S L0 = (a, L) \<longrightarrow> a \<noteq> 0 \<longrightarrow>
        ZSTD_CCtx_setParameter S a ZSTD_c_compressionLevel v L = (r, L') \<longrightarrow>
        (\<exists>b. L' a = Some b \<and> hist b new_history)) \<and>
     (\<forall>e a ob ib m L r ob' ib' m' L' b hs.
        L a = Some b \<longrightarrow> hist b hs \<longrightarrow> may_ask hs (e = ZSTD_e_end) (ib_pos ib = ib_size ib) \<longrightarrow>
        ob_pos ob \<le> ob_size ob \<longrightarrow> ib_pos ib \<le> ib_size ib \<longrightarrow> buffers_apart ib ob \<longrightarrow>
        ZSTD_compressStream2 S e a ob ib m L = (r, ob', ib', m', L') \<longrightarrow> \<not> ZSTD_isError S r \<longrightarrow>
        (let hs' = move_on (if e = ZSTD_e_end then if r = 0 then Ended else Finishing else Running)
               (ib_between m ib ib') (ob_between m' ob ob') hs
         in (\<exists>b'. L' a = Some b' \<and> hist b' hs') \<and>
            (h_phase hs' = Ended \<longrightarrow> frame_of (h_given hs') (h_taken hs'))))"

text \<open>
  \<open>ZSTD_decompressStream\<close> returns 0 exactly when the frame is completely decoded and flushed;
  otherwise it stops only when the input is used up or the output is full, and with room left
  in the output it has flushed what it could.
\<close>

definition zstd_decompresses ::
  "'b zstd_api \<Rightarrow> ('b \<Rightarrow> history \<Rightarrow> bool) \<Rightarrow> (u8 list \<Rightarrow> u8 list \<Rightarrow> bool) \<Rightarrow> bool" where
  "zstd_decompresses S hist frame_of \<longleftrightarrow>
     (\<forall>L0 a L. ZSTD_createDCtx S L0 = (a, L) \<longrightarrow> a \<noteq> 0 \<longrightarrow>
        (\<exists>b. L a = Some b \<and> hist b new_history)) \<and>
     (\<forall>a ob ib m L r ob' ib' m' L' b hs ys xs.
        L a = Some b \<longrightarrow> hist b hs \<longrightarrow> h_phase hs = Running \<longrightarrow>
        ob_pos ob \<le> ob_size ob \<longrightarrow> ib_pos ib \<le> ib_size ib \<longrightarrow> buffers_apart ib ob \<longrightarrow>
        frame_of ys xs \<longrightarrow> reads_in ys xs hs \<longrightarrow>
        prefix (h_taken hs @ bytes_at m (ib_src ib + unat (ib_pos ib)) (unat (ib_size ib) - unat (ib_pos ib))) ys \<longrightarrow>
        ZSTD_decompressStream S a ob ib m L = (r, ob', ib', m', L') \<longrightarrow>
        (let hs' = move_on (if r = 0 then Ended else Running) (ib_between m ib ib') (ob_between m' ob ob') hs
         in \<not> ZSTD_isError S r \<and> (\<exists>b'. L' a = Some b' \<and> hist b' hs') \<and> reads_in ys xs hs' \<and>
            (r = 0 \<longleftrightarrow> h_taken hs' = ys \<and> h_given hs' = xs) \<and>
            (h_taken hs' = ys \<longrightarrow> ob_pos ob' \<noteq> ob_size ob' \<longrightarrow> r = 0) \<and>
            (r \<noteq> 0 \<longrightarrow> ib_pos ib' = ib_size ib' \<or> ob_pos ob' = ob_size ob')))"

section \<open>Both libraries together\<close>

text \<open>The parameters of the streaming promises: what histories a state has, and what is a stream.\<close>

record 'b stream_codec =
  z_out :: "int \<Rightarrow> 'b \<Rightarrow> history \<Rightarrow> bool"
  z_in :: "int \<Rightarrow> 'b \<Rightarrow> history \<Rightarrow> bool"
  z_stream_of :: "int \<Rightarrow> u8 list \<Rightarrow> u8 list \<Rightarrow> bool"
  s_out :: "'b \<Rightarrow> history \<Rightarrow> bool"
  s_in :: "'b \<Rightarrow> history \<Rightarrow> bool"
  s_frame_of :: "u8 list \<Rightarrow> u8 list \<Rightarrow> bool"

definition compresses_streams :: "('l::len, 'b) env \<Rightarrow> 'b stream_codec \<Rightarrow> bool" where
  "compresses_streams E K \<longleftrightarrow> zlib_deflates (zlib E) (z_out K) (z_stream_of K) \<and>
     zstd_compresses (zstd E) (s_out K) (s_frame_of K) \<and> zlib_code_contract (zlib E)"

definition decompresses_streams :: "('l::len, 'b) env \<Rightarrow> 'b stream_codec \<Rightarrow> bool" where
  "decompresses_streams E K \<longleftrightarrow> zlib_inflates (zlib E) (z_in K) (z_stream_of K) \<and>
     zstd_decompresses (zstd E) (s_in K) (s_frame_of K) \<and> zlib_code_contract (zlib E)"

end
