(* ===== verification/Stream_Codec.thy ===== *)
theory Stream_Codec
  imports Streaming Stream_History
begin

text \<open>
  The operations of the backends' handles and of the variants, seen as moves of a stream's
  history: what a call reports consumed and produced is exactly what its stream took from the
  input span and gave to the output span. This is the simulation under which the streaming
  layer refines the abstract streams of \<open>Stream_History\<close>.
\<close>

section \<open>The history of a handle\<close>

definition stream_history ::
  "(int \<Rightarrow> 'b \<Rightarrow> history \<Rightarrow> bool) \<Rightarrow> int \<Rightarrow> addr \<Rightarrow> ('l::len, 'b, 'm) world_scheme \<Rightarrow> history \<Rightarrow> bool"
  where
  "stream_history hist wb p w hs \<longleftrightarrow>
     (\<exists>st b. zstreams w p = Some st \<and> lib w (zstate st) = Some b \<and> hist wb b hs)"

definition ctx_history ::
  "('b \<Rightarrow> history \<Rightarrow> bool) \<Rightarrow> addr \<Rightarrow> ('l::len, 'b, 'm) world_scheme \<Rightarrow> history \<Rightarrow> bool" where
  "ctx_history hist a w hs \<longleftrightarrow> (\<exists>b. lib w a = Some b \<and> hist b hs)"

text \<open>The bytes a call consumed from its input and produced in its output.\<close>

definition head_of :: "memory \<Rightarrow> span \<Rightarrow> u64 \<Rightarrow> u8 list" where
  "head_of m s n = bytes_at m (span_data s) (unat n)"

lemma head_of_0 [simp]: "head_of m s 0 = []"
  by (simp add: head_of_def)

lemma length_head_of [simp]: "length (head_of m s n) = unat n"
  by (simp add: head_of_def)

lemma head_of_prefix: "n \<le> span_size s \<Longrightarrow> prefix (head_of m s n) (span_bytes m s)"
  unfolding head_of_def span_bytes_def
  by (metis take_bytes_at take_is_prefix word_le_nat_alt)

lemma windows_set_spans: "spans_set i out \<Longrightarrow> windows_set (set_windows i out st)"
  by (auto simp: spans_set_def windows_set_def to_uInt_def)

lemma windows_apart:
  "spans_apart i out \<Longrightarrow> apart (next_in (set_windows i out st)) (unat (avail_in (set_windows i out st)))
     (next_out (set_windows i out st)) (unat (avail_out (set_windows i out st)))"
  by (auto simp: spans_apart_def unat_to_uInt_le intro: apart_mono)

text \<open>A span whose size \<open>uInt\<close> can hold.\<close>

definition small :: "span \<Rightarrow> bool" where
  "small s \<longleftrightarrow> unat (span_size s) < 2 ^ 32"

section \<open>One call on a z_stream\<close>

text \<open>The counts of \<open>zcall\<close> are what moved, also for spans of 4 GiB and more.\<close>

lemma zcall_moves:
  fixes w :: "(64, 'b, 'm) world_scheme"
  assumes "zlib_step_ok call" "wf_world w" "zcall call p fl i out w = Inr c"
  obtains st st' m L where "zstreams w p = Some st" "zstate st' = zstate st"
    "call (set_windows i out st) fl (mem w) (lib w) = (zc_ret c, st', m, L)"
    "zc_world c = w\<lparr>mem := m, lib := L, zstreams := (zstreams w)(p \<mapsto> st')\<rparr>"
    "taken (set_windows i out st) st' = unat (zc_consumed c)"
    "given (set_windows i out st) st' = unat (zc_produced c)"
proof -
  obtain st st' m L where st: "zstreams w p = Some st"
    and call: "call (set_windows i out st) fl (mem w) (lib w) = (zc_ret c, st', m, L)"
    and n: "zc_consumed c = ucast (total_in st') - ucast (total_in st)"
      "zc_produced c = ucast (total_out st') - ucast (total_out st)"
    and wc: "zc_world c = w\<lparr>mem := m, lib := L, zstreams := (zstreams w)(p \<mapsto> st')\<rparr>"
    using assms(3) by (rule zcallE)
  have "0 \<notin> dom (lib w)" using assms(2) by (simp add: wf_world_def)
  note io = zlib_step_okD(1) [OF assms(1) this call]
  have "zstate st' = zstate st" using io by (simp add: zio_ok_def)
  with st call wc show thesis using n zio_counts_64 [OF io] by (intro that) simp_all
qed

definition zphase :: "zret \<Rightarrow> zflush \<Rightarrow> phase" where
  "zphase r fl = (if r = Z_STREAM_END then Ended else if fl = Z_FINISH then Finishing else Running)"

lemma deflate_history:
  fixes w :: "(64, 'b, 'm) world_scheme"
  assumes lawful: "zlib_heap_contract Z" and codec: "zlib_deflates Z hist stream_of"
    and w: "wf_world w" "stream_history hist wb p w hs"
    and ask: "may_ask hs (fl = Z_FINISH) (span_size i = 0)" and ap: "spans_apart i out"
    and call: "zcall (deflate Z) p fl i out w = Inr c"
    and ret: "zc_ret c = Z_STREAM_END \<or> zc_ret c = Z_OK \<or> zc_ret c = Z_BUF_ERROR"
  defines "hs' \<equiv> move_on (zphase (zc_ret c) fl) (head_of (mem w) i (zc_consumed c))
      (head_of (mem (zc_world c)) out (zc_produced c)) hs"
  shows "stream_history hist wb p (zc_world c) hs'"
    "zc_ret c = Z_STREAM_END \<Longrightarrow> stream_of wb (h_given hs') (h_taken hs')"
proof -
  obtain st st' m L where st: "zstreams w p = Some st" "zstate st' = zstate st"
    and c: "deflate Z (set_windows i out st) fl (mem w) (lib w) = (zc_ret c, st', m, L)"
    and wc: "zc_world c = w\<lparr>mem := m, lib := L, zstreams := (zstreams w)(p \<mapsto> st')\<rparr>"
    and n: "taken (set_windows i out st) st' = unat (zc_consumed c)"
      "given (set_windows i out st) st' = unat (zc_produced c)"
    using zlib_contract_steps(1) [OF lawful] w(1) call by (rule zcall_moves)
  obtain b where b: "lib w (zstate (set_windows i out st)) = Some b" "hist wb b hs"
    using w(2) st(1) by (auto simp: stream_history_def)
  have ask': "may_ask hs (fl = Z_FINISH) (avail_in (set_windows i out st) = 0)"
    using ask by (auto simp: may_ask_def to_uInt_def split: phase.splits)
  from codec [unfolded zlib_deflates_def, THEN conjunct2, rule_format, OF b ask' windows_apart [OF ap] c] ret
  have "(\<exists>b'. L (zstate st) = Some b' \<and> hist wb b' hs') \<and>
      (zc_ret c = Z_STREAM_END \<longrightarrow> stream_of wb (h_given hs') (h_taken hs'))"
    unfolding Let_def n zphase_def [symmetric] by (simp add: hs'_def head_of_def wc)
  then show "stream_history hist wb p (zc_world c) hs'"
    "zc_ret c = Z_STREAM_END \<Longrightarrow> stream_of wb (h_given hs') (h_taken hs')"
    using st(2) by (auto simp: stream_history_def wc)
qed

text \<open>With its pointers set the call does not fail.\<close>

lemma deflate_returns:
  fixes w :: "(64, 'b, 'm) world_scheme"
  assumes lawful: "zlib_heap_contract Z" and codec: "zlib_deflates Z hist stream_of"
    and w: "wf_world w" "stream_history hist wb p w hs"
    and ask: "may_ask hs (fl = Z_FINISH) (span_size i = 0)" and ap: "spans_valid i out"
    and call: "zcall (deflate Z) p fl i out w = Inr c"
  shows "zc_ret c = Z_STREAM_END \<or> zc_ret c = Z_OK \<or> zc_ret c = Z_BUF_ERROR"
    "fl = Z_FINISH \<Longrightarrow> small out \<Longrightarrow> zc_ret c = Z_BUF_ERROR \<Longrightarrow> zc_produced c = span_size out"
proof -
  obtain st st' m L where st: "zstreams w p = Some st"
    and c: "deflate Z (set_windows i out st) fl (mem w) (lib w) = (zc_ret c, st', m, L)"
    and n: "given (set_windows i out st) st' = unat (zc_produced c)"
    using zlib_contract_steps(1) [OF lawful] w(1) call by (rule zcall_moves)
  obtain b where b: "lib w (zstate (set_windows i out st)) = Some b" "hist wb b hs"
    using w(2) st(1) by (auto simp: stream_history_def)
  have ask': "may_ask hs (fl = Z_FINISH) (avail_in (set_windows i out st) = 0)"
    using ask by (auto simp: may_ask_def to_uInt_def split: phase.splits)
  have ws: "windows_set (set_windows i out st)"
    using ap by (simp add: spans_valid_def windows_set_spans)
  have "spans_apart i out" using ap by (simp add: spans_valid_def)
  note k = codec [unfolded zlib_deflates_def, THEN conjunct2, rule_format, OF b ask' windows_apart [OF this] c]
  show "zc_ret c = Z_STREAM_END \<or> zc_ret c = Z_OK \<or> zc_ret c = Z_BUF_ERROR"
    using k ws by blast
  show "zc_produced c = span_size out" if "fl = Z_FINISH" "small out" "zc_ret c = Z_BUF_ERROR"
  proof -
    have "avail_out st' = 0" using k that by blast
    with n that(2) show ?thesis by (simp add: given_def small_def unat_to_uInt_small word_unat_eq_iff)
  qed
qed

text \<open>A finishing call that leaves the stream open has filled an output window below 4 GiB.\<close>

lemma finish_fills:
  fixes w :: "(64, 'b, 'm) world_scheme"
  assumes lawful: "zlib_heap_contract Z" and codes: "zlib_code_contract Z" and w: "wf_world w"
    and call: "zcall (deflate Z) p Z_FINISH i out w = Inr c" "zc_ret c = Z_OK"
    and small: "unat (span_size out) < 2 ^ 32"
  shows "zc_produced c = span_size out"
proof -
  obtain st st' m L where
    c: "deflate Z (set_windows i out st) Z_FINISH (mem w) (lib w) = (zc_ret c, st', m, L)"
    and n: "given (set_windows i out st) st' = unat (zc_produced c)"
    using zlib_contract_steps(1) [OF lawful] w(1) call(1) by (rule zcall_moves)
  have "avail_out st' = 0" using codes c call(2) unfolding zlib_code_contract_def by blast
  with n small show ?thesis by (simp add: given_def unat_to_uInt_small word_unat_eq_iff)
qed


text \<open>A span that goes on with a part of the stream \<open>ys\<close>.\<close>

definition feeds :: "u8 list \<Rightarrow> history \<Rightarrow> memory \<Rightarrow> span \<Rightarrow> bool" where
  "feeds ys hs m i \<longleftrightarrow> prefix (h_taken hs @ span_bytes m i) ys"

lemma feeds_cut:
  assumes "feeds ys hs m i" "n \<le> unat (span_size i)"
  shows "prefix (h_taken hs @ bytes_at m (span_data i) n) ys"
proof -
  have "prefix (bytes_at m (span_data i) n) (span_bytes m i)"
    unfolding span_bytes_def using assms(2) by (metis take_bytes_at take_is_prefix)
  then have "prefix (h_taken hs @ bytes_at m (span_data i) n) (h_taken hs @ span_bytes m i)" by simp
  with assms(1) show ?thesis unfolding feeds_def by (blast intro: prefix_order.order_trans)
qed

lemma inflate_history:
  fixes w :: "(64, 'b, 'm) world_scheme"
  assumes lawful: "zlib_heap_contract Z" and codec: "zlib_inflates Z hist stream_of"
    and codes: "zlib_code_contract Z" and w: "wf_world w" "stream_history hist wb p w hs"
    and run: "h_phase hs = Running" and ap: "spans_valid i out"
    and str: "stream_of wb ys xs" "reads_in ys xs hs" "feeds ys hs (mem w) i"
    and call: "zcall (inflate Z) p Z_NO_FLUSH i out w = Inr c"
  defines "hs' \<equiv> move_on (zphase (zc_ret c) Z_NO_FLUSH) (head_of (mem w) i (zc_consumed c))
      (head_of (mem (zc_world c)) out (zc_produced c)) hs"
  shows "zc_ret c = Z_STREAM_END \<or> zc_ret c = Z_OK \<or> zc_ret c = Z_BUF_ERROR"
    "stream_history hist wb p (zc_world c) hs'" "reads_in ys xs hs'"
    "zc_ret c = Z_STREAM_END \<longleftrightarrow> h_taken hs' = ys \<and> h_given hs' = xs"
    "small out \<Longrightarrow> h_taken hs' = ys \<Longrightarrow> zc_produced c \<noteq> span_size out \<Longrightarrow> zc_ret c = Z_STREAM_END"
    "small i \<Longrightarrow> small out \<Longrightarrow> zc_ret c \<noteq> Z_STREAM_END \<Longrightarrow>
      zc_consumed c = span_size i \<or> zc_produced c = span_size out"
    "small i \<Longrightarrow> h_given hs' = xs \<Longrightarrow> zc_consumed c = span_size i"
proof -
  obtain st st' m L where st: "zstreams w p = Some st" "zstate st' = zstate st"
    and c: "inflate Z (set_windows i out st) Z_NO_FLUSH (mem w) (lib w) = (zc_ret c, st', m, L)"
    and wc: "zc_world c = w\<lparr>mem := m, lib := L, zstreams := (zstreams w)(p \<mapsto> st')\<rparr>"
    and n: "taken (set_windows i out st) st' = unat (zc_consumed c)"
      "given (set_windows i out st) st' = unat (zc_produced c)"
    using zlib_contract_steps(2) [OF lawful] w(1) call by (rule zcall_moves)
  obtain b where b: "lib w (zstate (set_windows i out st)) = Some b" "hist wb b hs"
    using w(2) st(1) by (auto simp: stream_history_def)
  have cut: "prefix (h_taken hs @ bytes_at (mem w) (next_in (set_windows i out st))
      (unat (avail_in (set_windows i out st)))) ys"
    using feeds_cut [OF str(3) unat_to_uInt_le] by simp
  have hs': "move_on (if zc_ret c = Z_STREAM_END then Ended else Running)
      (bytes_at (mem w) (span_data i) (unat (zc_consumed c)))
      (bytes_at m (span_data out) (unat (zc_produced c))) hs = hs'"
    by (simp add: hs'_def head_of_def wc zphase_def)
  from codec [unfolded zlib_inflates_def, THEN conjunct2, rule_format,
      OF b run windows_set_spans windows_apart str(1,2) cut c] ap
  have k: "(zc_ret c = Z_STREAM_END \<or> zc_ret c = Z_OK \<or> zc_ret c = Z_BUF_ERROR) \<and>
      (\<exists>b'. L (zstate st) = Some b' \<and> hist wb b' hs') \<and> reads_in ys xs hs' \<and>
      (zc_ret c = Z_STREAM_END \<longleftrightarrow> h_taken hs' = ys \<and> h_given hs' = xs) \<and>
      (h_taken hs' = ys \<longrightarrow> avail_out st' \<noteq> 0 \<longrightarrow> zc_ret c = Z_STREAM_END) \<and>
      (h_given hs' = xs \<longrightarrow> avail_in st' = 0)"
    unfolding Let_def n hs' set_windows_sel spans_valid_def by blast
  then show r: "zc_ret c = Z_STREAM_END \<or> zc_ret c = Z_OK \<or> zc_ret c = Z_BUF_ERROR"
    and "reads_in ys xs hs'" "zc_ret c = Z_STREAM_END \<longleftrightarrow> h_taken hs' = ys \<and> h_given hs' = xs"
    by blast+
  show "stream_history hist wb p (zc_world c) hs'"
    using k st(2) by (auto simp: stream_history_def wc)
  have full: "zc_produced c = span_size out" if "avail_out st' = 0" "small out"
    using n(2) that by (simp add: given_def small_def unat_to_uInt_small word_unat_eq_iff)
  have used: "zc_consumed c = span_size i" if "avail_in st' = 0" "small i"
    using n(1) that by (simp add: taken_def small_def unat_to_uInt_small word_unat_eq_iff)
  show "zc_ret c = Z_STREAM_END"
    if "small out" "h_taken hs' = ys" "zc_produced c \<noteq> span_size out"
    using k full that by blast
  have "avail_in st' = 0 \<or> avail_out st' = 0" if "zc_ret c \<noteq> Z_STREAM_END"
    using codes c r that unfolding zlib_code_contract_def by blast
  then show "zc_consumed c = span_size i \<or> zc_produced c = span_size out"
    if "small i" "small out" "zc_ret c \<noteq> Z_STREAM_END"
    using that used full by blast
  show "zc_consumed c = span_size i" if "small i" "h_given hs' = xs"
    using k used that by blast
qed

section \<open>One call on a zstd context\<close>

lemma window_between:
  assumes "ib_src ib' = span_data i" "ob_dst ob' = span_data out"
  shows "ib_between m (in_window i) ib' = head_of m i (ib_pos ib')"
    "ob_between m (out_window out) ob' = head_of m out (ob_pos ob')"
    "buffers_apart (in_window i) (out_window out) \<longleftrightarrow> spans_apart i out"
  using assms by (simp_all add: ib_between_def ob_between_def head_of_def buffers_apart_def spans_apart_def)

lemma no_input_window: "no_input = in_window empty_span"
  by (simp add: no_input_def in_window_def empty_span_def)

lemma zstd_step_keeps:
  assumes "zstd_step_ok call" "call a (out_window out) (in_window i) m L = (r, ob', ib', m', L')"
  shows "ib_src ib' = span_data i" "ob_dst ob' = span_data out"
    "ib_size ib' = span_size i" "ob_size ob' = span_size out"
  using zstd_step_okD(1) [OF assms(1) _ _ assms(2)] by (simp_all add: zstd_io_ok_def)

lemma compress_history:
  assumes lawful: "zstd_heap_contract S" and codec: "zstd_compresses S hist frame_of"
    and w: "ctx_history hist a w hs"
    and ask: "h_phase hs = Running" "e \<noteq> ZSTD_e_end" and ap: "spans_apart i out"
    and call: "ZSTD_compressStream2 S e a (out_window out) (in_window i) (mem w) (lib w)
      = (r, ob', ib', m, L)" "\<not> ZSTD_isError S r"
  shows "ctx_history hist a (w\<lparr>mem := m, lib := L\<rparr>)
    (move_on Running (head_of (mem w) i (ib_pos ib')) (head_of m out (ob_pos ob')) hs)"
proof -
  obtain b where b: "lib w a = Some b" "hist b hs" using w by (auto simp: ctx_history_def)
  note wd = window_between [OF zstd_step_keeps(1,2) [OF zstd_contract_steps(3) [OF lawful] call(1)]]
  have "may_ask hs (e = ZSTD_e_end) (ib_pos (in_window i) = ib_size (in_window i))"
    using ask by (simp add: may_ask_def)
  from codec [unfolded zstd_compresses_def, THEN conjunct2, rule_format, OF b this _ _ _ call] ap
  show ?thesis using ask(2) by (auto simp: wd Let_def ctx_history_def)
qed

lemma decompress_history:
  assumes lawful: "zstd_heap_contract S" and codec: "zstd_decompresses S hist frame_of"
    and w: "ctx_history hist a w hs" and run: "h_phase hs = Running" and ap: "spans_apart i out"
    and str: "frame_of ys xs" "reads_in ys xs hs" "feeds ys hs (mem w) i"
    and call: "ZSTD_decompressStream S a (out_window out) (in_window i) (mem w) (lib w)
      = (r, ob', ib', m, L)"
  defines "hs' \<equiv> move_on (if r = 0 then Ended else Running) (head_of (mem w) i (ib_pos ib'))
      (head_of m out (ob_pos ob')) hs"
  shows "\<not> ZSTD_isError S r" "ctx_history hist a (w\<lparr>mem := m, lib := L\<rparr>) hs'" "reads_in ys xs hs'"
    "r = 0 \<longleftrightarrow> h_taken hs' = ys \<and> h_given hs' = xs"
    "h_taken hs' = ys \<Longrightarrow> ob_pos ob' \<noteq> span_size out \<Longrightarrow> r = 0"
    "r \<noteq> 0 \<Longrightarrow> ib_pos ib' = span_size i \<or> ob_pos ob' = span_size out"
proof -
  obtain b where b: "lib w a = Some b" "hist b hs" using w by (auto simp: ctx_history_def)
  note kp = zstd_step_keeps [OF zstd_contract_steps(6) [OF lawful] call(1)]
  note wd = window_between [OF kp(1,2)]
  have cut: "prefix (h_taken hs @ bytes_at (mem w) (ib_src (in_window i) + unat (ib_pos (in_window i)))
      (unat (ib_size (in_window i)) - unat (ib_pos (in_window i)))) ys"
    using str(3) by (simp add: feeds_def span_bytes_def)
  have pos: "ob_pos (out_window out) \<le> ob_size (out_window out)" "ib_pos (in_window i) \<le> ib_size (in_window i)"
    by simp_all
  have ba: "buffers_apart (in_window i) (out_window out)" using wd(3) ap by simp
  have k: "\<not> ZSTD_isError S r \<and> (\<exists>b'. L a = Some b' \<and> hist b' hs') \<and> reads_in ys xs hs' \<and>
      (r = 0 \<longleftrightarrow> h_taken hs' = ys \<and> h_given hs' = xs) \<and>
      (h_taken hs' = ys \<longrightarrow> ob_pos ob' \<noteq> span_size out \<longrightarrow> r = 0) \<and>
      (r \<noteq> 0 \<longrightarrow> ib_pos ib' = span_size i \<or> ob_pos ob' = span_size out)"
    using codec [unfolded zstd_decompresses_def, THEN conjunct2, rule_format,
      OF b run pos ba str(1,2) cut call]
    unfolding Let_def hs'_def wd kp .
  then show "\<not> ZSTD_isError S r" "ctx_history hist a (w\<lparr>mem := m, lib := L\<rparr>) hs'" "reads_in ys xs hs'"
    "r = 0 \<longleftrightarrow> h_taken hs' = ys \<and> h_given hs' = xs"
    "h_taken hs' = ys \<Longrightarrow> ob_pos ob' \<noteq> span_size out \<Longrightarrow> r = 0"
    "r \<noteq> 0 \<Longrightarrow> ib_pos ib' = span_size i \<or> ob_pos ob' = span_size out"
    by (auto simp: ctx_history_def)
qed


section \<open>The finish loop\<close>

text \<open>
  Every round of the loop goes on where the last one stopped, so the whole loop is one move of
  the history by what lies between the first and the last output position.
\<close>

definition loop_result ::
  "('b \<Rightarrow> history \<Rightarrow> bool) \<Rightarrow> (u8 list \<Rightarrow> u8 list \<Rightarrow> bool) \<Rightarrow> addr \<Rightarrow> out_buffer \<Rightarrow> memory \<Rightarrow> history
    \<Rightarrow> progress \<Rightarrow> memory \<Rightarrow> (addr \<rightharpoonup> 'b) \<Rightarrow> bool" where
  "loop_result hist frame_of a ob m hs p m' L' \<longleftrightarrow>
     (let hs' = move_on (if pg_done p then Ended else Finishing) []
            (bytes_at m' (ob_dst ob + unat (ob_pos ob)) (unat (pg_out p) - unat (ob_pos ob))) hs
      in (\<exists>b'. L' a = Some b' \<and> hist b' hs') \<and> ob_pos ob \<le> pg_out p \<and> pg_out p \<le> ob_size ob \<and>
         (\<not> pg_done p \<longrightarrow> pg_out p = ob_size ob) \<and>
         (pg_done p \<longrightarrow> frame_of (h_given hs') (h_taken hs')) \<and>
         same_outside m m' (ob_dst ob + unat (ob_pos ob)) (unat (ob_size ob) - unat (ob_pos ob)))"

text \<open>One round, and how a round and what follows it make one move.\<close>

lemma loop_result_on:
  assumes step: "zstd_io_ok ob ib m ob' ib' m1"
    and rest: "loop_result hist frame_of a ob' m1 (move_on ph [] (ob_between m1 ob ob') hs) p m' L'"
  shows "loop_result hist frame_of a ob m hs p m' L'"
proof -
  have e: "ob_dst ob' = ob_dst ob" "ob_size ob' = ob_size ob" "ob_pos ob \<le> ob_pos ob'"
    "ob_pos ob' \<le> ob_size ob"
    using step by (simp_all add: zstd_io_ok_def)
  let ?u = "unat (ob_pos ob)" and ?v = "unat (ob_pos ob')" and ?x = "unat (pg_out p)"
  have le: "?u \<le> ?v" "?v \<le> unat (ob_size ob)" using e by (simp_all add: word_le_nat_alt)
  have out: "ob_pos ob' \<le> pg_out p" using rest by (simp add: loop_result_def Let_def)
  then have x: "?v \<le> ?x" by (simp add: word_le_nat_alt)
  have so: "same_outside m1 m' (ob_dst ob + ?v) (unat (ob_size ob) - ?v)"
    using rest e by (simp add: loop_result_def Let_def)
  have "ob_between m1 ob ob' = bytes_at m' (ob_dst ob + ?u) (?v - ?u)"
    unfolding ob_between_def by (rule same_outside_bytes [OF so, symmetric]) (use le in \<open>simp add: apart_def\<close>)
  moreover have "bytes_at m' (ob_dst ob + ?u) (?x - ?u)
      = bytes_at m' (ob_dst ob + ?u) (?v - ?u) @ bytes_at m' (ob_dst ob + ?v) (?x - ?v)"
    using bytes_at_add [of m' "ob_dst ob + ?u" "?v - ?u" "?x - ?v"] le x by simp
  moreover have "same_outside m m' (ob_dst ob + ?u) (unat (ob_size ob) - ?u)"
  proof (rule same_outside_trans)
    show "same_outside m m1 (ob_dst ob + ?u) (unat (ob_size ob) - ?u)"
      using step le by (auto simp: zstd_io_ok_def unat_sub word_le_nat_alt intro: same_outside_mono)
    show "same_outside m1 m' (ob_dst ob + ?u) (unat (ob_size ob) - ?u)"
      using so by (rule same_outside_mono) (use le in auto)
  qed
  ultimately show ?thesis
    using rest e out unfolding loop_result_def Let_def by (auto simp: e(1,2))
qed

definition loop_start ::
  "'b zstd_api \<Rightarrow> ('b \<Rightarrow> history \<Rightarrow> bool) \<Rightarrow> (u8 list \<Rightarrow> u8 list \<Rightarrow> bool) \<Rightarrow> addr \<Rightarrow> out_buffer
    \<Rightarrow> in_buffer \<Rightarrow> (addr \<rightharpoonup> 'b) \<Rightarrow> history \<Rightarrow> bool" where
  "loop_start S hist frame_of a ob ib L hs \<longleftrightarrow>
     zstd_step_ok (ZSTD_compressStream2 S ZSTD_e_end) \<and> zstd_compresses S hist frame_of \<and>
     (\<exists>b. L a = Some b \<and> hist b hs) \<and> h_phase hs \<noteq> Ended \<and> ib_pos ib = ib_size ib \<and>
     ob_pos ob \<le> ob_size ob \<and> buffers_apart ib ob"

lemma loop_round:
  assumes start: "loop_start S hist frame_of a ob ib L hs"
    and call: "ZSTD_compressStream2 S ZSTD_e_end a ob ib m L = (q, ob', ib', m1, L1)" "\<not> ZSTD_isError S q"
  shows "zstd_io_ok ob ib m ob' ib' m1"
    "q = 0 \<or> ob_pos ob' = ob_size ob' \<Longrightarrow>
      loop_result hist frame_of a ob m hs (mk_progress 0 (ob_pos ob') (q = 0)) m1 L1"
    "q \<noteq> 0 \<Longrightarrow> loop_start S hist frame_of a ob' ib' L1 (move_on Finishing [] (ob_between m1 ob ob') hs)"
proof -
  obtain b where b: "L a = Some b" "hist b hs" "h_phase hs \<noteq> Ended"
    and pos: "ib_pos ib = ib_size ib" "ob_pos ob \<le> ob_size ob" "buffers_apart ib ob"
    and law: "zstd_step_ok (ZSTD_compressStream2 S ZSTD_e_end)" "zstd_compresses S hist frame_of"
    using start by (auto simp: loop_start_def)
  have ip: "ib_pos ib \<le> ib_size ib" using pos(1) by simp
  show io: "zstd_io_ok ob ib m ob' ib' m1" by (rule zstd_step_okD(1) [OF law(1) pos(2) ip call(1)])
  then have e: "ob_dst ob' = ob_dst ob" "ob_size ob' = ob_size ob" "ob_pos ob \<le> ob_pos ob'"
    "ob_pos ob' \<le> ob_size ob" "ib_pos ib' = ib_pos ib" "ib_src ib' = ib_src ib" "ib_size ib' = ib_size ib"
    using pos(1) by (auto simp: zstd_io_ok_def)
  have so: "same_outside m m1 (ob_dst ob + unat (ob_pos ob)) (unat (ob_size ob) - unat (ob_pos ob))"
    using io e by (auto simp: zstd_io_ok_def unat_sub word_le_nat_alt intro: same_outside_mono)
  have "may_ask hs (ZSTD_e_end = ZSTD_e_end) (ib_pos ib = ib_size ib)"
    using b(3) pos(1) by (simp add: may_ask_def split: phase.split)
  note moved = law(2) [unfolded zstd_compresses_def, THEN conjunct2, rule_format,
      OF b(1,2) this pos(2) ip pos(3) call]
  show "loop_result hist frame_of a ob m hs (mk_progress 0 (ob_pos ob') (q = 0)) m1 L1"
    if "q = 0 \<or> ob_pos ob' = ob_size ob'"
    using moved that e so unfolding loop_result_def Let_def by (auto simp: ib_between_def ob_between_def)
  show "loop_start S hist frame_of a ob' ib' L1 (move_on Finishing [] (ob_between m1 ob ob') hs)" if "q \<noteq> 0"
    using moved that law pos e by (auto simp: loop_start_def Let_def ib_between_def buffers_apart_def)
qed

lemma finish_loop_history:
  assumes "zstd_finish_loop S a ob ib m L = Some (Inr p, m', L')" "loop_start S hist frame_of a ob ib L hs"
  shows "loop_result hist frame_of a ob m hs p m' L'"
proof -
  define P where "P = (\<lambda>S a ob ib m L (x :: op_result \<times> memory \<times> (addr \<rightharpoonup> 'a)). \<forall>p m' L' hs. x = (Inr p, m', L') \<longrightarrow>
    loop_start S hist frame_of a ob ib L hs \<longrightarrow> loop_result hist frame_of a ob m hs p m' L')"
  have "P S a ob ib m L (Inr p, m', L')"
  proof (rule zstd_finish_loop.raw_induct [OF _ assms(1)])
    fix f S a ob ib m L x
    assume IH: "\<And>S a ob ib m L y. f S a ob ib m L = Some y \<Longrightarrow> P S a ob ib m L y"
      and body: "(case ZSTD_compressStream2 S ZSTD_e_end a ob ib m L of (remaining, ob', ib', m', L') \<Rightarrow>
        if ZSTD_isError S remaining
        then Some (Inl (zstd_error Backend_Failure S remaining), m', L')
        else if 0 < remaining \<and> ob_pos ob' = ob_size ob'
        then Some (Inr (mk_progress 0 (ob_pos ob') False), m', L')
        else if 0 < remaining then f S a ob' ib' m' L'
        else Some (Inr (mk_progress 0 (ob_pos ob') True), m', L')) = Some x"
    obtain q ob' ib' m1 L1 where call: "ZSTD_compressStream2 S ZSTD_e_end a ob ib m L = (q, ob', ib', m1, L1)"
      by (metis prod_cases5)
    show "P S a ob ib m L x"
      unfolding P_def
    proof (intro allI impI)
      fix p m' L' hs
      assume x: "x = (Inr p, m', L')" and start: "loop_start S hist frame_of a ob ib L hs"
      have ne: "\<not> ZSTD_isError S q" using body call x by (auto split: if_splits)
      note round = loop_round [OF start call ne]
      show "loop_result hist frame_of a ob m hs p m' L'"
      proof (cases "q = 0 \<or> ob_pos ob' = ob_size ob'")
        case True
        then have "p = mk_progress 0 (ob_pos ob') (q = 0)" "m' = m1" "L' = L1"
          using body call x ne by (auto simp: word_gt_0 split: if_splits)
        with round(2) [OF True] show ?thesis by simp
      next
        case False
        then have "f S a ob' ib' m1 L1 = Some x" using body call ne by (simp add: word_gt_0)
        from IH [OF this] x round(3) False
        show ?thesis unfolding P_def by (blast intro: loop_result_on [OF round(1)])
      qed
    qed
  qed
  with assms(2) show ?thesis unfolding P_def by blast
qed

end
