(* ===== verification/Stream_Refinement.thy ===== *)
theory Stream_Refinement
  imports Stream_Codec
begin

text \<open>
  The streaming layer over the abstract streams of \<open>Stream_History\<close>: the history of a variant
  and of a \<open>compressor\<close> or \<open>decompressor\<close>, and how every public call moves it.
\<close>

section \<open>Variants\<close>

definition is_stream_of :: "'b stream_codec \<Rightarrow> format \<Rightarrow> u8 list \<Rightarrow> u8 list \<Rightarrow> bool" where
  "is_stream_of K f ys xs \<longleftrightarrow>
     (if f = Fmt_Zstd then s_frame_of K ys xs else z_stream_of K (window_bits_for f) ys xs)"

fun sq_history ::
  "'b stream_codec \<Rightarrow> format \<Rightarrow> squeezer_variant \<Rightarrow> ('l::len, 'b, 'm) world_scheme \<Rightarrow> history \<Rightarrow> bool" where
  "sq_history K f (Zlib_Squeezer h) w hs \<longleftrightarrow> f \<noteq> Fmt_Zstd \<and>
     stream_history (z_out K) (window_bits_for f) (zsq_stream h) w hs"
| "sq_history K f (Zstd_Squeezer h) w hs \<longleftrightarrow> f = Fmt_Zstd \<and> ctx_history (s_out K) (cctx h) w hs"
| "sq_history K f _ w hs \<longleftrightarrow> False"

fun sw_history ::
  "'b stream_codec \<Rightarrow> format \<Rightarrow> sweller_variant \<Rightarrow> ('l::len, 'b, 'm) world_scheme \<Rightarrow> history \<Rightarrow> bool" where
  "sw_history K f (Zlib_Sweller h) w hs \<longleftrightarrow> f \<noteq> Fmt_Zstd \<and>
     stream_history (z_in K) (window_bits_for f) (zsw_stream h) w hs"
| "sw_history K f (Zstd_Sweller h) w hs \<longleftrightarrow> f = Fmt_Zstd \<and> ctx_history (s_in K) (dctx h) w hs"
| "sw_history K f _ w hs \<longleftrightarrow> False"

lemma sq_history_ready: "sq_history K f v w hs \<Longrightarrow> sq_ready v w"
  by (cases v) (auto simp: stream_history_def ctx_history_def zready_def ctx_ready_def)

lemma sw_history_ready: "sw_history K f v w hs \<Longrightarrow> sw_ready v w"
  by (cases v) (auto simp: stream_history_def ctx_history_def zready_def ctx_ready_def)

text \<open>The move a call makes: what it reports, read off the two spans.\<close>

definition moved :: "phase \<Rightarrow> memory \<Rightarrow> span \<Rightarrow> u64 \<Rightarrow> memory \<Rightarrow> span \<Rightarrow> u64 \<Rightarrow> history \<Rightarrow> history" where
  "moved ph m i n m' out k = move_on ph (head_of m i n) (head_of m' out k)"

lemma moved_sel [simp]:
  "h_phase (moved ph m i n m' out k hs) = ph"
  "h_taken (moved ph m i n m' out k hs) = h_taken hs @ head_of m i n"
  "h_given (moved ph m i n m' out k hs) = h_given hs @ head_of m' out k"
  by (simp_all add: moved_def)

lemma lawful_backends:
  assumes "env_ok E"
  shows "zlib_heap_contract (zlib E)" "zstd_heap_contract (zstd E)"
  using assms by (simp_all add: env_ok_def)

lemma compresses_streamsD:
  assumes "compresses_streams E K"
  shows "zlib_deflates (zlib E) (z_out K) (z_stream_of K)"
    "zstd_compresses (zstd E) (s_out K) (s_frame_of K)" "zlib_code_contract (zlib E)"
  using assms by (simp_all add: compresses_streams_def)

lemma decompresses_streamsD:
  assumes "decompresses_streams E K"
  shows "zlib_inflates (zlib E) (z_in K) (z_stream_of K)"
    "zstd_decompresses (zstd E) (s_in K) (s_frame_of K)" "zlib_code_contract (zlib E)"
  using assms by (simp_all add: decompresses_streams_def)

section \<open>Compressing calls on a variant\<close>

lemma push_visit_history:
  fixes w :: "(64, 'b, 'm) world_scheme"
  assumes E: "env_ok E" "compresses_streams E K" and w: "wf_world w" "sq_history K f v w hs"
    and run: "h_phase hs = Running" and ap: "spans_apart i out"
    and call: "push_visit_squeezer E i out v w = Inr (Inr p, w')"
  shows "sq_history K f v w' (moved Running (mem w) i (po_in p) (mem w') out (po_out p) hs)"
proof (cases v)
  case (Zlib_Squeezer h)
  with call obtain c where c: "zcall (deflate (zlib E)) (zsq_stream h) Z_NO_FLUSH i out w = Inr c"
    "zc_ret c = Z_OK \<or> zc_ret c = Z_BUF_ERROR" "po_in p = zc_consumed c" "po_out p = zc_produced c" "w' = zc_world c"
    by (auto simp: chain_adapt_split adapt_def zlib_squeezer_push_more_def chain_Inr_iff split: if_splits)
  have "may_ask hs (Z_NO_FLUSH = Z_FINISH) (span_size i = 0)" using run by (simp add: may_ask_def)
  from deflate_history(1) [OF lawful_backends(1) [OF E(1)] compresses_streamsD(1) [OF E(2)] w(1) _ this ap c(1)] c(2)
  show ?thesis using w(2) c(2-) by (auto simp: Zlib_Squeezer zphase_def moved_def)
next
  case (Zstd_Squeezer h)
  obtain r ob' ib' m L where k: "ZSTD_compressStream2 (zstd E) ZSTD_e_continue (cctx h) (out_window out) (in_window i)
      (mem w) (lib w) = (r, ob', ib', m, L)" by (metis prod_cases5)
  with call have c: "\<not> ZSTD_isError (zstd E) r" "po_in p = ib_pos ib'" "po_out p = ob_pos ob'" "w' = w\<lparr>mem := m, lib := L\<rparr>"
    by (auto simp: Zstd_Squeezer chain_adapt_split adapt_def Let_def zstd_squeezer_push_more_def chain_Inr_iff split: if_splits)
  from compress_history [OF lawful_backends(2) [OF E(1)] compresses_streamsD(2) [OF E(2)] _ run _ ap k c(1)] w(2) c
  show ?thesis by (simp add: Zstd_Squeezer moved_def)
qed (use w(2) in simp_all)

lemma flush_visit_history:
  fixes w :: "(64, 'b, 'm) world_scheme"
  assumes E: "env_ok E" "compresses_streams E K" and w: "wf_world w" "sq_history K f v w hs"
    and run: "h_phase hs = Running" and call: "flush_visit E out v w = Inr (Inr p, w')"
  shows "sq_history K f v w' (moved Running (mem w) empty_span 0 (mem w') out (po_out p) hs)"
proof (cases v)
  case (Zlib_Squeezer h)
  with call obtain c where c: "zcall (deflate (zlib E)) (zsq_stream h) Z_SYNC_FLUSH empty_span out w = Inr c"
    "zc_ret c = Z_OK \<or> zc_ret c = Z_BUF_ERROR" "po_out p = zc_produced c" "w' = zc_world c"
    by (auto simp: chain_adapt_split adapt_def zlib_squeezer_flush_def chain_Inr_iff split: if_splits)
  have z: "zc_consumed c = 0"
    using zcall_counts(1) [OF zlib_contract_steps(1) [OF lawful_backends(1) [OF E(1)]] w(1) c(1)]
    by (simp add: empty_span_def)
  have "may_ask hs (Z_SYNC_FLUSH = Z_FINISH) (span_size empty_span = 0)" using run by (simp add: may_ask_def)
  from deflate_history(1) [OF lawful_backends(1) [OF E(1)] compresses_streamsD(1) [OF E(2)] w(1) _ this empty_apart c(1)] c(2)
  show ?thesis using w(2) c(2-) z by (auto simp: Zlib_Squeezer zphase_def moved_def)
next
  case (Zstd_Squeezer h)
  obtain r ob' ib' m L where k: "ZSTD_compressStream2 (zstd E) ZSTD_e_flush (cctx h) (out_window out) (in_window empty_span)
      (mem w) (lib w) = (r, ob', ib', m, L)" by (metis prod_cases5)
  with call have c: "\<not> ZSTD_isError (zstd E) r" "po_out p = ob_pos ob'" "w' = w\<lparr>mem := m, lib := L\<rparr>"
    by (auto simp: Zstd_Squeezer chain_adapt_split adapt_def Let_def zstd_squeezer_flush_def chain_Inr_iff no_input_window split: if_splits)
  have z: "ib_pos ib' = 0"
    using zstd_positions [OF zstd_contract_steps(3) [OF lawful_backends(2) [OF E(1)]] _ k]
      zstd_step_keeps(3) [OF zstd_contract_steps(3) [OF lawful_backends(2) [OF E(1)]] k]
    by (simp add: empty_span_def)
  from compress_history [OF lawful_backends(2) [OF E(1)] compresses_streamsD(2) [OF E(2)] _ run _ empty_apart k c(1)] w(2) c z
  show ?thesis by (simp add: Zstd_Squeezer moved_def)
qed (use w(2) in simp_all)

text \<open>
  Finishing. With room to spare at the end the stream is complete; for zlib's formats the
  output span must be below 4 GiB for its size to be seen.
\<close>

lemma finish_visit_history:
  fixes w :: "(64, 'b, 'm) world_scheme"
  assumes E: "env_ok E" "compresses_streams E K" and w: "wf_world w" "sq_history K f v w hs"
    and run: "h_phase hs \<noteq> Ended" and call: "finish_visit E out v w = Inr (Inr p, w')"
  shows "\<exists>ph. ph \<noteq> Running \<and>
    sq_history K f v w' (moved ph (mem w) empty_span 0 (mem w') out (po_out p) hs) \<and>
    (ph = Ended \<longrightarrow> is_stream_of K f (h_given hs @ head_of (mem w') out (po_out p)) (h_taken hs)) \<and>
    (po_out p \<noteq> span_size out \<longrightarrow> f = Fmt_Zstd \<or> small out \<longrightarrow> ph = Ended)"
proof (cases v)
  case (Zlib_Squeezer h)
  with call obtain c where c: "zcall (deflate (zlib E)) (zsq_stream h) Z_FINISH empty_span out w = Inr c"
    "zc_ret c = Z_STREAM_END \<or> zc_ret c = Z_OK" "po_out p = zc_produced c" "w' = zc_world c"
    by (auto simp: chain_adapt_split adapt_def zlib_squeezer_finish_def zlib_squeezer_push_def chain_Inr_iff split: if_splits)
  note law = lawful_backends(1) [OF E(1)]
  have z: "zc_consumed c = 0"
    using zcall_counts(1) [OF zlib_contract_steps(1) [OF law] w(1) c(1)] by (simp add: empty_span_def)
  have "may_ask hs (Z_FINISH = Z_FINISH) (span_size empty_span = 0)"
    using run by (simp add: may_ask_def empty_span_def split: phase.split)
  note hist = deflate_history [OF law compresses_streamsD(1) [OF E(2)] w(1) _ this empty_apart c(1)]
  have ret: "zc_ret c = Z_STREAM_END \<or> zc_ret c = Z_OK \<or> zc_ret c = Z_BUF_ERROR" using c(2) by blast
  have "zc_ret c = Z_STREAM_END" if "po_out p \<noteq> span_size out" "small out"
    using finish_fills [OF law compresses_streamsD(3) [OF E(2)] w(1) c(1)] that c by (auto simp: small_def)
  then show ?thesis using hist [OF _ ret] w(2) c(3,4) z
    by (intro exI [of _ "zphase (zc_ret c) Z_FINISH"])
      (auto simp: Zlib_Squeezer moved_def zphase_def is_stream_of_def)
next
  case (Zstd_Squeezer h)
  obtain b where b: "lib w (cctx h) = Some b" "s_out K b hs" and f: "f = Fmt_Zstd"
    using w(2) by (auto simp: Zstd_Squeezer ctx_history_def)
  from call obtain q where q: "zstd_squeezer_finish E h out w = Inr (Inr q, w')" "po_out p = pg_out q"
    by (auto simp: Zstd_Squeezer chain_adapt_split)
  then obtain m L where k: "zstd_finish_loop (zstd E) (cctx h) (out_window out) no_input (mem w) (lib w)
      = Some (Inr q, m, L)" and c: "po_out p = pg_out q" "w' = w\<lparr>mem := m, lib := L\<rparr>"
    by (auto simp: zstd_squeezer_finish_def chain_Inr_iff split: option.splits)
  have "loop_start (zstd E) (s_out K) (s_frame_of K) (cctx h) (out_window out) no_input (lib w) hs"
    using zstd_contract_steps(3) [OF lawful_backends(2) [OF E(1)]] compresses_streamsD(2) [OF E(2)] b run
    by (simp add: loop_start_def no_input_def buffers_apart_def apart_def)
  from finish_loop_history [OF k this] show ?thesis
    using c f by (intro exI [of _ "if pg_done q then Ended else Finishing"])
      (auto simp: Zstd_Squeezer loop_result_def Let_def moved_def head_of_def ctx_history_def is_stream_of_def)
qed (use w(2) in simp_all)


section \<open>The decompressing call on a variant\<close>

text \<open>
  What a push reports and leaves behind while it is fed a stream: a value, a history that reads
  the stream, \<open>done\<close> exactly at its end, and otherwise a full output span or a used-up input.
\<close>

definition reading ::
  "'b stream_codec \<Rightarrow> format \<Rightarrow> sweller_variant \<Rightarrow> span \<Rightarrow> span \<Rightarrow> ('l::len, 'b, 'm) world_scheme
    \<Rightarrow> history \<Rightarrow> u8 list \<Rightarrow> u8 list \<Rightarrow> push_out \<Rightarrow> ('l, 'b, 'm) world_scheme \<Rightarrow> bool" where
  "reading K f v i out w hs ys xs p w' \<longleftrightarrow>
     (let hs' = moved (if po_done p then Ended else Running) (mem w) i (po_in p) (mem w') out (po_out p) hs
      in sw_history K f v w' hs' \<and> reads_in ys xs hs' \<and>
         (po_done p \<longleftrightarrow> h_taken hs' = ys \<and> h_given hs' = xs) \<and>
         (f = Fmt_Zstd \<or> small out \<longrightarrow> h_taken hs' = ys \<longrightarrow> po_out p \<noteq> span_size out \<longrightarrow> po_done p) \<and>
         (f = Fmt_Zstd \<or> small i \<and> small out \<longrightarrow> \<not> po_done p \<longrightarrow>
            po_in p = span_size i \<or> po_out p = span_size out) \<and>
         (f \<noteq> Fmt_Zstd \<longrightarrow> small i \<longrightarrow> h_given hs' = xs \<longrightarrow> po_in p = span_size i))"

lemma push_visit_reading:
  fixes w :: "(64, 'b, 'm) world_scheme"
  assumes E: "env_ok E" "decompresses_streams E K" and w: "wf_world w" "sw_history K f v w hs"
    and run: "h_phase hs = Running" and ap: "spans_valid i out"
    and str: "is_stream_of K f ys xs" "reads_in ys xs hs" "feeds ys hs (mem w) i"
  shows "\<exists>p w'. push_visit_sweller E i out v w = Inr (Inr p, w') \<and> reading K f v i out w hs ys xs p w'"
proof (cases v)
  case (Zlib_Sweller h)
  then have f: "f \<noteq> Fmt_Zstd" "stream_history (z_in K) (window_bits_for f) (zsw_stream h) w hs"
    using w(2) by simp_all
  have str': "z_stream_of K (window_bits_for f) ys xs" using str(1) f(1) by (simp add: is_stream_of_def)
  have "zready (zsw_stream h) w" using sw_history_ready [OF w(2)] Zlib_Sweller by simp
  from zcall_defined [OF this] obtain c where
    c: "zcall (inflate (zlib E)) (zsw_stream h) Z_NO_FLUSH i out w = Inr c" by blast
  note hist = inflate_history [OF lawful_backends(1) [OF E(1)] decompresses_streamsD(1,3) [OF E(2)] w(1) f(2) run ap
      str' str(2,3) c]
  let ?p = "mk_push_out (zc_consumed c) (zc_produced c) (zc_ret c = Z_STREAM_END)"
  have go: "push_visit_sweller E i out v w = Inr (Inr ?p, zc_world c)"
    using hist(1) by (elim disjE) (simp_all add: Zlib_Sweller zlib_sweller_push_more_def adapt_def c)
  have e: "moved (if zc_ret c = Z_STREAM_END then Ended else Running) (mem w) i (zc_consumed c) (mem (zc_world c))
      out (zc_produced c) hs
      = move_on (zphase (zc_ret c) Z_NO_FLUSH) (head_of (mem w) i (zc_consumed c))
          (head_of (mem (zc_world c)) out (zc_produced c)) hs"
    by (simp add: moved_def zphase_def)
  have "reading K f v i out w hs ys xs ?p (zc_world c)"
    unfolding reading_def Let_def mk_push_out_sel e Zlib_Sweller sw_history.simps using hist(2-) f(1) by blast
  with go show ?thesis by blast
next
  case (Zstd_Sweller h)
  then have f: "f = Fmt_Zstd" "ctx_history (s_in K) (dctx h) w hs" using w(2) by simp_all
  have str': "s_frame_of K ys xs" using str(1) f(1) by (simp add: is_stream_of_def)
  obtain r ob ib m L where c: "ZSTD_decompressStream (zstd E) (dctx h) (out_window out) (in_window i)
      (mem w) (lib w) = (r, ob, ib, m, L)" by (metis prod_cases5)
  have ap': "spans_apart i out" using ap by (simp add: spans_valid_def)
  note hist = decompress_history [OF lawful_backends(2) [OF E(1)] decompresses_streamsD(2) [OF E(2)] f(2) run ap'
      str' str(2,3) c]
  let ?p = "mk_push_out (ib_pos ib) (ob_pos ob) (r = 0)"
  let ?w = "w\<lparr>mem := m, lib := L\<rparr>"
  have live: "live_ctx (dctx h) w = Inr ()" using f(2) by (auto simp: ctx_history_def live_ctx_def)
  have le: "ib_pos ib \<le> span_size i" "ib_size ib = span_size i"
    using zstd_positions [OF zstd_contract_steps(6) [OF lawful_backends(2) [OF E(1)]] _ c]
      zstd_step_keeps(3) [OF zstd_contract_steps(6) [OF lawful_backends(2) [OF E(1)]] c] by simp_all
  have all: "ib_pos ib = span_size i" if "r = 0"
  proof -
    have "h_taken hs @ head_of (mem w) i (ib_pos ib) = ys" using hist(4) that by simp
    with str(3) have "prefix (span_bytes (mem w) i) (head_of (mem w) i (ib_pos ib))"
      by (auto simp: feeds_def)
    then have "unat (span_size i) \<le> unat (ib_pos ib)" using prefix_length_le by (fastforce simp: span_bytes_def)
    with le(1) show ?thesis by (simp add: word_le_nat_alt word_unat_eq_iff)
  qed
  have go: "push_visit_sweller E i out v w = Inr (Inr ?p, ?w)"
    using hist(1) c live all le by (auto simp: Zstd_Sweller zstd_sweller_push_more_def adapt_def Let_def)
  have e: "moved (if r = 0 then Ended else Running) (mem w) i (ib_pos ib) (mem ?w) out (ob_pos ob) hs
      = move_on (if r = 0 then Ended else Running) (head_of (mem w) i (ib_pos ib)) (head_of m out (ob_pos ob)) hs"
    by (simp add: moved_def)
  have "reading K f v i out w hs ys xs ?p ?w"
    unfolding reading_def Let_def mk_push_out_sel e Zstd_Sweller sw_history.simps using hist(2-) f by (simp only: f(1)) blast
  with go show ?thesis by blast
qed (use w(2) in simp_all)

end
