(* ===== verification/Stream_Sessions.thy ===== *)
theory Stream_Sessions
  imports Stream_Refinement Ownership
begin

text \<open>
  Whole uses of the streaming classes: a session is the life of one object between its
  construction and its last call, with other code running in between. The histories of the
  objects are read off the sessions, so what a session of a compressor has produced and what a
  session of a decompressor restores from it are related without mentioning a library's state.
\<close>

section \<open>Objects\<close>

definition cp_history ::
  "'b stream_codec \<Rightarrow> format \<Rightarrow> compressor \<Rightarrow> ('l::len, 'b, 'm) stream_world_scheme \<Rightarrow> history \<Rightarrow> bool" where
  "cp_history K f c w hs \<longleftrightarrow> (\<exists>v. cimpls w (cp_impl c) = Some v \<and> sq_history K f v w hs)"

definition dp_history ::
  "'b stream_codec \<Rightarrow> format \<Rightarrow> decompressor \<Rightarrow> ('l::len, 'b, 'm) stream_world_scheme \<Rightarrow> history \<Rightarrow> bool" where
  "dp_history K f d w hs \<longleftrightarrow> (\<exists>v. dimpls w (dp_impl d) = Some v \<and> sw_history K f v w hs)"

lemma cp_history_ready: "cp_history K f c w hs \<Longrightarrow> cp_ready c w"
  by (auto simp: cp_history_def cp_ready_def over_def cp_get_def dest: sq_history_ready)

lemma dp_history_ready: "dp_history K f d w hs \<Longrightarrow> dp_ready d w"
  by (auto simp: dp_history_def dp_ready_def over_def dp_get_def dest: sw_history_ready)

text \<open>The backend that a format is served by is compiled in.\<close>

definition stream_backend :: "('l::len, 'b) env \<Rightarrow> format \<Rightarrow> bool" where
  "stream_backend E f \<longleftrightarrow> (if f = Fmt_Zstd then has_zstd E else has_zlib E)"

text \<open>What other code leaves alone: everything an object owns. Memory is not owned.\<close>

definition cp_untouched ::
  "compressor \<Rightarrow> ('l::len, 'b, 'm) stream_world_scheme \<Rightarrow> ('l, 'b, 'm) stream_world_scheme \<Rightarrow> bool" where
  "cp_untouched c w w' \<longleftrightarrow> wf_world w' \<and> cimpls w' (cp_impl c) = cimpls w (cp_impl c) \<and>
     (\<forall>p \<in> cp_cells c w. zstreams w' p = zstreams w p) \<and> (\<forall>a \<in> cp_objects c w. lib w' a = lib w a)"

definition dp_untouched ::
  "decompressor \<Rightarrow> ('l::len, 'b, 'm) stream_world_scheme \<Rightarrow> ('l, 'b, 'm) stream_world_scheme \<Rightarrow> bool" where
  "dp_untouched d w w' \<longleftrightarrow> wf_world w' \<and> dimpls w' (dp_impl d) = dimpls w (dp_impl d) \<and>
     (\<forall>p \<in> dp_cells d w. zstreams w' p = zstreams w p) \<and> (\<forall>a \<in> dp_objects d w. lib w' a = lib w a)"

lemma cp_untouched_history:
  assumes "cp_history K f c w hs" "cp_untouched c w w'"
  shows "cp_history K f c w' hs"
proof -
  obtain v where v: "cimpls w (cp_impl c) = Some v" "sq_history K f v w hs"
    using assms(1) by (auto simp: cp_history_def)
  have u: "cimpls w' (cp_impl c) = Some v" "\<forall>p \<in> sq_cells v w. zstreams w' p = zstreams w p"
    "\<forall>a \<in> sq_objects v w. lib w' a = lib w a"
    using assms(2) v(1) by (simp_all add: cp_untouched_def cp_cells_def cp_objects_def over_def cp_get_def)
  have "sq_history K f v w' hs"
    using v(2) u(2,3) by (cases v) (auto simp: stream_history_def ctx_history_def zcells_def zobjects_def
      ctx_objects_def)
  with u(1) show ?thesis by (auto simp: cp_history_def)
qed

lemma dp_untouched_history:
  assumes "dp_history K f d w hs" "dp_untouched d w w'"
  shows "dp_history K f d w' hs"
proof -
  obtain v where v: "dimpls w (dp_impl d) = Some v" "sw_history K f v w hs"
    using assms(1) by (auto simp: dp_history_def)
  have u: "dimpls w' (dp_impl d) = Some v" "\<forall>p \<in> sw_cells v w. zstreams w' p = zstreams w p"
    "\<forall>a \<in> sw_objects v w. lib w' a = lib w a"
    using assms(2) v(1) by (simp_all add: dp_untouched_def dp_cells_def dp_objects_def over_def dp_get_def)
  have "sw_history K f v w' hs"
    using v(2) u(2,3) by (cases v) (auto simp: stream_history_def ctx_history_def zcells_def zobjects_def
      ctx_objects_def)
  with u(1) show ?thesis by (auto simp: dp_history_def)
qed

section \<open>Construction\<close>

lemma compressor_new_wf:
  assumes "env_ok E" "wf_world w" "compressor_new E f lvl w = Inr (Inr c, w')"
  shows "wf_world w'"
proof -
  obtain v w1 where mk: "make_squeezer E f lvl (w\<lparr>brk := Suc (brk w)\<rparr>) = Inr (v, w1)"
    and w': "w' = w1\<lparr>cimpls := (cimpls w1)(brk w \<mapsto> v)\<rparr>"
    using assms(3) by (auto simp: compressor_new_def Let_def chain_Inr_iff split: if_splits)
  from squeezer_variant_life.create_fresh [OF assms(1) wf_world_brk [OF assms(2)] mk]
  show ?thesis by (simp add: w' wf_world_def)
qed

lemma decompressor_new_wf:
  assumes "env_ok E" "wf_world w" "decompressor_new E f w = Inr (d, w')"
  shows "wf_world w'"
proof -
  obtain v w1 where mk: "make_sweller E f (w\<lparr>brk := Suc (brk w)\<rparr>) = Inr (v, w1)"
    and w': "w' = w1\<lparr>dimpls := (dimpls w1)(brk w \<mapsto> v)\<rparr>"
    using assms(3) by (auto simp: decompressor_new_def Let_def chain_Inr_iff)
  from sweller_variant_life.create_fresh [OF assms(1) wf_world_brk [OF assms(2)] mk]
  show ?thesis by (simp add: w' wf_world_def)
qed

lemma make_squeezer_history:
  assumes K: "compresses_streams E K" and E: "stream_backend E f" "allocations_succeed E w"
    and lvl: "f = Fmt_Zstd \<or> level_in_range lvl" and mk: "make_squeezer E f lvl w = Inr (v, w1)"
  shows "sq_history K f v w1 new_history"
proof (cases "f = Fmt_Zstd")
  case False
  obtain st L where i: "deflateInit2 (zlib E) zero_stream (sint (zlib_level_int lvl)) 8 (window_bits_for f) 8 0 (lib w)
      = (Z_OK, st, L)"
    using allocations_succeedD(1) [OF E(2)] lvl False by blast
  from mk False E(1) zlib_squeezer_new_run [OF i] have
    v: "v = Zlib_Squeezer \<lparr>zsq_stream = brk w\<rparr>" "zstreams w1 (brk w) = Some st" "lib w1 = L"
    by (cases f; auto simp: make_squeezer_def into_variant_eqs stream_backend_def)+
  have "\<exists>b. L (zstate st) = Some b \<and> z_out K (window_bits_for f) b new_history"
    using compresses_streamsD(1) [OF K, unfolded zlib_deflates_def, THEN conjunct1] i by blast
  with v False show ?thesis by (auto simp: stream_history_def)
next
  case True
  obtain a L where c: "ZSTD_createCCtx (zstd E) (lib w) = (a, L)" by force
  obtain r L' where s: "ZSTD_CCtx_setParameter (zstd E) a ZSTD_c_compressionLevel (zlib_level_int lvl) L = (r, L')"
    by force
  have a: "a \<noteq> 0" "\<not> ZSTD_isError (zstd E) r"
    using E(2) c s by (auto simp: allocations_succeed_def) (metis fst_conv)
  from mk True E(1) zstd_squeezer_new_run [OF c a(1) _ a(2), of "Zstd_Level (zlib_level_int lvl)"] s have
    v: "v = Zstd_Squeezer \<lparr>cctx = a, csq_fmt = f, csq_level = zlib_level_int lvl\<rparr>" "lib w1 = L'"
    by (auto simp: make_squeezer_def into_variant_eqs stream_backend_def)
  have "\<exists>b. L' a = Some b \<and> s_out K b new_history"
    using compresses_streamsD(2) [OF K, unfolded zstd_compresses_def, THEN conjunct1] c a(1) s by blast
  with v True show ?thesis by (auto simp: ctx_history_def)
qed

lemma make_sweller_history:
  assumes K: "decompresses_streams E K" and E: "stream_backend E f" "allocations_succeed E w"
    and mk: "make_sweller E f w = Inr (v, w1)"
  shows "sw_history K f v w1 new_history"
proof (cases "f = Fmt_Zstd")
  case False
  obtain st L where i: "inflateInit2 (zlib E) zero_stream (window_bits_for f) (lib w) = (Z_OK, st, L)"
    using allocations_succeedD(2) [OF E(2)] by blast
  from mk False E(1) zlib_sweller_new_run [OF i] have
    v: "v = Zlib_Sweller \<lparr>zsw_stream = brk w\<rparr>" "zstreams w1 (brk w) = Some st" "lib w1 = L"
    by (cases f; auto simp: make_sweller_def into_variant_eqs stream_backend_def)+
  have "\<exists>b. L (zstate st) = Some b \<and> z_in K (window_bits_for f) b new_history"
    using decompresses_streamsD(1) [OF K, unfolded zlib_inflates_def, THEN conjunct1] i by blast
  with v False show ?thesis by (auto simp: stream_history_def)
next
  case True
  obtain a L where c: "ZSTD_createDCtx (zstd E) (lib w) = (a, L)" by force
  have a: "a \<noteq> 0" using E(2) c by (simp add: allocations_succeed_def)
  from mk True E(1) zstd_sweller_new_run [OF c a] have
    v: "v = Zstd_Sweller \<lparr>dctx = a, dsw_fmt = f\<rparr>" "lib w1 = L"
    by (auto simp: make_sweller_def into_variant_eqs stream_backend_def)
  have "\<exists>b. L a = Some b \<and> s_in K b new_history"
    using decompresses_streamsD(2) [OF K, unfolded zstd_decompresses_def, THEN conjunct1] c a by blast
  with v True show ?thesis by (auto simp: ctx_history_def)
qed

lemma sq_history_impls [simp]:
  "sq_history K f v (w\<lparr>cimpls := C\<rparr>) hs = sq_history K f v w hs"
  "sw_history K f u (w\<lparr>dimpls := D\<rparr>) hs = sw_history K f u w hs"
  by (cases v; simp add: stream_history_def ctx_history_def; fail)
    (cases u; simp add: stream_history_def ctx_history_def)

lemma compressor_new_history:
  assumes "compresses_streams E K" "stream_backend E f" "allocations_succeed E w"
    and new: "compressor_new E f lvl w = Inr (Inr c, w')"
  shows "cp_history K f c w' new_history"
proof -
  obtain v w1 where mk: "make_squeezer E f lvl (w\<lparr>brk := Suc (brk w)\<rparr>) = Inr (v, w1)"
    and w': "c = \<lparr>cp_impl = brk w\<rparr>" "w' = w1\<lparr>cimpls := (cimpls w1)(brk w \<mapsto> v)\<rparr>"
    and lvl: "f = Fmt_Zstd \<or> level_in_range lvl"
    using new by (auto simp: compressor_new_def level_in_range_def Let_def chain_Inr_iff split: if_splits)
  have "sq_history K f v w1 new_history"
    by (rule make_squeezer_history [OF assms(1,2) _ lvl mk]) (simp add: assms(3))
  then show ?thesis by (simp add: cp_history_def w')
qed

lemma decompressor_new_history:
  assumes "decompresses_streams E K" "stream_backend E f" "allocations_succeed E w"
    and new: "decompressor_new E f w = Inr (d, w')"
  shows "dp_history K f d w' new_history"
proof -
  obtain v w1 where mk: "make_sweller E f (w\<lparr>brk := Suc (brk w)\<rparr>) = Inr (v, w1)"
    and w': "d = \<lparr>dp_impl = brk w\<rparr>" "w' = w1\<lparr>dimpls := (dimpls w1)(brk w \<mapsto> v)\<rparr>"
    using new by (auto simp: decompressor_new_def Let_def chain_Inr_iff)
  have "sw_history K f v w1 new_history"
    by (rule make_sweller_history [OF assms(1,2) _ mk]) (simp add: assms(3))
  then show ?thesis by (simp add: dp_history_def w')
qed

section \<open>Calls\<close>

lemma same_impls:
  fixes w :: "('l::len, 'b, 'm) stream_world_scheme"
  assumes "frame P S w w'"
  shows "cimpls w' = cimpls w" "dimpls w' = dimpls w"
  using assms impls_more [of w' w] by (simp_all add: frame_def)

lemma compressor_push_history:
  fixes w :: "(64, 'b, 'm) stream_world_scheme"
  assumes E: "env_ok E" "compresses_streams E K" and w: "wf_world w" "cp_history K f c w hs"
    and run: "h_phase hs = Running" "spans_apart i out" and call: "compressor_push E c i out w = Inr (Inr r, w')"
  shows "cp_history K f c w' (moved Running (mem w) i (bytes_consumed r) (mem w') out (bytes_produced r) hs)"
    "wf_world w'"
proof -
  note fr = compressor_push.op_frame [OF E(1) w(1) cp_history_ready [OF w(2)] call]
  show "wf_world w'" using fr by blast
  obtain v p where v: "cimpls w (cp_impl c) = Some v" "push_visit_squeezer E i out v w = Inr (Inr p, w')"
    and r: "r = \<lparr>bytes_consumed = po_in p, bytes_produced = po_out p, sr_done = False\<rparr>"
    using compressor_call_cases(1) [OF call] by blast
  with w(2) have "sq_history K f v w hs" by (simp add: cp_history_def)
  from push_visit_history [OF E w(1) this run v(2)] fr v(1)
  show "cp_history K f c w' (moved Running (mem w) i (bytes_consumed r) (mem w') out (bytes_produced r) hs)"
    by (simp add: cp_history_def r same_impls [OF conjunct1 [OF fr]])
qed

lemma compressor_flush_history:
  fixes w :: "(64, 'b, 'm) stream_world_scheme"
  assumes E: "env_ok E" "compresses_streams E K" and w: "wf_world w" "cp_history K f c w hs"
    and run: "h_phase hs = Running" and call: "compressor_flush E c out w = Inr (Inr r, w')"
  shows "cp_history K f c w' (moved Running (mem w) empty_span 0 (mem w') out (bytes_produced r) hs)"
    "wf_world w'"
proof -
  note fr = compressor_flush.op_frame [OF E(1) w(1) cp_history_ready [OF w(2)] call]
  show "wf_world w'" using fr by blast
  obtain v p where v: "cimpls w (cp_impl c) = Some v" "flush_visit E out v w = Inr (Inr p, w')"
    and r: "r = \<lparr>bytes_consumed = 0, bytes_produced = po_out p, sr_done = False\<rparr>"
    using compressor_call_cases(2) [OF call] by blast
  with w(2) have "sq_history K f v w hs" by (simp add: cp_history_def)
  from flush_visit_history [OF E w(1) this run v(2)] fr v(1)
  show "cp_history K f c w' (moved Running (mem w) empty_span 0 (mem w') out (bytes_produced r) hs)"
    by (simp add: cp_history_def r same_impls [OF conjunct1 [OF fr]])
qed

text \<open>What \<open>finish\<close> leaves: a finishing stream, or an ended one that is complete.\<close>

definition finished ::
  "'b stream_codec \<Rightarrow> format \<Rightarrow> compressor \<Rightarrow> span \<Rightarrow> u64 \<Rightarrow> (64, 'b, 'm) stream_world_scheme
    \<Rightarrow> history \<Rightarrow> (64, 'b, 'm) stream_world_scheme \<Rightarrow> bool" where
  "finished K f c out k w hs w' \<longleftrightarrow>
     (\<exists>ph. ph \<noteq> Running \<and> cp_history K f c w' (moved ph (mem w) empty_span 0 (mem w') out k hs) \<and>
        (ph = Ended \<longrightarrow> is_stream_of K f (h_given hs @ head_of (mem w') out k) (h_taken hs)) \<and>
        (k \<noteq> span_size out \<longrightarrow> f = Fmt_Zstd \<or> small out \<longrightarrow> ph = Ended))"

lemma compressor_finish_history:
  fixes w :: "(64, 'b, 'm) stream_world_scheme"
  assumes E: "env_ok E" "compresses_streams E K" "zstd_end_progress (zstd E)"
    and w: "wf_world w" "cp_history K f c w hs"
    and run: "h_phase hs \<noteq> Ended" and call: "compressor_finish E c out w = Inr (Inr r, w')"
  shows "finished K f c out (bytes_produced r) w hs w'" "wf_world w'"
proof -
  note fr = compressor_finish.op_frame [OF conjI [OF E(1,3)] w(1) cp_history_ready [OF w(2)] call]
  show "wf_world w'" using fr by blast
  obtain v p where v: "cimpls w (cp_impl c) = Some v" "finish_visit E out v w = Inr (Inr p, w')"
    and r: "bytes_produced r = po_out p"
    using compressor_call_cases(3) [OF call] by fastforce
  with w(2) have "sq_history K f v w hs" by (simp add: cp_history_def)
  from finish_visit_history [OF E(1,2) w(1) this run v(2)] fr v(1)
  show "finished K f c out (bytes_produced r) w hs w'"
    by (simp add: finished_def cp_history_def r same_impls [OF conjunct1 [OF fr]])
qed

text \<open>
  A push of a decompressor that is fed a stream: it gives a value, and \<open>reads_on\<close> says what it
  read, restored and reported.
\<close>

definition reads_on ::
  "'b stream_codec \<Rightarrow> format \<Rightarrow> decompressor \<Rightarrow> span \<Rightarrow> span \<Rightarrow> ('l::len, 'b, 'm) stream_world_scheme
    \<Rightarrow> history \<Rightarrow> u8 list \<Rightarrow> u8 list \<Rightarrow> stream_result \<Rightarrow> ('l, 'b, 'm) stream_world_scheme \<Rightarrow> bool" where
  "reads_on K f d i out w hs ys xs r w' \<longleftrightarrow>
     (let hs' = moved (if sr_done r then Ended else Running) (mem w) i (bytes_consumed r) (mem w') out (bytes_produced r) hs
      in dp_history K f d w' hs' \<and> reads_in ys xs hs' \<and>
         (sr_done r \<longleftrightarrow> h_taken hs' = ys \<and> h_given hs' = xs) \<and>
         (f = Fmt_Zstd \<or> small out \<longrightarrow> h_taken hs' = ys \<longrightarrow> bytes_produced r \<noteq> span_size out \<longrightarrow> sr_done r) \<and>
         (f = Fmt_Zstd \<or> small i \<and> small out \<longrightarrow> \<not> sr_done r \<longrightarrow>
            bytes_consumed r = span_size i \<or> bytes_produced r = span_size out) \<and>
         (f \<noteq> Fmt_Zstd \<longrightarrow> small i \<longrightarrow> h_given hs' = xs \<longrightarrow> bytes_consumed r = span_size i))"

lemma decompressor_push_reads:
  fixes w :: "(64, 'b, 'm) stream_world_scheme"
  assumes E: "env_ok E" "decompresses_streams E K" and w: "wf_world w" "dp_history K f d w hs"
    and run: "h_phase hs = Running" "spans_valid i out"
    and str: "is_stream_of K f ys xs" "reads_in ys xs hs" "feeds ys hs (mem w) i"
  obtains r w' where "decompressor_push E d i out w = Inr (Inr r, w')"
    "reads_on K f d i out w hs ys xs r w'" "wf_world w'"
proof -
  obtain v where v: "dimpls w (dp_impl d) = Some v" "sw_history K f v w hs"
    using w(2) by (auto simp: dp_history_def)
  obtain p w' where p: "push_visit_sweller E i out v w = Inr (Inr p, w')" "reading K f v i out w hs ys xs p w'"
    using push_visit_reading [OF E w(1) v(2) run str] by blast
  let ?r = "\<lparr>bytes_consumed = po_in p, bytes_produced = po_out p, sr_done = po_done p\<rparr>"
  have call: "decompressor_push E d i out w = Inr (Inr ?r, w')"
    using v(1) p(1) by (simp add: decompressor_push_def decompressor_handle_def stream_reply_of_def)
  note fr = decompressor_push.op_frame [OF E(1) w(1) dp_history_ready [OF w(2)] call]
  have h: "dp_history K f d w' hs' \<longleftrightarrow> sw_history K f v w' hs'" for hs'
    using v(1) by (simp add: dp_history_def same_impls [OF conjunct1 [OF fr]])
  have "reads_on K f d i out w hs ys xs ?r w'"
    using p(2) unfolding reads_on_def reading_def Let_def stream_result.simps h .
  with call fr show thesis using that by blast
qed

section \<open>Sessions\<close>

text \<open>
  The uses of a compressor up to its finishing call: \<open>xs\<close> is what its pushes took and \<open>ys\<close> what
  they and its flushes gave. Between two calls any other code may run, write memory and use
  other objects; a call that reports an error ends the session.
\<close>

inductive compressing ::
  "('l::len, 'b) env \<Rightarrow> format \<Rightarrow> compressor \<Rightarrow> u8 list \<Rightarrow> u8 list \<Rightarrow> ('l, 'b, 'm) stream_world_scheme \<Rightarrow> bool"
  for E f c where
  built: "wf_world w0 \<Longrightarrow> allocations_succeed E w0 \<Longrightarrow> compressor_new E f lvl w0 = Inr (Inr c, w) \<Longrightarrow>
    compressing E f c [] [] w"
| elsewhere: "compressing E f c xs ys w \<Longrightarrow> cp_untouched c w w' \<Longrightarrow> compressing E f c xs ys w'"
| pushed: "compressing E f c xs ys w \<Longrightarrow> spans_apart i out \<Longrightarrow>
    compressor_push E c i out w = Inr (Inr r, w') \<Longrightarrow>
    compressing E f c (xs @ head_of (mem w) i (bytes_consumed r)) (ys @ head_of (mem w') out (bytes_produced r)) w'"
| flushed: "compressing E f c xs ys w \<Longrightarrow> compressor_flush E c out w = Inr (Inr r, w') \<Longrightarrow>
    compressing E f c xs (ys @ head_of (mem w') out (bytes_produced r)) w'"

text \<open>
  The uses of a decompressor that is fed the bytes \<open>zs\<close> in pieces: \<open>rd\<close> is what it has read,
  \<open>xs\<close> what it has restored, and \<open>fin\<close> the last \<open>done\<close>.
\<close>

inductive decompressing ::
  "('l::len, 'b) env \<Rightarrow> format \<Rightarrow> decompressor \<Rightarrow> u8 list \<Rightarrow> u8 list \<Rightarrow> u8 list \<Rightarrow> bool
    \<Rightarrow> ('l, 'b, 'm) stream_world_scheme \<Rightarrow> bool"
  for E f d zs where
  dbuilt: "wf_world w0 \<Longrightarrow> allocations_succeed E w0 \<Longrightarrow> decompressor_new E f w0 = Inr (d, w) \<Longrightarrow>
    decompressing E f d zs [] [] False w"
| delsewhere: "decompressing E f d zs rd xs fin w \<Longrightarrow> dp_untouched d w w' \<Longrightarrow> decompressing E f d zs rd xs fin w'"
| dpushed: "decompressing E f d zs rd xs False w \<Longrightarrow> spans_valid i out \<Longrightarrow> prefix (rd @ span_bytes (mem w) i) zs \<Longrightarrow>
    decompressor_push E d i out w = Inr (Inr r, w') \<Longrightarrow>
    decompressing E f d zs (rd @ head_of (mem w) i (bytes_consumed r)) (xs @ head_of (mem w') out (bytes_produced r))
      (sr_done r) w'"

text \<open>The history of a session is what it took and gave.\<close>

lemma moved_history: "moved ph m i n m' out k \<lparr>h_phase = q, h_taken = xs, h_given = ys\<rparr>
    = \<lparr>h_phase = ph, h_taken = xs @ head_of m i n, h_given = ys @ head_of m' out k\<rparr>"
  by (simp add: moved_def move_on_def)

lemma compressing_history:
  fixes w :: "(64, 'b, 'm) stream_world_scheme"
  assumes "compressing E f c xs ys w" and E: "env_ok E" "compresses_streams E K" "stream_backend E f"
  shows "wf_world w \<and> cp_history K f c w \<lparr>h_phase = Running, h_taken = xs, h_given = ys\<rparr>"
  using assms(1)
proof (induction rule: compressing.induct)
  case (built w0 lvl w)
  with compressor_new_history [OF E(2,3) built(2,3)] compressor_new_wf [OF E(1) built(1,3)]
  show ?case by (simp add: new_history_def)
next
  case (elsewhere xs ys w w')
  then show ?case by (auto simp: cp_untouched_def intro: cp_untouched_history)
next
  case (pushed xs ys w i out r w')
  then show ?case using compressor_push_history [OF E(1,2)] by (fastforce simp: moved_history)
next
  case (flushed xs ys w out r w')
  then show ?case using compressor_flush_history [OF E(1,2)] by (fastforce simp: moved_history)
qed

lemma decompressing_history:
  fixes w :: "(64, 'b, 'm) stream_world_scheme"
  assumes "decompressing E f d zs rd out fin w" and E: "env_ok E" "decompresses_streams E K" "stream_backend E f"
    and zs: "is_stream_of K f zs xs"
  shows "wf_world w \<and> dp_history K f d w \<lparr>h_phase = if fin then Ended else Running, h_taken = rd, h_given = out\<rparr> \<and>
    prefix rd zs \<and> prefix out xs \<and> (fin \<longrightarrow> rd = zs \<and> out = xs)"
  using assms(1)
proof (induction rule: decompressing.induct)
  case (dbuilt w0 w)
  with decompressor_new_history [OF E(2,3) dbuilt(2,3)] decompressor_new_wf [OF E(1) dbuilt(1,3)]
  show ?case by (simp add: new_history_def)
next
  case (delsewhere rd xs fin w w')
  then show ?case by (auto simp: dp_untouched_def intro: dp_untouched_history)
next
  case (dpushed rd out w i o' r w')
  let ?hs = "\<lparr>h_phase = Running, h_taken = rd, h_given = out\<rparr>"
  have h: "wf_world w" "dp_history K f d w ?hs" "reads_in zs xs ?hs" "feeds zs ?hs (mem w) i"
    using dpushed by (simp_all add: reads_in_def feeds_def)
  obtain r2 w2 where "decompressor_push E d i o' w = Inr (Inr r2, w2)" "reads_on K f d i o' w ?hs zs xs r2 w2" "wf_world w2"
    using decompressor_push_reads [OF E(1,2) h(1,2) _ dpushed(2) zs h(3,4)] by auto
  with dpushed(4) have "reads_on K f d i o' w ?hs zs xs r w'" "wf_world w'" by simp_all
  then show ?case unfolding reads_on_def Let_def moved_history reads_in_def history.simps by blast
qed

text \<open>The next push of a session that is fed on with its stream.\<close>

lemma decompressing_push:
  fixes w :: "(64, 'b, 'm) stream_world_scheme"
  assumes s: "decompressing E f d zs rd res False w"
    and E: "env_ok E" "decompresses_streams E K" "stream_backend E f" and zs: "is_stream_of K f zs xs"
    and i: "spans_valid i out" "prefix (rd @ span_bytes (mem w) i) zs"
  obtains r w' where "decompressor_push E d i out w = Inr (Inr r, w')" "wf_world w'"
    "reads_on K f d i out w \<lparr>h_phase = Running, h_taken = rd, h_given = res\<rparr> zs xs r w'"
proof -
  have h: "wf_world w" "dp_history K f d w \<lparr>h_phase = Running, h_taken = rd, h_given = res\<rparr>"
    "reads_in zs xs \<lparr>h_phase = Running, h_taken = rd, h_given = res\<rparr>"
    "feeds zs \<lparr>h_phase = Running, h_taken = rd, h_given = res\<rparr> (mem w) i"
    using decompressing_history [OF s E zs] i(2) by (simp_all add: reads_in_def feeds_def)
  show thesis
    by (rule decompressor_push_reads [OF E(1,2) h(1,2) _ i(1) zs h(3,4)]) (simp, rule that)
qed

text \<open>What a session and its finishing call produced.\<close>

lemma compressing_finished:
  fixes w :: "(64, 'b, 'm) stream_world_scheme"
  assumes s: "compressing E f c xs ys w"
    and E: "env_ok E" "compresses_streams E K" "zstd_end_progress (zstd E)" "stream_backend E f"
    and call: "compressor_finish E c out w = Inr (Inr r, w')"
    and room: "bytes_produced r \<noteq> span_size out" "f = Fmt_Zstd \<or> small out"
  shows "is_stream_of K f (ys @ head_of (mem w') out (bytes_produced r)) xs"
proof -
  have h: "wf_world w" "cp_history K f c w \<lparr>h_phase = Running, h_taken = xs, h_given = ys\<rparr>"
    using compressing_history [OF s E(1,2,4)] by simp_all
  show ?thesis
    using compressor_finish_history(1) [OF E(1-3) h _ call] room by (auto simp: finished_def)
qed

end
