(* ===== verification/Variant_Types.thy ===== *)
theory Variant_Types
  imports Client_Program
begin

text \<open>
  Which alternative of its variant an \<open>impl\<close> can hold. In the source the preprocessor fixes the
  alternatives of each build; the datatypes of \<open>Stream_Variants\<close> have the alternatives of every
  build, so the typing is stated here and proved of every program.
\<close>

definition sq_typed :: "('l::len, 'b) env \<Rightarrow> squeezer_variant \<Rightarrow> bool" where
  "sq_typed E v \<longleftrightarrow> (case v of
     Zlib_Squeezer h \<Rightarrow> has_zlib E
   | Zlib_Stub_Squeezer \<Rightarrow> \<not> has_zlib E
   | Zstd_Squeezer h \<Rightarrow> has_zstd E \<and> csq_fmt h = Fmt_Zstd
   | Zstd_Stub_Squeezer \<Rightarrow> \<not> has_zstd E)"

definition sw_typed :: "('l::len, 'b) env \<Rightarrow> sweller_variant \<Rightarrow> bool" where
  "sw_typed E v \<longleftrightarrow> (case v of
     Zlib_Sweller h \<Rightarrow> has_zlib E
   | Zlib_Stub_Sweller \<Rightarrow> \<not> has_zlib E
   | Zstd_Sweller h \<Rightarrow> has_zstd E \<and> dsw_fmt h = Fmt_Zstd
   | Zstd_Stub_Sweller \<Rightarrow> \<not> has_zstd E)"

definition impls_typed :: "('l::len, 'b) env \<Rightarrow> ('l, 'b, 'm) stream_world_scheme \<Rightarrow> bool" where
  "impls_typed E w \<longleftrightarrow>
     (\<forall>v \<in> ran (cimpls w). sq_typed E v) \<and> (\<forall>u \<in> ran (dimpls w). sw_typed E u)"

section \<open>No call changes an impl object\<close>

lemma zcall_more: "zcall call p fl i out w = Inr c \<Longrightarrow> world.more (zc_world c) = world.more w"
  by (auto elim: zcallE)

lemma zop_more:
  assumes "chain (zcall call p fl i out w) F = Inr (y, w')"
    and "\<And>c y w'. F c = Inr (y, w') \<Longrightarrow> w' = zc_world c"
  shows "world.more w' = world.more w"
proof -
  obtain c where "zcall call p fl i out w = Inr c" "F c = Inr (y, w')"
    using assms(1) by (rule chain_InrE)
  with assms(2) zcall_more show ?thesis by metis
qed

lemma chain_adapt_reply:
  "chain x (adapt g) = Inr (r, w') \<longleftrightarrow> (\<exists>y. x = Inr (y, w') \<and> r = map_sum id g y)"
  by (cases x) (auto simp: adapt_def split: sum.splits)

lemma zlib_ops_more:
  "zlib_squeezer_push E h i out w = Inr (r, w') \<Longrightarrow> world.more w' = world.more w"
  "zlib_squeezer_push_more E h i out w = Inr (r, w') \<Longrightarrow> world.more w' = world.more w"
  "zlib_squeezer_flush E h out w = Inr (r, w') \<Longrightarrow> world.more w' = world.more w"
  "zlib_sweller_push_more E u i out w = Inr (r, w') \<Longrightarrow> world.more w' = world.more w"
  unfolding zlib_squeezer_push_def zlib_squeezer_push_more_def zlib_squeezer_flush_def zlib_sweller_push_more_def
  by (erule zop_more; auto split: if_splits)+

lemma zstd_ops_more:
  "zstd_squeezer_push_more E h i out w = Inr (r, w') \<Longrightarrow> world.more w' = world.more w"
  "zstd_squeezer_flush E h out w = Inr (r, w') \<Longrightarrow> world.more w' = world.more w"
  "zstd_squeezer_finish E h out w = Inr (r, w') \<Longrightarrow> world.more w' = world.more w"
  "zstd_sweller_push_more E u i out w = Inr (r, w') \<Longrightarrow> world.more w' = world.more w"
  unfolding zstd_squeezer_push_more_def zstd_squeezer_flush_def zstd_squeezer_finish_def zstd_sweller_push_more_def
  by (auto simp: chain_Inr_iff Let_def split: prod.splits if_splits option.splits)

lemmas ops_more = zlib_ops_more zstd_ops_more

lemma visits_more:
  "push_visit_squeezer E i out v w = Inr (r, w') \<Longrightarrow> world.more w' = world.more w"
  "push_visit_sweller E i out u w = Inr (r, w') \<Longrightarrow> world.more w' = world.more w"
  "flush_visit E out v w = Inr (r, w') \<Longrightarrow> world.more w' = world.more w"
  "finish_visit E out v w = Inr (r, w') \<Longrightarrow> world.more w' = world.more w"
proof -
  show "push_visit_squeezer E i out v w = Inr (r, w') \<Longrightarrow> world.more w' = world.more w"
    by (cases v) (auto simp: chain_adapt_reply dest: ops_more)
  show "push_visit_sweller E i out u w = Inr (r, w') \<Longrightarrow> world.more w' = world.more w"
    by (cases u) (auto simp: chain_adapt_reply dest: ops_more)
  show "flush_visit E out v w = Inr (r, w') \<Longrightarrow> world.more w' = world.more w"
    by (cases v) (auto simp: chain_adapt_reply dest: ops_more)
  show "finish_visit E out v w = Inr (r, w') \<Longrightarrow> world.more w' = world.more w"
    by (cases v) (auto simp: chain_adapt_reply zlib_squeezer_finish_def dest: ops_more)
qed

lemma deletes_more:
  "squeezer_variant_delete E v w = Inr w' \<Longrightarrow> world.more w' = world.more w"
  "sweller_variant_delete E u w = Inr w' \<Longrightarrow> world.more w' = world.more w"
proof -
  show "squeezer_variant_delete E v w = Inr w' \<Longrightarrow> world.more w' = world.more w"
    by (cases v) (auto simp: zlib_squeezer_delete_def zstd_squeezer_delete_def delete_zstream_def
        elim!: chain_InrE split: if_splits prod.splits)
  show "sweller_variant_delete E u w = Inr w' \<Longrightarrow> world.more w' = world.more w"
    by (cases u) (auto simp: zlib_sweller_delete_def zstd_sweller_delete_def delete_zstream_def
        elim!: chain_InrE split: if_splits prod.splits)
qed

lemma makes_typed:
  "make_squeezer E f lvl w = Inr (v, w') \<Longrightarrow> sq_typed E v \<and> world.more w' = world.more w"
  "make_sweller E f w = Inr (u, w') \<Longrightarrow> sw_typed E u \<and> world.more w' = world.more w"
proof -
  show "sq_typed E v \<and> world.more w' = world.more w" if "make_squeezer E f lvl w = Inr (v, w')"
    using that by (cases f) (auto simp: make_squeezer_def into_variant_eqs zlib_squeezer_new_def zstd_squeezer_new_def
        new_zstream_def sq_typed_def chain_Inr_iff Let_def split: prod.splits if_splits)
  show "sw_typed E u \<and> world.more w' = world.more w" if "make_sweller E f w = Inr (u, w')"
    using that by (cases f) (auto simp: make_sweller_def into_variant_eqs zlib_sweller_new_def zstd_sweller_new_def
        new_zstream_def sw_typed_def chain_Inr_iff Let_def split: prod.splits if_splits)
qed

section \<open>Every operation keeps the typing\<close>

lemma impls_typed_more: "world.more w' = world.more w \<Longrightarrow> impls_typed E w' = impls_typed E w"
  using impls_more [of w' w] by (simp add: impls_typed_def)

lemma impls_typed_upd:
  "impls_typed E w \<Longrightarrow> sq_typed E v \<Longrightarrow> impls_typed E (w\<lparr>cimpls := (cimpls w)(p \<mapsto> v)\<rparr>)"
  "impls_typed E w \<Longrightarrow> sw_typed E u \<Longrightarrow> impls_typed E (w\<lparr>dimpls := (dimpls w)(p \<mapsto> u)\<rparr>)"
  "impls_typed E w \<Longrightarrow> impls_typed E (w\<lparr>cimpls := (cimpls w)(p := None)\<rparr>)"
  "impls_typed E w \<Longrightarrow> impls_typed E (w\<lparr>dimpls := (dimpls w)(p := None)\<rparr>)"
  by (auto simp: impls_typed_def ran_def)

lemma impls_typed_brk [simp]: "impls_typed E (w\<lparr>brk := n\<rparr>) = impls_typed E w"
  by (simp add: impls_typed_def)

lemma compressor_ops_typed:
  assumes "impls_typed E w"
  shows "compressor_new E f lvl w = Inr (r, w') \<Longrightarrow> impls_typed E w'"
    "compressor_push E c i out w = Inr (q, w') \<Longrightarrow> impls_typed E w'"
    "compressor_flush E c out w = Inr (q, w') \<Longrightarrow> impls_typed E w'"
    "compressor_finish E c out w = Inr (q, w') \<Longrightarrow> impls_typed E w'"
    "compressor_delete E c w = Inr w' \<Longrightarrow> impls_typed E w'"
    "compressor_assign E b c c' w = Inr (cs, w') \<Longrightarrow> impls_typed E w'"
proof -
  have del: "impls_typed E w'" if "compressor_impl_delete E c w = Inr w'" for c w'
    using that assms
    by (auto simp: compressor_impl_delete_def chain_Inr_iff intro!: impls_typed_upd dest!: deletes_more impls_typed_more [where E = E])
  show "impls_typed E w'" if "compressor_new E f lvl w = Inr (r, w')"
    using that assms
    by (auto simp: compressor_new_def chain_Inr_iff Let_def intro!: impls_typed_upd split: if_splits
        dest!: makes_typed impls_typed_more [where E = E])
  show "compressor_push E c i out w = Inr (q, w') \<Longrightarrow> impls_typed E w'"
    "compressor_flush E c out w = Inr (q, w') \<Longrightarrow> impls_typed E w'"
    "compressor_finish E c out w = Inr (q, w') \<Longrightarrow> impls_typed E w'"
    using assms
    by (auto simp: compressor_push_def compressor_flush_def compressor_finish_def chain_Inr_iff [of "compressor_handle c w"]
        chain_stream_reply
        dest!: visits_more impls_typed_more [where E = E])
  show "compressor_delete E c w = Inr w' \<Longrightarrow> impls_typed E w'"
    using assms by (auto simp: compressor_delete_def dest: del split: if_splits)
  show "compressor_assign E b c c' w = Inr (cs, w') \<Longrightarrow> impls_typed E w'"
    using assms by (auto simp: compressor_assign_def chain_Inr_iff dest: del split: if_splits)
qed

lemma decompressor_ops_typed:
  assumes "impls_typed E w"
  shows "decompressor_new E f w = Inr (d, w') \<Longrightarrow> impls_typed E w'"
    "decompressor_push E d i out w = Inr (q, w') \<Longrightarrow> impls_typed E w'"
    "decompressor_delete E d w = Inr w' \<Longrightarrow> impls_typed E w'"
    "decompressor_assign E b d d' w = Inr (ds, w') \<Longrightarrow> impls_typed E w'"
proof -
  have del: "impls_typed E w'" if "decompressor_impl_delete E d w = Inr w'" for d w'
    using that assms
    by (auto simp: decompressor_impl_delete_def chain_Inr_iff intro!: impls_typed_upd dest!: deletes_more impls_typed_more [where E = E])
  show "impls_typed E w'" if "decompressor_new E f w = Inr (d, w')"
    using that assms
    by (auto simp: decompressor_new_def chain_Inr_iff Let_def intro!: impls_typed_upd
        dest!: makes_typed impls_typed_more [where E = E])
  show "decompressor_push E d i out w = Inr (q, w') \<Longrightarrow> impls_typed E w'"
    using assms
    by (auto simp: decompressor_push_def chain_Inr_iff [of "decompressor_handle d w"] chain_stream_reply
        dest!: visits_more impls_typed_more [where E = E])
  show "decompressor_delete E d w = Inr w' \<Longrightarrow> impls_typed E w'"
    using assms by (auto simp: decompressor_delete_def dest: del split: if_splits)
  show "decompressor_assign E b d d' w = Inr (ds, w') \<Longrightarrow> impls_typed E w'"
    using assms by (auto simp: decompressor_assign_def chain_Inr_iff dest: del split: if_splits)
qed

lemma exec_typed:
  assumes "exec E st (s, w) = Some (Inr (s', w'))" "impls_typed E w"
  shows "impls_typed E w'"
  using assms(1) compressor_ops_typed [OF assms(2)] decompressor_ops_typed [OF assms(2)] assms(2)
  by (cases st) (auto simp: chain_Inr_iff split: if_splits option.splits variable.splits prod.splits)

lemma reachable_typed: "reachable E s w \<Longrightarrow> impls_typed E w"
proof (induction rule: reachable.induct)
  case (start w)
  then show ?case by (simp add: empty_heaps_def impls_typed_def)
next
  case (step s w st s' w')
  then show ?case using exec_typed by blast
qed

end
