(* ===== verification/Reference_Streams.thy ===== *)
theory Reference_Streams
  imports Reference_Engine Stream_History
begin

text \<open>
  The reference engine keeps the streaming promises of \<open>Stream_History\<close> as well: its histories,
  written out, and the proofs. As with \<open>Reference_Engine\<close>, nothing here models the repository.
\<close>

section \<open>Histories of the engine's states\<close>

text \<open>What a compressing state has given and still holds is the wire format of what it took.\<close>

fun ref_out :: "u8 \<Rightarrow> int \<Rightarrow> ref_state \<Rightarrow> history \<Rightarrow> bool" where
  "ref_out os wb (Ref_Enc pend fin) hs \<longleftrightarrow> (case h_phase hs of
     Running \<Rightarrow> \<not> fin \<and> h_given hs @ pend = ref_header os wb @ tagged (h_taken hs)
   | Finishing \<Rightarrow> fin \<and> h_given hs @ pend = ref_header os wb @ tagged (h_taken hs) @ [0]
   | Ended \<Rightarrow> h_given hs = ref_header os wb @ tagged (h_taken hs) @ [0])"
| "ref_out os wb (Ref_Dec skip md pend) hs \<longleftrightarrow> False"

fun ref_in :: "int \<Rightarrow> ref_state \<Rightarrow> history \<Rightarrow> bool" where
  "ref_in wb (Ref_Dec skip md pend) hs \<longleftrightarrow> h_phase hs = Ended \<or>
     ref_scan (ref_header_len wb) At_Tag (h_taken hs) = (skip, md, h_given hs @ pend, [])"
| "ref_in wb (Ref_Enc pend fin) hs \<longleftrightarrow> h_phase hs = Ended"

lemma tagged_append [simp]: "tagged (xs @ ys) = tagged xs @ tagged ys"
  by (induction xs) simp_all

lemma ref_dec_given: "ref_dec wb (ref_header os wb @ tagged xs @ [0]) xs"
  by (simp add: ref_dec_def)

section \<open>Compression\<close>

lemma ref_deflate_state:
  assumes "ref_deflate st fl m L = (r, st', m', L')" "L (zstate st) = Some (Ref_Enc pend fin)"
  shows "L' (zstate st) = Some (Ref_Enc (drop (unat (avail_out st))
      (pend @ tagged (bytes_at m (next_in st) (unat (avail_in st))) @ (if fl = Z_FINISH \<and> \<not> fin then [0] else [])))
      (fin \<or> fl = Z_FINISH))"
  using assms by (auto simp: ref_deflate_def Let_def ref_finish_call_def)

lemma ref_init_out:
  "ref_init v (Ref_Enc (ref_header os wb) False) zero_stream L0 = (Z_OK, st, L) \<Longrightarrow>
    \<exists>b. L (zstate st) = Some b \<and> ref_out os wb b new_history"
  using ref_init_state by fastforce

lemma ref_deflates: "zlib_deflates (ref_zlib os) (ref_out os) ref_dec"
  unfolding zlib_deflates_def ref_zlib_sel
proof ((rule conjI; intro allI impI), goal_cases)
  case (1 lvl wb L0 st L)
  then show ?case by (rule ref_init_out)
next
  case (2 wb st fl m L r st' m' L' b hs)
  from 2(3) have run: "h_phase hs \<noteq> Ended" by (auto simp: may_ask_def)
  then obtain pend fin where b: "b = Ref_Enc pend fin" using 2(2) by (cases b) auto
  note s = 2(1) [unfolded b]
  note f = ref_deflate_call [OF 2(5) s] and st = ref_deflate_state [OF 2(5) s]
  let ?xs = "bytes_at m (next_in st) (unat (avail_in st))"
  let ?z = "if fl = Z_FINISH \<and> \<not> fin then [0] else [] :: u8 list"
  let ?p = "pend @ tagged ?xs @ ?z"
  let ?hs = "move_on (if r = Z_STREAM_END then Ended else if fl = Z_FINISH then Finishing else Running)
    (bytes_at m (next_in st) (taken st st')) (bytes_at m' (next_out st) (given st st')) hs"
  have fin: "fin \<longleftrightarrow> h_phase hs = Finishing" and pend: "h_given hs @ pend =
      ref_header os wb @ tagged (h_taken hs) @ (if fin then [0] else [])"
    using 2(2) run by (auto simp: b split: phase.splits)
  have asked: "fin \<Longrightarrow> fl = Z_FINISH \<and> ?xs = []"
    using 2(3) by (auto simp: fin may_ask_def)
  have all: "h_given ?hs @ drop (unat (avail_out st)) ?p =
      ref_header os wb @ tagged (h_taken ?hs) @ (if fl = Z_FINISH then [0] else [])"
  proof -
    have "h_given ?hs @ drop (unat (avail_out st)) ?p = h_given hs @ ?p"
      by (simp only: move_on_sel append_assoc f(5) append_take_drop_id)
    also have "\<dots> = (h_given hs @ pend) @ tagged ?xs @ ?z" by simp
    also have "\<dots> = ref_header os wb @ tagged (h_taken hs @ ?xs) @ (if fl = Z_FINISH then [0] else [])"
      unfolding pend using asked by (cases fin) simp_all
    finally show ?thesis by (simp add: f(3))
  qed
  have r: "r = Z_STREAM_END \<longleftrightarrow> fl = Z_FINISH \<and> drop (unat (avail_out st)) ?p = []"
  proof (cases "fl = Z_FINISH")
    case True
    show ?thesis unfolding f(6) [OF True] drop_eq_Nil using True by (simp only: simp_thms) simp
  next
    case False
    then show ?thesis using f(7) by auto
  qed
  have "ref_out os wb (Ref_Enc (drop (unat (avail_out st)) ?p) (fin \<or> fl = Z_FINISH)) ?hs"
    using all r asked by (auto split: if_splits)
  moreover have "r = Z_STREAM_END \<Longrightarrow> ref_dec wb (h_given ?hs) (h_taken ?hs)"
    using all r ref_dec_given [of wb os "h_taken ?hs"] by auto
  moreover have "(r = Z_STREAM_END \<or> r = Z_OK \<or> r = Z_BUF_ERROR) \<and> \<not> (fl = Z_FINISH \<and> r = Z_BUF_ERROR)"
    by (cases "fl = Z_FINISH") (use f(6) in \<open>simp split: if_splits\<close>, use f(7) in blast)
  ultimately show ?case using st unfolding Let_def by blast
qed


section \<open>Decompression\<close>

lemma ref_inflate_state:
  assumes "ref_inflate st fl m L = (r, st', m', L')" "L (zstate st) = Some (Ref_Dec skip md pend)"
    and "ref_scan skip md (bytes_at m (next_in st) (unat (avail_in st))) = (skip', md', new, left)"
  shows "L' (zstate st) = Some (Ref_Dec skip' md' (drop (unat (avail_out st)) (pend @ new)))"
  using assms by (auto simp: ref_inflate_def ref_finish_call_def Let_def)

text \<open>A scan can be done in two goes, as long as the first one used up its part.\<close>

lemma ref_scan_stop [simp]:
  "ref_scan 0 At_End us = (0, At_End, [], us)" "ref_scan 0 At_Fault us = (0, At_Fault, [], us)"
  by (cases us; simp)+

lemma ref_scan_append:
  "ref_scan n md xs = (n1, md1, ys, []) \<Longrightarrow>
   ref_scan n md (xs @ us) = (case ref_scan n1 md1 us of (n2, md2, zs, left) \<Rightarrow> (n2, md2, ys @ zs, left))"
  by (induction n md xs arbitrary: n1 md1 ys rule: ref_scan.induct) (auto split: if_splits prod.splits)

lemma ref_scan_stuck:
  "ref_scan n md xs = (n1, md1, ys, left) \<Longrightarrow> left \<noteq> [] \<Longrightarrow>
   ref_scan n md (xs @ us) = (n1, md1, ys, left @ us)"
  by (induction n md xs arbitrary: n1 md1 ys rule: ref_scan.induct) (auto split: if_splits prod.splits)

text \<open>A stream leaves nothing over, and neither does a part of it.\<close>

lemma ref_scan_part:
  assumes "ref_scan n md (xs @ us) = (n2, md2, zs, [])"
  obtains n1 md1 ys where "ref_scan n md xs = (n1, md1, ys, [])"
proof -
  obtain n1 md1 ys left where s: "ref_scan n md xs = (n1, md1, ys, left)" by (metis prod_cases4)
  have "left = []"
  proof (rule ccontr)
    assume "left \<noteq> []"
    from ref_scan_stuck [OF s this, of us] assms \<open>left \<noteq> []\<close> show False by (simp only: prod.inject append_is_Nil_conv) simp
  qed
  show thesis by (rule that [of n1 md1 ys]) (use s \<open>left = []\<close> in simp)
qed

lemma ref_dec_scan:
  assumes "ref_dec wb ys xs"
  shows "ref_scan (ref_header_len wb) At_Tag ys = (0, At_End, xs, [])"
proof -
  have le: "ref_header_len wb \<le> length ys" and dr: "drop (ref_header_len wb) ys = tagged xs @ [0]"
    using assms by (simp_all add: ref_dec_def)
  show ?thesis unfolding ref_scan_skip [OF le] dr by (rule ref_scan_tagged)
qed

lemma ref_scan_skipping:
  "ref_scan n md xs = (n1, md1, ys, left) \<Longrightarrow> (n1 \<noteq> 0 \<longrightarrow> md1 = md) \<and> n1 \<le> n"
  by (induction n md xs arbitrary: n1 md1 ys rule: ref_scan.induct) (auto split: if_splits prod.splits)

lemma ref_scan_fault: "ref_scan n At_Fault xs = (n1, md1, ys, left) \<Longrightarrow> md1 = At_Fault"
  by (induction n At_Fault xs arbitrary: n1 md1 ys rule: ref_scan.induct) auto

text \<open>
  A decoder that has read a part of a stream and now sees more of it: nothing is left over,
  nothing is wrong, and the end is reached exactly with the last byte.
\<close>

lemma ref_scan_on:
  assumes d: "ref_dec wb ys xs" and us: "prefix (us @ vs) ys"
    and before: "ref_scan (ref_header_len wb) At_Tag us = (n, md, zs, [])"
    and now: "ref_scan n md vs = (n', md', new, left)"
  shows "left = []" "ref_scan (ref_header_len wb) At_Tag (us @ vs) = (n', md', zs @ new, [])"
    "prefix (zs @ new) xs" "md' \<noteq> At_Fault" "md' = At_End \<longleftrightarrow> us @ vs = ys"
    "us @ vs = ys \<Longrightarrow> zs @ new = xs"
proof -
  obtain rest where ys: "ys = (us @ vs) @ rest" using us by (auto simp: prefix_def)
  have full: "ref_scan (ref_header_len wb) At_Tag ((us @ vs) @ rest) = (0, At_End, xs, [])"
    using ref_dec_scan [OF d] by (simp only: ys)
  obtain n1 md1 ws where part: "ref_scan (ref_header_len wb) At_Tag (us @ vs) = (n1, md1, ws, [])"
    using full by (rule ref_scan_part)
  have "ref_scan (ref_header_len wb) At_Tag (us @ vs) = (n', md', zs @ new, left)"
    using ref_scan_append [OF before, of vs] now by simp
  with part have p: "n1 = n'" "md1 = md'" "ws = zs @ new" "left = []" by simp_all
  show "left = []" by fact
  show scan: "ref_scan (ref_header_len wb) At_Tag (us @ vs) = (n', md', zs @ new, [])"
    using part p by simp
  obtain n2 md2 more left2 where t: "ref_scan n' md' rest = (n2, md2, more, left2)" by (metis prod_cases4)
  have e: "md2 = At_End" "zs @ new @ more = xs" "left2 = []"
    using ref_scan_append [OF scan, of rest] full t by simp_all
  then show "prefix (zs @ new) xs" by (auto simp: prefix_def)
  show "md' \<noteq> At_Fault" using ref_scan_fault [of n' rest n2 md2 more left2] t e(1) by auto
  have stop: "rest = [] \<and> more = []" if "md' = At_End"
  proof -
    have "n' = 0" using ref_scan_skipping [OF scan] that by fastforce
    with t that e(3) show ?thesis by simp
  qed
  have nil: "md' = At_End \<and> more = []" if "rest = []"
    using t that e(1) by simp
  have rest: "us @ vs = ys \<longleftrightarrow> rest = []" by (simp add: ys)
  show "md' = At_End \<longleftrightarrow> us @ vs = ys" unfolding rest using stop nil by blast
  show "us @ vs = ys \<Longrightarrow> zs @ new = xs" unfolding rest using nil e(2) by simp
qed

lemma ref_inflates: "zlib_inflates (ref_zlib os) ref_in ref_dec"
  unfolding zlib_inflates_def ref_zlib_sel
proof (intro conjI allI impI, goal_cases)
  case (1 wb L0 st L)
  then show ?case using ref_init_state by fastforce
next
  case (2 wb st m L r st' m' L' b hs ys xs)
  obtain skip md pend where b: "b = Ref_Dec skip md pend"
    and before: "ref_scan (ref_header_len wb) At_Tag (h_taken hs) = (skip, md, h_given hs @ pend, [])"
    using 2(2,3) by (cases b) auto
  obtain skip' md' new left where
    sc: "ref_scan skip md (bytes_at m (next_in st) (unat (avail_in st))) = (skip', md', new, left)"
    by (metis prod_cases4)
  note on = ref_scan_on [OF 2(6,8) before sc]
  note s = 2(1) [unfolded b]
  note f = ref_inflate_call [OF 2(9) s sc] and st = ref_inflate_state [OF 2(9) s sc]
  let ?k = "unat (avail_out st)"
  let ?hs = "move_on (if r = Z_STREAM_END then Ended else Running)
    (bytes_at m (next_in st) (taken st st')) (bytes_at m' (next_out st) (given st st')) hs"
  have tk: "h_taken ?hs = h_taken hs @ bytes_at m (next_in st) (unat (avail_in st))"
    using f(3) on(1) by simp
  have gv: "h_given ?hs @ drop ?k (pend @ new) = h_given hs @ pend @ new"
    "h_given ?hs = h_given hs @ take ?k (pend @ new)"
    by (simp_all only: move_on_sel f(5) append_assoc append_take_drop_id)
  have ri: "reads_in ys xs ?hs"
  proof -
    have "prefix (h_given ?hs) (h_given hs @ pend @ new)" using gv(1) by (metis prefixI)
    moreover have "prefix (h_given hs @ pend @ new) xs" using on(3) by simp
    ultimately show ?thesis using 2(8) unfolding reads_in_def tk by (blast intro: prefix_order.order_trans)
  qed
  have stop: "r = Z_STREAM_END \<longleftrightarrow> h_taken ?hs = ys \<and> h_given ?hs = xs"
  proof -
    have "r = Z_STREAM_END \<longleftrightarrow> md' = At_End \<and> length (pend @ new) \<le> ?k" by (rule f(7))
    also have "\<dots> \<longleftrightarrow> h_taken ?hs = ys \<and> length (pend @ new) \<le> ?k" by (simp only: on(5) tk)
    also have "\<dots> \<longleftrightarrow> h_taken ?hs = ys \<and> h_given ?hs = h_given hs @ pend @ new"
      by (simp only: gv(2) same_append_eq take_all_iff)
    also have "\<dots> \<longleftrightarrow> h_taken ?hs = ys \<and> h_given ?hs = xs"
      using on(6) tk by auto
    finally show ?thesis .
  qed
  have room: "r = Z_STREAM_END" if "h_taken ?hs = ys" "avail_out st' \<noteq> 0"
  proof -
    have "given st st' \<noteq> ?k" using given_all [OF _ f(1)] that(2) by blast
    then show ?thesis using f(4,7) on(5) that(1) tk by auto
  qed
  have "ref_in wb (Ref_Dec skip' md' (drop ?k (pend @ new))) ?hs"
    using on(2) gv(1) tk by simp
  moreover have "avail_in st' = 0"
    using taken_all [OF _ f(1)] f(3) on(1) by simp
  ultimately show ?case using st ri stop room f(6,7) on(4) by (simp only: Let_def) blast
qed


section \<open>The zstd engine\<close>

lemma ref_advance_between:
  assumes c: "ref_advance r a ob ib n ys s m L = (r', ob', ib', m', L')"
    and p: "ob_pos ob \<le> ob_size ob" "ib_pos ib \<le> ib_size ib"
    and n: "n \<le> unat (ib_size ib) - unat (ib_pos ib)"
    and k: "length ys \<le> unat (ob_size ob) - unat (ob_pos ob)"
  shows "ib_between m0 ib ib' = bytes_at m0 (ib_src ib + unat (ib_pos ib)) n"
    "ob_between m' ob ob' = ys" "L' a = Some s" "r' = r"
    "ib_pos ib' = ib_size ib' \<longleftrightarrow> n = unat (ib_size ib) - unat (ib_pos ib)"
    "ob_pos ob' = ob_size ob' \<longleftrightarrow> length ys = unat (ob_size ob) - unat (ob_pos ob)"
proof -
  have e: "ob' = ob\<lparr>ob_pos := ob_pos ob + of_nat (length ys)\<rparr>"
    "ib' = ib\<lparr>ib_pos := ib_pos ib + of_nat n\<rparr>"
    "m' = write_bytes m (ob_dst ob + unat (ob_pos ob)) ys" "L' = L(a \<mapsto> s)" "r' = r"
    using c by (auto simp: ref_advance_def)
  have le: "unat (ob_pos ob) \<le> unat (ob_size ob)" "unat (ib_pos ib) \<le> unat (ib_size ib)"
    using p by (simp_all add: word_le_nat_alt)
  have lt: "unat (ob_size ob) < 2 ^ 64" "unat (ib_size ib) < 2 ^ 64"
    by (rule unat_u64_less)+
  have u: "unat (ob_pos ob + of_nat (length ys)) = unat (ob_pos ob) + length ys"
    "unat (ib_pos ib + of_nat n) = unat (ib_pos ib) + n"
    using le lt n k by (simp_all add: unat_word_ariths unat_of_nat take_bit_nat_eq_self)
  show "ib_between m0 ib ib' = bytes_at m0 (ib_src ib + unat (ib_pos ib)) n"
    "ob_between m' ob ob' = ys" "L' a = Some s" "r' = r"
    using u by (simp_all add: ib_between_def ob_between_def e)
  show "ib_pos ib' = ib_size ib' \<longleftrightarrow> n = unat (ib_size ib) - unat (ib_pos ib)"
    "ob_pos ob' = ob_size ob' \<longleftrightarrow> length ys = unat (ob_size ob) - unat (ob_pos ob)"
    using u le n k unfolding e by (auto simp: word_unat_eq_iff)
qed


lemma ref_compresses: "zstd_compresses ref_zstd (ref_out 0 0) (ref_dec 0)"
  unfolding zstd_compresses_def ref_zstd_sel
proof (intro conjI allI impI, goal_cases)
  case (1 L0 a L v r L')
  then show ?case by (auto simp: ref_create_def split: option.splits)
next
  case (2 e a ob ib m L r ob' ib' m' L' b hs)
  from 2(3) have run: "h_phase hs \<noteq> Ended" by (auto simp: may_ask_def)
  then obtain pend fin where b: "b = Ref_Enc pend fin" using 2(2) by (cases b) auto
  let ?xs = "bytes_at m (ib_src ib + unat (ib_pos ib)) (unat (ib_size ib) - unat (ib_pos ib))"
  let ?k = "unat (ob_size ob) - unat (ob_pos ob)"
  let ?z = "if e = ZSTD_e_end \<and> \<not> fin then [0] else [] :: u8 list"
  let ?p = "pend @ tagged ?xs @ ?z"
  have c: "ref_advance (if drop ?k ?p = [] then 0 else 1) a ob ib (length ?xs) (take ?k ?p)
      (Ref_Enc (drop ?k ?p) (e = ZSTD_e_end \<and> drop ?k ?p \<noteq> [])) m L = (r, ob', ib', m', L')"
    using 2(7) unfolding ref_compress_stream_def 2(1) b ref_buffers_def
    by (simp only: Let_def option.case ref_state.case prod.case)
  have n: "length ?xs \<le> unat (ib_size ib) - unat (ib_pos ib)" "length (take ?k ?p) \<le> ?k" by simp_all
  note f = ref_advance_between [OF c 2(4,5) n]
  let ?hs = "move_on (if e = ZSTD_e_end then if r = 0 then Ended else Finishing else Running)
    (ib_between m ib ib') (ob_between m' ob ob') hs"
  have fin: "fin \<longleftrightarrow> h_phase hs = Finishing" and pend: "h_given hs @ pend =
      tagged (h_taken hs) @ (if fin then [0] else [])"
    using 2(2) run by (auto simp: b split: phase.splits)
  have asked: "fin \<Longrightarrow> e = ZSTD_e_end \<and> ?xs = []"
    using 2(3) by (auto simp: fin may_ask_def)
  have all: "h_given ?hs @ drop ?k ?p = tagged (h_taken ?hs) @ (if e = ZSTD_e_end then [0] else [])"
  proof -
    have "h_given ?hs @ drop ?k ?p = (h_given hs @ pend) @ tagged ?xs @ ?z"
      by (simp only: move_on_sel append_assoc f(2) append_take_drop_id)
    also have "\<dots> = tagged (h_taken hs @ ?xs) @ (if e = ZSTD_e_end then [0] else [])"
      unfolding pend using asked by (cases fin) simp_all
    finally show ?thesis by (simp add: f(1))
  qed
  have r: "r = 0 \<longleftrightarrow> drop ?k ?p = []" using f(4) by auto
  have "ref_out 0 0 (Ref_Enc (drop ?k ?p) (e = ZSTD_e_end \<and> drop ?k ?p \<noteq> [])) ?hs"
    using all r by (cases "e = ZSTD_e_end"; cases "r = 0") simp_all
  moreover have "h_phase ?hs = Ended \<Longrightarrow> ref_dec 0 (h_given ?hs) (h_taken ?hs)"
    using all r ref_dec_given [of 0 0 "h_taken ?hs"] by (auto split: if_splits)
  ultimately show ?case using f(3) by (simp only: Let_def) blast
qed

lemma ref_decompresses: "zstd_decompresses ref_zstd (ref_in 0) (ref_dec 0)"
  unfolding zstd_decompresses_def ref_zstd_sel
proof (intro conjI allI impI, goal_cases)
  case (1 L0 a L)
  then show ?case by (auto simp: ref_create_def split: option.splits)
next
  case (2 a ob ib m L r ob' ib' m' L' b hs ys xs)
  obtain skip md pend where b: "b = Ref_Dec skip md pend"
    and before: "ref_scan (ref_header_len 0) At_Tag (h_taken hs) = (skip, md, h_given hs @ pend, [])"
    using 2(2,3) by (cases b) auto
  let ?us = "bytes_at m (ib_src ib + unat (ib_pos ib)) (unat (ib_size ib) - unat (ib_pos ib))"
  let ?k = "unat (ob_size ob) - unat (ob_pos ob)"
  obtain skip' md' new left where sc: "ref_scan skip md ?us = (skip', md', new, left)"
    by (metis prod_cases4)
  note on = ref_scan_on [OF 2(7,9) before sc]
  let ?p = "pend @ new"
  let ?e = "md' = At_End \<and> drop ?k ?p = []"
  have c: "ref_advance (if ?e then 0 else 1) a ob ib (length ?us) (take ?k ?p)
      (Ref_Dec skip' (if ?e then At_Tag else md') (drop ?k ?p)) m L = (r, ob', ib', m', L')"
    using 2(10) unfolding ref_decompress_stream_def 2(1) b ref_buffers_def
    by (simp only: Let_def option.case ref_state.case prod.case sc on(1,4) if_False list.size minus_nat.diff_0)
  have n: "length ?us \<le> unat (ib_size ib) - unat (ib_pos ib)" "length (take ?k ?p) \<le> ?k" by simp_all
  note f = ref_advance_between [OF c 2(4,5) n]
  let ?hs = "move_on (if r = 0 then Ended else Running) (ib_between m ib ib') (ob_between m' ob ob') hs"
  have tk: "h_taken ?hs = h_taken hs @ ?us" using f(1) by simp
  have gv: "h_given ?hs @ drop ?k ?p = h_given hs @ ?p" "h_given ?hs = h_given hs @ take ?k ?p"
    by (simp_all only: move_on_sel f(2) append_assoc append_take_drop_id)
  have ri: "reads_in ys xs ?hs"
  proof -
    have "prefix (h_given ?hs) (h_given hs @ ?p)" using gv(1) by (metis prefixI)
    moreover have "prefix (h_given hs @ ?p) xs" using on(3) by simp
    ultimately show ?thesis using 2(9) unfolding reads_in_def tk by (blast intro: prefix_order.order_trans)
  qed
  have r: "r = 0 \<longleftrightarrow> ?e" using f(4) by auto
  have stop: "r = 0 \<longleftrightarrow> h_taken ?hs = ys \<and> h_given ?hs = xs"
  proof -
    have "r = 0 \<longleftrightarrow> ?e" by (rule r)
    also have "\<dots> \<longleftrightarrow> h_taken ?hs = ys \<and> drop ?k ?p = []" by (simp only: on(5) tk)
    also have "\<dots> \<longleftrightarrow> h_taken ?hs = ys \<and> h_given ?hs = h_given hs @ ?p"
      by (simp only: gv(2) same_append_eq take_all_iff drop_eq_Nil)
    also have "\<dots> \<longleftrightarrow> h_taken ?hs = ys \<and> h_given ?hs = xs" using on(6) tk by auto
    finally show ?thesis .
  qed
  have room: "r = 0" if "h_taken ?hs = ys" "ob_pos ob' \<noteq> ob_size ob'"
    using that on(5) tk f(6) unfolding r by (auto simp: min_def split: if_splits)
  have "ref_in 0 (Ref_Dec skip' (if ?e then At_Tag else md') (drop ?k ?p)) ?hs"
    using on(2) gv(1) tk r by (cases ?e) simp_all
  moreover have "\<not> ref_is_error r" using f(4) by (auto simp: ref_is_error_def)
  moreover have "ib_pos ib' = ib_size ib'" using f(5) by simp
  ultimately show ?case using f(3) ri stop room by (simp only: Let_def) blast
qed

lemma ref_idle: "zlib_idle (ref_zlib os)"
  unfolding zlib_idle_def ref_zlib_sel
proof (intro allI impI)
  fix st m L st' m' L'
  assume c: "ref_deflate st Z_FINISH m L = (Z_BUF_ERROR, st', m', L')"
  show "given st st' = 0"
  proof (cases "\<exists>pend fin. L (zstate st) = Some (Ref_Enc pend fin)")
    case True
    then obtain pend fin where "L (zstate st) = Some (Ref_Enc pend fin)" by blast
    from ref_deflate_call(6) [OF c this] show ?thesis by (simp split: if_splits)
  next
    case False
    then show ?thesis using c by (auto simp: ref_deflate_def split: option.splits ref_state.splits)
  qed
qed

section \<open>The environment of the examples\<close>

definition ref_codec :: "u8 \<Rightarrow> ref_state stream_codec" where
  "ref_codec os = \<lparr>z_out = ref_out os, z_in = ref_in, z_stream_of = ref_dec,
     s_out = ref_out 0 0, s_in = ref_in 0, s_frame_of = ref_dec 0\<rparr>"

lemma ref_codec_sel [simp]:
  "z_out (ref_codec os) = ref_out os" "z_in (ref_codec os) = ref_in"
  "z_stream_of (ref_codec os) = ref_dec" "s_out (ref_codec os) = ref_out 0 0"
  "s_in (ref_codec os) = ref_in 0" "s_frame_of (ref_codec os) = ref_dec 0"
  by (simp_all add: ref_codec_def)

lemma ref_streams [simp]:
  "compresses_streams (ref_env os nd) (ref_codec os)"
  "decompresses_streams (ref_env os nd) (ref_codec os)"
  by (simp_all add: compresses_streams_def decompresses_streams_def ref_deflates ref_inflates
      ref_compresses ref_decompresses ref_zlib_codes)

end
