(* ===== verification/Session_Properties.thy ===== *)
theory Session_Properties
  imports Stream_Sessions Variant_Types Reference_Streams Stream_Properties
begin

text \<open>
  The properties of whole sessions of the streaming classes: that they refine the abstract
  streams of \<open>Stream_History\<close>, and that what a compressor produced a decompressor restores.
\<close>

section \<open>Sessions for the examples\<close>

text \<open>
  A sender that pushes the one byte 6 at address 1000 and finishes, and a reader that gets the
  three bytes that came out. The world in between is \<open>demo_sent\<close>.
\<close>

definition demo_byte :: span where "demo_byte = \<lparr>span_data = 1000, span_size = 1\<rparr>"
definition demo_tail :: span where "demo_tail = \<lparr>span_data = 3000, span_size = 64\<rparr>"
definition demo_frame :: span where "demo_frame = \<lparr>span_data = 4000, span_size = 3\<rparr>"

definition demo_sent :: "(64, ref_state) stream_world" where
  "demo_sent = (demo_zstd (Ref_Enc [] False))\<lparr>mem := (\<lambda>a. of_nat (a mod 7))(2000 := 1, 2001 := 6)\<rparr>"

definition demo_got :: "(64, ref_state) stream_world" where
  "demo_got = (demo_dzstd (Ref_Dec 0 At_Tag []))\<lparr>mem := (\<lambda>a. of_nat (a mod 7))(4000 := 1, 4001 := 6, 4002 := 0)\<rparr>"

lemmas demo_call_simps = live_ctx_def ref_is_error_def adapt_def stream_reply_of_def Let_def ref_buffers_def
  ref_advance_def bytes_at_def upt_conv_Cons write_bytes_def fun_eq_iff

lemma demo_session_push:
  "compressor_push (ref_env 3 True) \<lparr>cp_impl = 1\<rparr> demo_byte demo_out (demo_zstd (Ref_Enc [] False))
    = Inr (Inr \<lparr>bytes_consumed = 1, bytes_produced = 2, sr_done = False\<rparr>, demo_sent)"
  by (simp add: demo_sent_def compressor_push_def compressor_handle_def demo_zstd_def
      zstd_squeezer_push_more_def ref_compress_stream_def demo_byte_def demo_call_simps)

lemma demo_session_finish:
  "compressor_finish (ref_env 3 True) \<lparr>cp_impl = 1\<rparr> demo_tail demo_sent
    = Inr (Inr \<lparr>bytes_consumed = 0, bytes_produced = 1, sr_done = True\<rparr>,
        demo_sent\<lparr>mem := (mem demo_sent)(3000 := 0)\<rparr>)"
  by (simp add: demo_sent_def compressor_finish_def compressor_handle_def demo_zstd_def
      zstd_squeezer_finish_def zstd_finish_loop.simps no_input_def ref_compress_stream_def demo_tail_def
      demo_call_simps)

lemma demo_session_new:
  "decompressor_new (ref_env 3 True) Fmt_Zstd demo_stream
    = Inr (\<lparr>dp_impl = 1\<rparr>, demo_dzstd (Ref_Dec 0 At_Tag []))"
  by (simp add: decompressor_new_def make_sweller_def into_variant_eqs zstd_sweller_new_def
      ref_create_def demo_dzstd_def demo_stream_def Let_def)

lemma demo_valid [simp]: "spans_apart demo_byte demo_out" "spans_valid demo_frame demo_out"
  by (simp_all add: spans_valid_def spans_apart_def spans_set_def apart_def demo_byte_def demo_frame_def)

lemma demo_heads [simp]:
  "head_of (mem (demo_zstd x)) demo_byte 1 = [6]" "head_of (mem demo_sent) demo_out 2 = [1, 6]"
  "head_of (mem demo_got) demo_frame 3 = [1, 6, 0]" "span_bytes (mem demo_got) demo_frame = [1, 6, 0]"
  by (simp_all add: head_of_def span_bytes_def demo_zstd_def demo_sent_def demo_got_def demo_byte_def
      demo_frame_def bytes_at_def upt_conv_Cons)

lemma demo_sending: "compressing (ref_env 3 True) Fmt_Zstd \<lparr>cp_impl = 1\<rparr> [6] [1, 6] demo_sent"
proof -
  have "compressing (ref_env 3 True) Fmt_Zstd \<lparr>cp_impl = 1\<rparr> [] [] (demo_zstd (Ref_Enc [] False))"
    by (rule built [OF _ _ demo_zstd_new]) simp_all
  from pushed [OF this _ demo_session_push] show ?thesis by simp
qed

lemma demo_reading:
  "decompressing (ref_env 3 True) Fmt_Zstd \<lparr>dp_impl = 1\<rparr> [1, 6, 0] [] [] False demo_got"
proof (rule delsewhere)
  show "decompressing (ref_env 3 True) Fmt_Zstd \<lparr>dp_impl = 1\<rparr> [1, 6, 0] [] [] False
      (demo_dzstd (Ref_Dec 0 At_Tag []))"
    by (rule dbuilt [OF _ _ demo_session_new]) simp_all
qed (simp add: dp_untouched_def demo_got_def demo_dzstd_def wf_world_def)

section \<open>Refinement\<close>

text \<open>
  C6: a \<open>compressor\<close> refines an abstract stream. What each call reports is exactly how the
  stream behind the object moves: a push takes the reported head of its input and gives the
  reported head of its output, a flush only gives, and a finish ends the stream, in a complete
  one, whenever it leaves room in its output span.
\<close>

theorem compressor_refines_stream:
  fixes w :: "(64, 'b, 'm) stream_world_scheme"
  assumes "env_ok E" "compresses_streams E K" "zstd_end_progress (zstd E)"
    and "wf_world w" "cp_history K f c w hs" "h_phase hs = Running"
  shows "(spans_apart i out \<longrightarrow> compressor_push E c i out w = Inr (Inr r, w') \<longrightarrow>
      cp_history K f c w' (move_on Running (head_of (mem w) i (bytes_consumed r))
        (head_of (mem w') out (bytes_produced r)) hs)) \<and>
    (compressor_flush E c out w = Inr (Inr r, w') \<longrightarrow>
      cp_history K f c w' (move_on Running [] (head_of (mem w') out (bytes_produced r)) hs)) \<and>
    (compressor_finish E c out w = Inr (Inr r, w') \<longrightarrow>
      (\<exists>ph. ph \<noteq> Running \<and> cp_history K f c w' (move_on ph [] (head_of (mem w') out (bytes_produced r)) hs) \<and>
        (ph = Ended \<longrightarrow> is_stream_of K f (h_given hs @ head_of (mem w') out (bytes_produced r)) (h_taken hs)) \<and>
        (bytes_produced r \<noteq> span_size out \<and> (f = Fmt_Zstd \<or> small out) \<longrightarrow> ph = Ended)))"
proof (intro conjI impI)
  assume "spans_apart i out" "compressor_push E c i out w = Inr (Inr r, w')"
  from compressor_push_history(1) [OF assms(1,2,4-6) this]
  show "cp_history K f c w' (move_on Running (head_of (mem w) i (bytes_consumed r))
      (head_of (mem w') out (bytes_produced r)) hs)"
    by (simp add: moved_def)
next
  assume "compressor_flush E c out w = Inr (Inr r, w')"
  from compressor_flush_history(1) [OF assms(1,2,4-6) this]
  show "cp_history K f c w' (move_on Running [] (head_of (mem w') out (bytes_produced r)) hs)"
    by (simp add: moved_def)
next
  assume "compressor_finish E c out w = Inr (Inr r, w')"
  from compressor_finish_history(1) [OF assms(1-5) _ this]
  show "\<exists>ph. ph \<noteq> Running \<and> cp_history K f c w' (move_on ph [] (head_of (mem w') out (bytes_produced r)) hs) \<and>
      (ph = Ended \<longrightarrow> is_stream_of K f (h_given hs @ head_of (mem w') out (bytes_produced r)) (h_taken hs)) \<and>
      (bytes_produced r \<noteq> span_size out \<and> (f = Fmt_Zstd \<or> small out) \<longrightarrow> ph = Ended)"
    unfolding finished_def using assms(6) by (auto simp: moved_def)
qed

lemma compressor_refines_stream_witness:
  "cp_history (ref_codec 3) Fmt_Zstd \<lparr>cp_impl = 1\<rparr> demo_sent
    \<lparr>h_phase = Running, h_taken = [6], h_given = [1, 6]\<rparr>"
proof -
  have "cp_history (ref_codec 3) Fmt_Zstd \<lparr>cp_impl = 1\<rparr> (demo_zstd (Ref_Enc [] False)) new_history"
    by (rule compressor_new_history [OF _ _ _ demo_zstd_new]) (simp_all add: stream_backend_def)
  from compressor_refines_stream [OF ref_env_ok [of 3 True] ref_streams(1) _ _ this, where i = demo_byte
      and out = demo_out and r = "\<lparr>bytes_consumed = 1, bytes_produced = 2, sr_done = False\<rparr>" and w' = demo_sent]
  show ?thesis using demo_session_push by (simp add: ref_zstd_progress move_on_def)
qed

section \<open>Round trip\<close>

text \<open>What a decompressor session that is fed a stream does, and what its next push does.\<close>

lemma session_reads:
  fixes w2 :: "(64, 'b, 'n) stream_world_scheme"
  assumes E: "env_ok E2" "decompresses_streams E2 K" "stream_backend E2 f"
    and s: "decompressing E2 f d zs rd res fin w2" and zs: "is_stream_of K f zs xs"
  shows "prefix rd zs \<and> prefix res xs \<and> (fin \<longrightarrow> rd = zs \<and> res = xs) \<and>
    (\<not> fin \<and> spans_valid i o2 \<and> prefix (rd @ span_bytes (mem w2) i) zs \<longrightarrow>
      (\<exists>q w3. decompressor_push E2 d i o2 w2 = Inr (Inr q, w3) \<and>
        (sr_done q \<longleftrightarrow> rd @ head_of (mem w2) i (bytes_consumed q) = zs \<and>
          res @ head_of (mem w3) o2 (bytes_produced q) = xs)))"
proof -
  have "\<exists>q w3. decompressor_push E2 d i o2 w2 = Inr (Inr q, w3) \<and>
      (sr_done q \<longleftrightarrow> rd @ head_of (mem w2) i (bytes_consumed q) = zs \<and>
        res @ head_of (mem w3) o2 (bytes_produced q) = xs)"
    if nf: "\<not> fin" and i: "spans_valid i o2" "prefix (rd @ span_bytes (mem w2) i) zs"
  proof -
    have "decompressing E2 f d zs rd res False w2" using s nf by simp
    then obtain q w3 where "decompressor_push E2 d i o2 w2 = Inr (Inr q, w3)"
      "reads_on K f d i o2 w2 \<lparr>h_phase = Running, h_taken = rd, h_given = res\<rparr> zs xs q w3"
      by (rule decompressing_push [OF _ E zs i])
    then show ?thesis by (auto simp: reads_on_def Let_def)
  qed
  with decompressing_history [OF s E zs] show ?thesis by blast
qed



section \<open>Types\<close>

text \<open>
  C18: variants are well typed. In every state a program can reach, every \<open>impl\<close> holds an
  alternative that its build has: a real handle exactly of a backend that is compiled in, a stub
  only of one that is not, and a zstd handle always for the zstd format. No hypothesis on the
  libraries is needed.
\<close>

theorem variants_match_build:
  assumes "reachable E s w"
  shows "(cimpls w p = Some v \<longrightarrow> (case v of
        Zlib_Squeezer h \<Rightarrow> has_zlib E | Zlib_Stub_Squeezer \<Rightarrow> \<not> has_zlib E
      | Zstd_Squeezer h \<Rightarrow> has_zstd E \<and> csq_fmt h = Fmt_Zstd | Zstd_Stub_Squeezer \<Rightarrow> \<not> has_zstd E)) \<and>
    (dimpls w p = Some u \<longrightarrow> (case u of
        Zlib_Sweller h \<Rightarrow> has_zlib E | Zlib_Stub_Sweller \<Rightarrow> \<not> has_zlib E
      | Zstd_Sweller h \<Rightarrow> has_zstd E \<and> dsw_fmt h = Fmt_Zstd | Zstd_Stub_Sweller \<Rightarrow> \<not> has_zstd E))"
  using reachable_typed [OF assms]
  by (auto simp: impls_typed_def sq_typed_def sw_typed_def dest: ranI)

lemma variants_match_build_witness:
  "case cimpls (demo_zlib (Ref_Enc [] False)) 1 of Some (Zlib_Squeezer h) \<Rightarrow> has_zlib (ref_env 3 True) | _ \<Rightarrow> False"
  using variants_match_build [OF demo_reach_1, of 1 "Zlib_Squeezer \<lparr>zsq_stream = 2\<rparr>"]
  by (simp add: demo_zlib_def)

end
