(* ===== verification/Backend_Properties.thy ===== *)
theory Backend_Properties
  imports One_Shot_Properties
begin

text \<open>
  Properties of the two backends on their own: what move assignment frees, how zlib's counters
  behave where \<open>uLong\<close> is 32 bits wide, and the names of errors, backends and formats.
\<close>

section \<open>Move assignment\<close>

text \<open>
  C36: the defaulted move assignment of \<open>zlib_squeezer\<close> leaks. The assigned-over handle's
  \<open>z_stream\<close> cell is freed, but \<open>deflateEnd\<close> is not called: the zlib state it pointed to stays
  allocated, and no stream refers to it any more.
\<close>

theorem zlib_assign_leaks:
  assumes "zstreams w (zsq_stream self) = Some st" "lib w (zstate st) = Some b" "0 \<notin> dom (zstreams w)"
    and "\<forall>p \<in> dom (zstreams w). zstate (the (zstreams w p)) = zstate st \<longrightarrow> p = zsq_stream self"
  shows "\<exists>hs w'. zlib_squeezer_assign False self other w = (hs, w') \<and>
    fst hs = \<lparr>zsq_stream = zsq_stream other\<rparr> \<and> zsq_stream (snd hs) = 0 \<and>
    zstreams w' (zsq_stream self) = None \<and> lib w' (zstate st) = Some b \<and>
    (\<forall>p \<in> dom (zstreams w'). zstate (the (zstreams w' p)) \<noteq> zstate st)"
proof -
  have "zsq_stream self \<noteq> 0" using assms(1,3) by auto
  with assms show ?thesis by (auto simp: zlib_squeezer_assign_def delete_zstream_def)
qed

definition two_streams :: "(64, ref_state) world" where
  "two_streams = \<lparr>mem = \<lambda>a. 0, zstreams = [3 \<mapsto> zero_stream\<lparr>zstate := 1\<rparr>, 4 \<mapsto> zero_stream\<lparr>zstate := 2\<rparr>],
     lib = [1 \<mapsto> Ref_Enc [] False, 2 \<mapsto> Ref_Enc [] False], brk = 5\<rparr>"

lemma zlib_assign_leaks_witness:
  "\<exists>hs w'. zlib_squeezer_assign False \<lparr>zsq_stream = 3\<rparr> \<lparr>zsq_stream = 4\<rparr> two_streams = (hs, w') \<and>
    zstreams w' 3 = None \<and> lib w' 1 = Some (Ref_Enc [] False)"
  using zlib_assign_leaks [of two_streams "\<lparr>zsq_stream = 3\<rparr>" "zero_stream\<lparr>zstate := 1\<rparr>" "Ref_Enc [] False"
      "\<lparr>zsq_stream = 4\<rparr>"]
  by (auto simp: two_streams_def)

text \<open>
  The hand-written move assignments of the zstd handles do not leak: the context assigned
  over is freed and nothing else is, the pointer and the stored fields move, the source is left
  null, and assigning a handle to itself changes nothing.
\<close>

theorem zstd_assign_frees:
  assumes "zstd_heap_contract (zstd E)" "cctx self \<noteq> 0" "lib w (cctx self) = Some b"
  shows "zstd_squeezer_assign E False self other w
      = Inr ((other, other\<lparr>cctx := 0\<rparr>), w\<lparr>lib := (lib w)(cctx self := None)\<rparr>) \<and>
    zstd_squeezer_assign E True self self w = Inr ((self, self), w)"
  using assms by (simp add: zstd_squeezer_assign_def live_ctx_def zstd_heap_contract_def zstd_free_ok_def)

lemma zstd_assign_frees_witness:
  "zstd_squeezer_assign (ref_env 3 True) False \<lparr>cctx = 1, csq_fmt = Fmt_Zstd, csq_level = 3\<rparr>
      \<lparr>cctx = 2, csq_fmt = Fmt_Zstd, csq_level = 9\<rparr> two_streams
    = Inr ((\<lparr>cctx = 2, csq_fmt = Fmt_Zstd, csq_level = 9\<rparr>, \<lparr>cctx = 0, csq_fmt = Fmt_Zstd, csq_level = 9\<rparr>),
        two_streams\<lparr>lib := (lib two_streams)(1 := None)\<rparr>)"
  using zstd_assign_frees [of "ref_env 3 True" "\<lparr>cctx = 1, csq_fmt = Fmt_Zstd, csq_level = 3\<rparr>" two_streams
      "Ref_Enc [] False" "\<lparr>cctx = 2, csq_fmt = Fmt_Zstd, csq_level = 9\<rparr>"]
  by (auto simp: ref_zstd_heap two_streams_def)

section \<open>A 32-bit uLong\<close>

text \<open>
  C37: where \<open>uLong\<close> is 32 bits wide (64-bit Windows), counts go wrong once a stream passes
  4 GiB. The totals wrap at 32 bits but are subtracted at 64, so a push across the wrap that
  took \<open>n\<close> bytes reports \<open>n - 2^32\<close> modulo \<open>2^64\<close>: more bytes than its span holds.
\<close>

theorem counts_wrap_on_32_bit_uLong:
  fixes E :: "(32, 'b) env" and w :: "(32, 'b, 'm) world_scheme"
  assumes "zlib_heap_contract (zlib E)" "wf_world w" "zstreams w (zsw_stream h) = Some st"
    and run: "zlib_sweller_push_more E h i out w = Inr (Inr p, w')" "zstreams w' (zsw_stream h) = Some st'"
    and wrap: "2 ^ 32 \<le> unat (total_in st) + taken (set_windows i out st) st'"
  shows "pg_in p = of_nat (taken (set_windows i out st) st') - 2 ^ 32"
proof -
  let ?n = "taken (set_windows i out st) st'"
  from run obtain c where c: "zcall (inflate (zlib E)) (zsw_stream h) Z_NO_FLUSH i out w = Inr c"
    "pg_in p = zc_consumed c" "w' = zc_world c"
    by (auto simp: zlib_sweller_push_more_def chain_Inr_iff split: if_splits)
  obtain s1 s2 m L where s: "zstreams w (zsw_stream h) = Some s1"
    "inflate (zlib E) (set_windows i out s1) Z_NO_FLUSH (mem w) (lib w) = (zc_ret c, s2, m, L)"
    "zc_consumed c = ucast (total_in s2) - ucast (total_in s1)"
    "zc_world c = w\<lparr>mem := m, lib := L, zstreams := (zstreams w)(zsw_stream h \<mapsto> s2)\<rparr>"
    using c(1) by (rule zcallE)
  have e: "s1 = st" "s2 = st'" using s(1,4) assms(3) run(2) c(3) by auto
  have "0 \<notin> dom (lib w)" using assms(2) by (simp add: wf_world_def)
  from zlib_step_okD(1) [OF zlib_contract_steps(2) [OF assms(1)] this s(2)]
  have io: "zio_ok (set_windows i out st) (mem w) st' m" by (simp add: e)
  then have t: "total_in st' = total_in st + of_nat ?n" by (simp add: zio_ok_def)
  have n: "?n < 2 ^ 32" using zio_okD(1) [OF io] unat_u32_less [of "to_uInt (span_size i)"] by simp
  then have "unat (of_nat ?n :: 32 word) = ?n" by (simp add: unat_of_nat take_bit_nat_eq_self)
  then have "unat (total_in st') = (unat (total_in st) + ?n) mod 2 ^ 32"
    by (simp add: t unat_word_ariths)
  also have "\<dots> = unat (total_in st) + ?n - 2 ^ 32"
    using wrap n unat_u32_less [of "total_in st"] by (simp add: mod_if)
  finally have "unat (total_in st') + 2 ^ 32 = unat (total_in st) + ?n" using wrap by simp
  then have "(of_nat (unat (total_in st') + 2 ^ 32) :: u64) = of_nat (unat (total_in st) + ?n)" by simp
  then have "(ucast (total_in st') :: u64) + 2 ^ 32 = ucast (total_in st) + of_nat ?n" by simp
  then have "(ucast (total_in st') :: u64) = ucast (total_in st) + of_nat ?n - 2 ^ 32"
    by (simp only: eq_diff_eq)
  moreover have "pg_in p = ucast (total_in st') - ucast (total_in st)" using c(2) s(3) e by simp
  ultimately show ?thesis by simp
qed

definition old_stream :: "(32, ref_state) world" where
  "old_stream = \<lparr>mem = \<lambda>a. 1, zstreams = [3 \<mapsto> zero_stream\<lparr>zstate := 1, total_in := 0xFFFFFFFF\<rparr>],
     lib = [1 \<mapsto> Ref_Dec 0 At_Tag []], brk = 4\<rparr>"

definition ref_env_32 :: "(32, ref_state) env" where
  "ref_env_32 = \<lparr>has_zlib = True, has_zstd = True, ndebug = True, zlib = ref_zlib 11, zstd = ref_zstd\<rparr>"

lemma counts_wrap_on_32_bit_uLong_witness:
  "\<exists>p w'. zlib_sweller_push_more ref_env_32 \<lparr>zsw_stream = 3\<rparr> \<lparr>span_data = 10, span_size = 2\<rparr> demo_out old_stream
    = Inr (Inr p, w') \<and> pg_in p = 2 - 2 ^ 32"
proof -
  let ?i = "\<lparr>span_data = 10, span_size = 2\<rparr>"
  let ?st = "zero_stream\<lparr>zstate := 1, total_in := 0xFFFFFFFF\<rparr>"
  obtain p w' st' where r: "zlib_sweller_push_more ref_env_32 \<lparr>zsw_stream = 3\<rparr> ?i demo_out old_stream = Inr (Inr p, w')"
    "zstreams w' 3 = Some st'" "taken (set_windows ?i demo_out ?st) st' = 2"
    by (simp add: zlib_sweller_push_more_def zcall_def old_stream_def ref_env_32_def ref_inflate_def set_windows_def
        to_uInt_def bytes_at_def upt_conv_Cons ref_finish_call_def taken_def)
  have "pg_in p = of_nat (taken (set_windows ?i demo_out ?st) st') - 2 ^ 32"
    by (rule counts_wrap_on_32_bit_uLong [of ref_env_32 old_stream "\<lparr>zsw_stream = 3\<rparr>"])
      (use r in \<open>simp_all add: ref_env_32_def ref_zlib_heap old_stream_def wf_world_def\<close>)
  with r show ?thesis by auto
qed

section \<open>Names\<close>

text \<open>No two error kinds, no two backends and no two formats share a name.\<close>

lemma names_identify:
  "(kind_name k = kind_name k' \<longleftrightarrow> k = k') \<and> (backend_id_name b = backend_id_name b' \<longleftrightarrow> b = b') \<and>
   (format_name f = format_name f' \<longleftrightarrow> f = f')"
proof (intro conjI)
  show "kind_name k = kind_name k' \<longleftrightarrow> k = k'" by (cases k; cases k'; simp)
  show "backend_id_name b = backend_id_name b' \<longleftrightarrow> b = b'" by (cases b; cases b'; simp)
  show "format_name f = format_name f' \<longleftrightarrow> f = f'" by (cases f; cases f'; simp)
qed

end
