(* ===== verification/Benchmarks.thy ===== *)
theory Benchmarks
  imports Streaming One_Shot
begin

text \<open>
  \<open>bench/squeeze_bench.cpp\<close>: the benchmarks as client programs of both layers. Where the
  allocator puts their vectors, how often the benchmark library runs the timed loop, and what
  the environment and the file system hold are parameters. \<open>r->x\<close> on a \<open>std::expected\<close> that holds an error is
  undefined.
\<close>

unbundle bit_operations_syntax

section \<open>Data and vectors\<close>

definition synthetic :: "u64 \<Rightarrow> u8 list" where
  "synthetic n = replicate (unat n) 0"

definition random_byte :: "nat \<Rightarrow> u8" where
  "random_byte i = ucast ((of_nat i * 2654435761 :: u64) AND 0xff)"

definition random_data :: "u64 \<Rightarrow> u8 list" where
  "random_data n = map random_byte [0..<unat n]"

record places =
  at_data :: addr
  at_out :: addr
  at_back :: addr

text \<open>A vector is built: its elements are written where the allocator put it.\<close>

definition put_vector :: "addr \<Rightarrow> u8 list \<Rightarrow> ('l::len, 'b, 'm) world_scheme \<Rightarrow> ('l, 'b, 'm) world_scheme" where
  "put_vector a xs w = w\<lparr>mem := write_bytes (mem w) a xs\<rparr>"

definition zeroes :: "u64 \<Rightarrow> u8 list" where
  "zeroes n = replicate (unat n) 0"

definition deref :: "error + 'a \<Rightarrow> 'a run" where
  "deref r = (case r of Inl e \<Rightarrow> Inl Undefined_Behaviour | Inr x \<Rightarrow> Inr x)"

section \<open>The timed loop\<close>

text \<open>\<open>for (auto _ : state)\<close>, \<open>k\<close> times; an exception leaves the benchmark.\<close>

fun timed :: "nat \<Rightarrow> ('w \<Rightarrow> ((exn + unit) \<times> 'w) run) \<Rightarrow> 'w \<Rightarrow> ((exn + unit) \<times> 'w) run" where
  "timed 0 body w = Inr (Inr (), w)"
| "timed (Suc k) body w = chain (body w) (\<lambda>(r, w1). case r of
     Inl e \<Rightarrow> Inr (Inl e, w1)
   | Inr _ \<Rightarrow> timed k body w1)"

datatype report = Processed u64 | Skipped string

definition report_after ::
  "nat \<Rightarrow> u64 \<Rightarrow> (exn + unit) \<times> 'w \<Rightarrow> ((exn + report) \<times> 'w) run" where
  "report_after k n = (\<lambda>(r, w). Inr (map_sum id (\<lambda>_. Processed (of_nat k * n)) r, w))"

section \<open>One-shot benchmarks\<close>

definition squeeze_body ::
  "('l::len, 'b) env \<Rightarrow> format \<Rightarrow> zlib_level \<Rightarrow> span \<Rightarrow> span \<Rightarrow> ('l, 'b, 'm) world_scheme
    \<Rightarrow> ((exn + unit) \<times> ('l, 'b, 'm) world_scheme) run" where
  "squeeze_body E f lvl i out w = chain (squeeze E f lvl i out w) (\<lambda>(r, w'). Inr (Inr (), w'))"

text \<open>The body that the squeezing benchmarks share, given their data, format and level.\<close>

definition squeeze_bench ::
  "('l::len, 'b) env \<Rightarrow> places \<Rightarrow> format \<Rightarrow> zlib_level \<Rightarrow> u64 \<Rightarrow> u8 list \<Rightarrow> nat
    \<Rightarrow> ('l, 'b, 'm) world_scheme \<Rightarrow> ((exn + report) \<times> ('l, 'b, 'm) world_scheme) run" where
  "squeeze_bench E at f lvl n data k w =
     (let w1 = put_vector (at_data at) data w;
          cap = bound E f lvl n;
          w2 = put_vector (at_out at) (zeroes cap) w1
      in chain (timed k (squeeze_body E f lvl \<lparr>span_data = at_data at, span_size = n\<rparr>
                           \<lparr>span_data = at_out at, span_size = cap\<rparr>) w2)
           (report_after k n))"

definition BM_squeeze_zlib_default ::
  "('l::len, 'b) env \<Rightarrow> places \<Rightarrow> u64 \<Rightarrow> nat \<Rightarrow> ('l, 'b, 'm) world_scheme
    \<Rightarrow> ((exn + report) \<times> ('l, 'b, 'm) world_scheme) run" where
  "BM_squeeze_zlib_default E at n k w =
     squeeze_bench E at Fmt_Zlib zlib_default_level n (synthetic n) k w"

definition BM_squeeze_gzip_default ::
  "('l::len, 'b) env \<Rightarrow> places \<Rightarrow> u64 \<Rightarrow> nat \<Rightarrow> ('l, 'b, 'm) world_scheme
    \<Rightarrow> ((exn + report) \<times> ('l, 'b, 'm) world_scheme) run" where
  "BM_squeeze_gzip_default E at n k w =
     squeeze_bench E at Fmt_Gzip zlib_default_level n (synthetic n) k w"

definition BM_squeeze_zlib_best ::
  "('l::len, 'b) env \<Rightarrow> places \<Rightarrow> u64 \<Rightarrow> nat \<Rightarrow> ('l, 'b, 'm) world_scheme
    \<Rightarrow> ((exn + report) \<times> ('l, 'b, 'm) world_scheme) run" where
  "BM_squeeze_zlib_best E at n k w = squeeze_bench E at Fmt_Zlib zlib_best n (synthetic n) k w"

definition BM_squeeze_zlib_fastest ::
  "('l::len, 'b) env \<Rightarrow> places \<Rightarrow> u64 \<Rightarrow> nat \<Rightarrow> ('l, 'b, 'm) world_scheme
    \<Rightarrow> ((exn + report) \<times> ('l, 'b, 'm) world_scheme) run" where
  "BM_squeeze_zlib_fastest E at n k w = squeeze_bench E at Fmt_Zlib zlib_fastest n (synthetic n) k w"

definition BM_squeeze_zlib_random ::
  "('l::len, 'b) env \<Rightarrow> places \<Rightarrow> u64 \<Rightarrow> nat \<Rightarrow> ('l, 'b, 'm) world_scheme
    \<Rightarrow> ((exn + report) \<times> ('l, 'b, 'm) world_scheme) run" where
  "BM_squeeze_zlib_random E at n k w =
     squeeze_bench E at Fmt_Zlib zlib_default_level n (random_data n) k w"

text \<open>\<open>sr->bytes_written\<close> is read inside the timed loop, so not at all when it runs zero times.\<close>

definition swell_body ::
  "('l::len, 'b) env \<Rightarrow> places \<Rightarrow> u64 \<Rightarrow> one_shot_result \<Rightarrow> ('l, 'b, 'm) world_scheme
    \<Rightarrow> ((exn + unit) \<times> ('l, 'b, 'm) world_scheme) run" where
  "swell_body E at n sr w =
     chain (deref sr) (\<lambda>s.
     chain (swell E Fmt_Zlib \<lparr>span_data = at_out at, span_size = bytes_written s\<rparr>
              \<lparr>span_data = at_back at, span_size = n\<rparr> w)
       (\<lambda>(r, w'). Inr (Inr (), w')))"

definition BM_swell_zlib_default ::
  "('l::len, 'b) env \<Rightarrow> places \<Rightarrow> u64 \<Rightarrow> nat \<Rightarrow> ('l, 'b, 'm) world_scheme
    \<Rightarrow> ((exn + report) \<times> ('l, 'b, 'm) world_scheme) run" where
  "BM_swell_zlib_default E at n k w =
     (let w1 = put_vector (at_data at) (synthetic n) w;
          cap = bound E Fmt_Zlib zlib_default_level n;
          w2 = put_vector (at_out at) (zeroes cap) w1
      in chain (squeeze E Fmt_Zlib zlib_default_level \<lparr>span_data = at_data at, span_size = n\<rparr>
                  \<lparr>span_data = at_out at, span_size = cap\<rparr> w2) (\<lambda>(sr, w3).
         let w4 = put_vector (at_back at) (zeroes n) w3
         in chain (timed k (swell_body E at n sr) w4) (report_after k n)))"

section \<open>The streaming benchmark\<close>

text \<open>
  The two inner loops. The compressing one moves on by a whole chunk whatever was consumed; the
  other one need not end, so the value \<open>None\<close> stands for a loop that never does.
\<close>

partial_function (option) compress_loop ::
  "('l::len, 'b) env \<Rightarrow> places \<Rightarrow> u64 \<Rightarrow> u64 \<Rightarrow> compressor \<Rightarrow> u64 \<Rightarrow> u64 \<Rightarrow> ('l, 'b, 'm) stream_world_scheme
    \<Rightarrow> (u64 \<times> ('l, 'b, 'm) stream_world_scheme) run option" where
  "compress_loop E at n cap c off c_off w =
     (if off < n then
        case compressor_push E c
               \<lparr>span_data = at_data at + unat off, span_size = min 4096 (n - off)\<rparr>
               \<lparr>span_data = at_out at + unat c_off, span_size = cap - c_off\<rparr> w of
          Inl e \<Rightarrow> Some (Inl e)
        | Inr (Inl e, w1) \<Rightarrow> Some (Inl Undefined_Behaviour)
        | Inr (Inr r, w1) \<Rightarrow> compress_loop E at n cap c (off + 4096) (c_off + bytes_produced r) w1
      else Some (Inr (c_off, w)))"

partial_function (option) decompress_loop ::
  "('l::len, 'b) env \<Rightarrow> places \<Rightarrow> u64 \<Rightarrow> u64 \<Rightarrow> decompressor \<Rightarrow> u64 \<Rightarrow> u64 \<Rightarrow> ('l, 'b, 'm) stream_world_scheme
    \<Rightarrow> (u64 \<times> ('l, 'b, 'm) stream_world_scheme) run option" where
  "decompress_loop E at n c_off d d_off co w =
     (if co < c_off then
        case decompressor_push E d
               \<lparr>span_data = at_out at + unat co, span_size = min 4096 (c_off - co)\<rparr>
               \<lparr>span_data = at_back at + unat d_off, span_size = n - d_off\<rparr> w of
          Inl e \<Rightarrow> Some (Inl e)
        | Inr (Inl e, w1) \<Rightarrow> Some (Inl Undefined_Behaviour)
        | Inr (Inr r, w1) \<Rightarrow>
            if sr_done r then Some (Inr (d_off + bytes_produced r, w1))
            else decompress_loop E at n c_off d (d_off + bytes_produced r) (co + bytes_consumed r) w1
      else Some (Inr (d_off, w)))"

definition looped :: "'a run option \<Rightarrow> 'a run" where
  "looped r = (case r of None \<Rightarrow> Inl Never_Returns | Some x \<Rightarrow> x)"

text \<open>
  One round of the timed loop. The objects are destroyed at the end of the round, the last one
  first. \<open>streaming_round\<close> also gives the final values of \<open>c_off\<close> and \<open>d_off\<close>.
\<close>

definition streaming_round ::
  "('l::len, 'b) env \<Rightarrow> places \<Rightarrow> u64 \<Rightarrow> u64 \<Rightarrow> ('l, 'b, 'm) stream_world_scheme
    \<Rightarrow> ((exn + u64 \<times> u64) \<times> ('l, 'b, 'm) stream_world_scheme) run" where
  "streaming_round E at n cap w =
     chain (compressor_new E Fmt_Zlib zlib_default_level w) (\<lambda>(x, w1). case x of
       Inl e \<Rightarrow> Inr (Inl e, w1)
     | Inr c \<Rightarrow>
         chain (looped (compress_loop E at n cap c 0 0 w1)) (\<lambda>(c_off, w2).
         chain (compressor_finish E c \<lparr>span_data = at_out at + unat c_off, span_size = cap - c_off\<rparr> w2) (\<lambda>(y, w3).
         chain (deref y) (\<lambda>fin. let c_off = c_off + bytes_produced fin in
         chain (decompressor_new E Fmt_Zlib w3) (\<lambda>(d, w4).
         chain (looped (decompress_loop E at n c_off d 0 0 w4)) (\<lambda>(d_off, w5).
         chain (decompressor_delete E d w5) (\<lambda>w6.
         chain (compressor_delete E c w6) (\<lambda>w7. Inr (Inr (c_off, d_off), w7)))))))))"

definition BM_streaming_zlib ::
  "('l::len, 'b) env \<Rightarrow> places \<Rightarrow> u64 \<Rightarrow> nat \<Rightarrow> ('l, 'b, 'm) stream_world_scheme
    \<Rightarrow> ((exn + report) \<times> ('l, 'b, 'm) stream_world_scheme) run" where
  "BM_streaming_zlib E at n k w =
     (let w1 = put_vector (at_data at) (synthetic n) w;
          cap = bound E Fmt_Zlib zlib_default_level n;
          w2 = put_vector (at_out at) (zeroes cap) w1;
          w3 = put_vector (at_back at) (zeroes n) w2
      in chain (timed k (\<lambda>w. chain (streaming_round E at n cap w) (\<lambda>(r, w'). Inr (map_sum id (\<lambda>_. ()) r, w'))) w3)
           (report_after k n))"

section \<open>The corpus\<close>

text \<open>
  What the corpus helpers read of their surroundings: environment variables, the file system,
  and the directory that the build names. Paths are those of POSIX.
\<close>

record surroundings =
  getenv :: "string \<Rightarrow> string option"
  is_directory :: "string \<Rightarrow> bool"
  path_exists :: "string \<Rightarrow> bool"
  file_bytes :: "string \<Rightarrow> u8 list option"
  bench_pond_corpus_dir :: string

definition path_div :: "string \<Rightarrow> string \<Rightarrow> string" where
  "path_div dir name = (if dir = [] \<or> last dir = CHR ''/'' then dir @ name else dir @ ''/'' @ name)"

definition corpus_dir :: "surroundings \<Rightarrow> string" where
  "corpus_dir D = (case getenv D ''POLLIWOG_CORPUS_DIR'' of
     Some env \<Rightarrow> env | None \<Rightarrow> bench_pond_corpus_dir D)"

text \<open>
  A file that does not open has no size: \<open>tellg\<close> is -1, and a vector of that many elements
  cannot be made.
\<close>

definition load_file :: "surroundings \<Rightarrow> string \<Rightarrow> exn + u8 list" where
  "load_file D p = (case file_bytes D p of None \<Rightarrow> Inl Length_Error | Some xs \<Rightarrow> Inr xs)"

definition corpus_available :: "surroundings \<Rightarrow> bool" where
  "corpus_available D = (let dir = corpus_dir D in is_directory D dir \<and> path_exists D (path_div dir ''dickens''))"

section \<open>Corpus benchmarks\<close>

definition no_corpus :: report where
  "no_corpus = Skipped ''pond corpus not available''"

definition BM_corpus_squeeze_zlib ::
  "('l::len, 'b) env \<Rightarrow> places \<Rightarrow> surroundings \<Rightarrow> nat \<Rightarrow> ('l, 'b, 'm) world_scheme
    \<Rightarrow> ((exn + report) \<times> ('l, 'b, 'm) world_scheme) run" where
  "BM_corpus_squeeze_zlib E at D k w =
     (if \<not> corpus_available D then Inr (Inr no_corpus, w)
      else let name = ''dickens'' in
        case load_file D (path_div (corpus_dir D) name) of
          Inl e \<Rightarrow> Inr (Inl e, w)
        | Inr data \<Rightarrow> squeeze_bench E at Fmt_Zlib zlib_default_level (of_nat (length data)) data k w)"

definition BM_corpus_squeeze_gzip ::
  "('l::len, 'b) env \<Rightarrow> places \<Rightarrow> surroundings \<Rightarrow> nat \<Rightarrow> ('l, 'b, 'm) world_scheme
    \<Rightarrow> ((exn + report) \<times> ('l, 'b, 'm) world_scheme) run" where
  "BM_corpus_squeeze_gzip E at D k w =
     (if \<not> corpus_available D then Inr (Inr no_corpus, w)
      else case load_file D (path_div (corpus_dir D) ''dickens'') of
          Inl e \<Rightarrow> Inr (Inl e, w)
        | Inr data \<Rightarrow> squeeze_bench E at Fmt_Gzip zlib_default_level (of_nat (length data)) data k w)"

text \<open>Here both calls are inside the timed loop.\<close>

definition roundtrip_body ::
  "('l::len, 'b) env \<Rightarrow> places \<Rightarrow> u64 \<Rightarrow> u64 \<Rightarrow> ('l, 'b, 'm) world_scheme
    \<Rightarrow> ((exn + unit) \<times> ('l, 'b, 'm) world_scheme) run" where
  "roundtrip_body E at n cap w =
     chain (squeeze E Fmt_Zlib zlib_default_level \<lparr>span_data = at_data at, span_size = n\<rparr>
              \<lparr>span_data = at_out at, span_size = cap\<rparr> w) (\<lambda>(sr, w1).
     chain (deref sr) (\<lambda>s.
     chain (swell E Fmt_Zlib \<lparr>span_data = at_out at, span_size = bytes_written s\<rparr>
              \<lparr>span_data = at_back at, span_size = n\<rparr> w1)
       (\<lambda>(dr, w2). Inr (Inr (), w2))))"

definition BM_corpus_roundtrip_zlib ::
  "('l::len, 'b) env \<Rightarrow> places \<Rightarrow> surroundings \<Rightarrow> nat \<Rightarrow> ('l, 'b, 'm) world_scheme
    \<Rightarrow> ((exn + report) \<times> ('l, 'b, 'm) world_scheme) run" where
  "BM_corpus_roundtrip_zlib E at D k w =
     (if \<not> corpus_available D then Inr (Inr no_corpus, w)
      else case load_file D (path_div (corpus_dir D) ''dickens'') of
          Inl e \<Rightarrow> Inr (Inl e, w)
        | Inr data \<Rightarrow>
            let n = of_nat (length data);
                w1 = put_vector (at_data at) data w;
                cap = bound E Fmt_Zlib zlib_default_level n;
                w2 = put_vector (at_out at) (zeroes cap) w1;
                w3 = put_vector (at_back at) (zeroes n) w2
            in chain (timed k (roundtrip_body E at n cap) w3) (report_after k n))"

end
