(* ===== verification/Stream_Scopes.thy ===== *)
theory Stream_Scopes
  imports Stream_Sessions
begin

text \<open>
  Streaming objects as local variables: building one, using it and leaving its scope restores
  every heap; and the calls that cannot fail. Programs that hold objects in a block, as the
  benchmarks do, are proved with these lemmas.
\<close>

section \<open>Scopes\<close>

lemma same_heapI:
  fixes w w' :: "('l::len, 'b, 'm) stream_world_scheme"
  assumes "zstreams w' = zstreams w" "lib w' = lib w" "cimpls w' = cimpls w" "dimpls w' = dimpls w"
    "stream_world.more w' = stream_world.more w"
  shows "same_heap w w'"
  using assms by (cases w; cases w') (simp add: same_heap_def)

lemma more_impls:
  fixes w w' :: "('l::len, 'b, 'm) stream_world_scheme"
  assumes "world.more w' = world.more w"
  shows "cimpls w' = cimpls w" "dimpls w' = dimpls w" "stream_world.more w' = stream_world.more w"
  using assms by (cases w; cases w'; simp)+

text \<open>What the calls of one object did, as the frame of everything it owns.\<close>

definition cp_used ::
  "compressor \<Rightarrow> ('l::len, 'b, 'm) stream_world_scheme \<Rightarrow> ('l, 'b, 'm) stream_world_scheme \<Rightarrow> bool" where
  "cp_used c w w' \<longleftrightarrow> frame (cp_cells c w) (cp_objects c w) w w' \<and> wf_world w' \<and> cp_ready c w' \<and>
     cp_cells c w' = cp_cells c w \<and> cp_objects c w' = cp_objects c w"

definition dp_used ::
  "decompressor \<Rightarrow> ('l::len, 'b, 'm) stream_world_scheme \<Rightarrow> ('l, 'b, 'm) stream_world_scheme \<Rightarrow> bool" where
  "dp_used d w w' \<longleftrightarrow> frame (dp_cells d w) (dp_objects d w) w w' \<and> wf_world w' \<and> dp_ready d w' \<and>
     dp_cells d w' = dp_cells d w \<and> dp_objects d w' = dp_objects d w"

lemma frame_compose:
  "frame P S w w' \<Longrightarrow> frame P S w' w'' \<Longrightarrow> frame P S w w''"
  by (auto simp: frame_def)

lemma used_trans:
  "cp_used c w w' \<Longrightarrow> cp_used c w' w'' \<Longrightarrow> cp_used c w w''"
  "dp_used d w w' \<Longrightarrow> dp_used d w' w'' \<Longrightarrow> dp_used d w w''"
  unfolding cp_used_def dp_used_def by (auto intro: frame_compose)

lemma used_refl:
  "wf_world w \<Longrightarrow> cp_ready c w \<Longrightarrow> cp_used c w w" "wf_world w \<Longrightarrow> dp_ready d w \<Longrightarrow> dp_used d w w"
  by (simp_all add: cp_used_def dp_used_def frame_def)

text \<open>Code that restores the heap keeps every object usable.\<close>

lemma same_heap_used:
  fixes w w' :: "('l::len, 'b, 'm) stream_world_scheme"
  assumes "same_heap w w'" "wf_world w'" "brk w \<le> brk w'" "cp_ready c w"
  shows "cp_used c w w'"
proof -
  have h: "zstreams w' = zstreams w" "lib w' = lib w" "cp_get c w' = cp_get c w"
    using assms(1) gets_more [of w' w] by (simp_all add: same_heap_def)
  obtain v where v: "cp_get c w = Some v" "sq_ready v w"
    using assms(4) by (auto simp: cp_ready_def over_def split: option.splits)
  have "sq_ready v w' = sq_ready v w \<and> sq_cells v w' = sq_cells v w \<and> sq_objects v w' = sq_objects v w"
    using h(1,2) by (cases v) (simp_all add: zready_def ctx_ready_def zcells_def zobjects_def ctx_cells_def ctx_objects_def split: option.split)
  then show ?thesis
    using assms h v by (simp add: cp_used_def cp_ready_def cp_cells_def cp_objects_def over_def same_heap_def frame_def)
qed

text \<open>A fresh object that is used in its frame and freed leaves the heaps as they were.\<close>

lemma scope_restores:
  assumes "frame P S w0 wa" "\<forall>a \<in> P. zstreams w0 a = None" "\<forall>a \<in> S. lib w0 a = None"
    and "zstreams w1 = zstreams wa" "lib w1 = lib wa" "frame P S w1 w2" "frame P S w2 w'"
    and "\<forall>a \<in> P. zstreams w' a = None" "\<forall>a \<in> S. lib w' a = None"
  shows "zstreams w' = zstreams w0" "lib w' = lib w0"
  using assms unfolding frame_def by (intro ext; metis)+

lemma compressor_scope:
  assumes E: "env_ok E" "wf_stream w" and new: "compressor_new E f lvl w = Inr (Inr c, w1)"
    and used: "cp_used c w1 w2"
  obtains w3 where "compressor_delete E c w2 = Inr w3" "same_heap w w3" "wf_world w3" "mem w3 = mem w2"
    "brk w \<le> brk w3"
proof -
  have wf: "wf_world w" "cimpls w (brk w) = None" using E(2) by (simp_all add: wf_stream_def)
  obtain v wa where mk: "make_squeezer E f lvl (w\<lparr>brk := Suc (brk w)\<rparr>) = Inr (v, wa)"
    and w1: "c = \<lparr>cp_impl = brk w\<rparr>" "w1 = wa\<lparr>cimpls := (cimpls wa)(brk w \<mapsto> v)\<rparr>"
    using new by (auto simp: compressor_new_def Let_def chain_Inr_iff split: if_splits)
  note fresh = squeezer_variant_life.create_fresh [OF E(1) wf_world_brk [OF wf(1)] mk]
  have foot: "sq_cells v w1 = sq_cells v wa" "sq_objects v w1 = sq_objects v wa"
    by (cases v; simp add: w1 zcells_def zobjects_def ctx_cells_def ctx_objects_def)+
  have v2: "cimpls w2 (brk w) = Some v" "cimpls w2 = cimpls w1" "dimpls w2 = dimpls w1"
    "stream_world.more w2 = stream_world.more w1"
    using used more_impls [of w2 w1] by (simp_all add: cp_used_def frame_def w1)
  then have c2: "cp_cells c w1 = sq_cells v wa" "cp_objects c w1 = sq_objects v wa"
    "sq_cells v w2 = sq_cells v wa" "sq_objects v w2 = sq_objects v wa" "sq_ready v w2"
    using used foot by (simp_all add: cp_used_def cp_cells_def cp_objects_def cp_ready_def over_def cp_get_def w1)
  have "wf_world w2" using used by (simp add: cp_used_def)
  from squeezer_variant_life.destroy_frees [OF E(1) this ready_owned(1) [OF c2(5)]] obtain w' where
    del: "squeezer_variant_delete E v w2 = Inr w'" and d: "wf_world w'" "frame (sq_cells v w2) (sq_objects v w2) w2 w'"
      "mem w' = mem w2" "\<forall>a \<in> sq_cells v w2. zstreams w' a = None" "\<forall>a \<in> sq_objects v w2. lib w' a = None"
    by blast
  let ?w3 = "w'\<lparr>cimpls := (cimpls w')(brk w := None)\<rparr>"
  have "zstreams w' = zstreams w \<and> lib w' = lib w"
    using scope_restores [of "sq_cells v wa" "sq_objects v wa" "w\<lparr>brk := Suc (brk w)\<rparr>" wa w1 w2 w'] fresh d(2,4,5) used c2
    by (simp add: cp_used_def w1)
  moreover have "cimpls w' = cimpls w2" "dimpls w' = dimpls w2" "stream_world.more w' = stream_world.more w2"
    using d(2) more_impls [of w' w2] by (simp_all add: frame_def)
  moreover have "cimpls wa = cimpls w" "dimpls wa = dimpls w" "stream_world.more wa = stream_world.more w"
    using fresh more_impls [of wa "w\<lparr>brk := Suc (brk w)\<rparr>"] by (simp_all add: frame_def)
  ultimately have "same_heap w ?w3"
    using v2 wf(2) by (intro same_heapI ext) (auto simp: w1)
  moreover have "wf_world ?w3" using d(1) by (simp add: wf_world_def)
  moreover have "compressor_delete E c w2 = Inr ?w3"
    using del v2(1) wf(1) by (simp add: compressor_delete_def compressor_impl_delete_def compressor_handle_def w1 wf_world_def)
  moreover have "brk w \<le> brk ?w3" using fresh d(2) used by (simp add: frame_def cp_used_def w1)
  ultimately show thesis using d(3) by (intro that [of ?w3]) simp_all
qed

lemma decompressor_scope:
  assumes E: "env_ok E" "wf_stream w" and new: "decompressor_new E f w = Inr (d, w1)"
    and used: "dp_used d w1 w2"
  obtains w3 where "decompressor_delete E d w2 = Inr w3" "same_heap w w3" "wf_world w3" "mem w3 = mem w2"
    "brk w \<le> brk w3"
proof -
  have wf: "wf_world w" "dimpls w (brk w) = None" using E(2) by (simp_all add: wf_stream_def)
  obtain v wa where mk: "make_sweller E f (w\<lparr>brk := Suc (brk w)\<rparr>) = Inr (v, wa)"
    and w1: "d = \<lparr>dp_impl = brk w\<rparr>" "w1 = wa\<lparr>dimpls := (dimpls wa)(brk w \<mapsto> v)\<rparr>"
    using new by (auto simp: decompressor_new_def Let_def chain_Inr_iff)
  note fresh = sweller_variant_life.create_fresh [OF E(1) wf_world_brk [OF wf(1)] mk]
  have foot: "sw_cells v w1 = sw_cells v wa" "sw_objects v w1 = sw_objects v wa"
    by (cases v; simp add: w1 zcells_def zobjects_def ctx_cells_def ctx_objects_def)+
  have v2: "dimpls w2 (brk w) = Some v" "cimpls w2 = cimpls w1" "dimpls w2 = dimpls w1"
    "stream_world.more w2 = stream_world.more w1"
    using used more_impls [of w2 w1] by (simp_all add: dp_used_def frame_def w1)
  then have c2: "dp_cells d w1 = sw_cells v wa" "dp_objects d w1 = sw_objects v wa"
    "sw_cells v w2 = sw_cells v wa" "sw_objects v w2 = sw_objects v wa" "sw_ready v w2"
    using used foot by (simp_all add: dp_used_def dp_cells_def dp_objects_def dp_ready_def over_def dp_get_def w1)
  have "wf_world w2" using used by (simp add: dp_used_def)
  from sweller_variant_life.destroy_frees [OF E(1) this ready_owned(2) [OF c2(5)]] obtain w' where
    del: "sweller_variant_delete E v w2 = Inr w'" and d: "wf_world w'" "frame (sw_cells v w2) (sw_objects v w2) w2 w'"
      "mem w' = mem w2" "\<forall>a \<in> sw_cells v w2. zstreams w' a = None" "\<forall>a \<in> sw_objects v w2. lib w' a = None"
    by blast
  let ?w3 = "w'\<lparr>dimpls := (dimpls w')(brk w := None)\<rparr>"
  have "zstreams w' = zstreams w \<and> lib w' = lib w"
    using scope_restores [of "sw_cells v wa" "sw_objects v wa" "w\<lparr>brk := Suc (brk w)\<rparr>" wa w1 w2 w'] fresh d(2,4,5) used c2
    by (simp add: dp_used_def w1)
  moreover have "cimpls w' = cimpls w2" "dimpls w' = dimpls w2" "stream_world.more w' = stream_world.more w2"
    using d(2) more_impls [of w' w2] by (simp_all add: frame_def)
  moreover have "cimpls wa = cimpls w" "dimpls wa = dimpls w" "stream_world.more wa = stream_world.more w"
    using fresh more_impls [of wa "w\<lparr>brk := Suc (brk w)\<rparr>"] by (simp_all add: frame_def)
  ultimately have "same_heap w ?w3"
    using v2 wf(2) by (intro same_heapI ext) (auto simp: w1)
  moreover have "wf_world ?w3" using d(1) by (simp add: wf_world_def)
  moreover have "decompressor_delete E d w2 = Inr ?w3"
    using del v2(1) wf(1) by (simp add: decompressor_delete_def decompressor_impl_delete_def decompressor_handle_def w1 wf_world_def)
  moreover have "brk w \<le> brk ?w3" using fresh d(2) used by (simp add: frame_def dp_used_def w1)
  ultimately show thesis using d(3) by (intro that [of ?w3]) simp_all
qed

section \<open>Calls that cannot fail\<close>

text \<open>
  On a zlib stream with valid spans below 4 GiB a push gives a value, and it stops only when its
  input is used up or its output is full.
\<close>

lemma deflate_stops:
  fixes w :: "(64, 'b, 'm) world_scheme"
  assumes lawful: "zlib_heap_contract Z" and codes: "zlib_code_contract Z" and w: "wf_world w"
    and call: "zcall (deflate Z) p fl i out w = Inr c" "zc_ret c = Z_OK \<or> zc_ret c = Z_BUF_ERROR"
    and small: "small i" "small out"
  shows "zc_consumed c = span_size i \<or> zc_produced c = span_size out"
proof -
  obtain st st' m L where c: "deflate Z (set_windows i out st) fl (mem w) (lib w) = (zc_ret c, st', m, L)"
    and n: "taken (set_windows i out st) st' = unat (zc_consumed c)" "given (set_windows i out st) st' = unat (zc_produced c)"
    using zlib_contract_steps(1) [OF lawful] w(1) call(1) by (rule zcall_moves)
  have "avail_in st' = 0 \<or> avail_out st' = 0" using codes c call(2) unfolding zlib_code_contract_def by blast
  with n small show ?thesis
    by (auto simp: taken_def given_def small_def unat_to_uInt_small word_unat_eq_iff)
qed

lemma zlib_variant:
  assumes "cp_history K f c w hs" "f \<noteq> Fmt_Zstd"
  obtains h where "cimpls w (cp_impl c) = Some (Zlib_Squeezer h)" "zready (zsq_stream h) w"
    "stream_history (z_out K) (window_bits_for f) (zsq_stream h) w hs"
proof -
  obtain v where v: "cimpls w (cp_impl c) = Some v" "sq_history K f v w hs"
    using assms(1) by (auto simp: cp_history_def)
  then show thesis using assms(2) that sq_history_ready [OF v(2)] by (cases v) auto
qed

lemma zlib_push_works:
  fixes w :: "(64, 'b, 'm) stream_world_scheme"
  assumes E: "env_ok E" "compresses_streams E K" and w: "wf_world w" "cp_history K f c w hs" "f \<noteq> Fmt_Zstd"
    and run: "h_phase hs = Running" and ap: "spans_valid i out" and small: "small i" "small out"
  obtains r w' where "compressor_push E c i out w = Inr (Inr r, w')"
    "bytes_consumed r = span_size i \<or> bytes_produced r = span_size out"
proof -
  obtain h where h: "cimpls w (cp_impl c) = Some (Zlib_Squeezer h)" "zready (zsq_stream h) w"
    "stream_history (z_out K) (window_bits_for f) (zsq_stream h) w hs"
    using w(2,3) by (rule zlib_variant)
  obtain z where z: "zcall (deflate (zlib E)) (zsq_stream h) Z_NO_FLUSH i out w = Inr z"
    using zcall_defined [OF h(2)] by blast
  note law = lawful_backends(1) [OF E(1)] and codes = compresses_streamsD(3) [OF E(2)]
  have "may_ask hs (Z_NO_FLUSH = Z_FINISH) (span_size i = 0)" using run by (simp add: may_ask_def)
  note ret = deflate_returns(1) [OF law compresses_streamsD(1) [OF E(2)] w(1) h(3) this ap z]
  have "zc_ret z \<noteq> Z_STREAM_END"
  proof -
    obtain st st' m L where "deflate (zlib E) (set_windows i out st) Z_NO_FLUSH (mem w) (lib w) = (zc_ret z, st', m, L)"
      using z by (rule zcallE)
    then show ?thesis using codes unfolding zlib_code_contract_def by blast
  qed
  with ret have ret': "zc_ret z = Z_OK \<or> zc_ret z = Z_BUF_ERROR" by blast
  let ?r = "\<lparr>bytes_consumed = zc_consumed z, bytes_produced = zc_produced z, sr_done = False\<rparr>"
  have go: "compressor_push E c i out w = Inr (Inr ?r, zc_world z)"
    using ret' by (elim disjE) (simp_all add: compressor_push_def compressor_handle_def h(1)
        zlib_squeezer_push_more_def z adapt_def stream_reply_of_def)
  show thesis by (rule that [OF go]) (use deflate_stops [OF law codes w(1) z ret' small] in simp)
qed

text \<open>
  A finish on such a stream gives a value when it has any room: zlib stops with \<open>Z_BUF_ERROR\<close> only
  when it can give nothing at all.
\<close>

lemma zlib_finish_works:
  fixes w :: "(64, 'b, 'm) stream_world_scheme"
  assumes E: "env_ok E" "compresses_streams E K" "zlib_idle (zlib E)"
    and w: "wf_world w" "cp_history K f c w hs" "f \<noteq> Fmt_Zstd"
    and run: "h_phase hs = Running" and ap: "span_data out \<noteq> 0" "span_size out \<noteq> 0" and small: "small out"
  obtains r w' where "compressor_finish E c out w = Inr (Inr r, w')"
proof -
  obtain h where h: "cimpls w (cp_impl c) = Some (Zlib_Squeezer h)" "zready (zsq_stream h) w"
    "stream_history (z_out K) (window_bits_for f) (zsq_stream h) w hs"
    using w(2,3) by (rule zlib_variant)
  obtain z where z: "zcall (deflate (zlib E)) (zsq_stream h) Z_FINISH empty_span out w = Inr z"
    using zcall_defined [OF h(2)] by blast
  note law = lawful_backends(1) [OF E(1)] and cs = compresses_streamsD(1) [OF E(2)]
  have ask: "may_ask hs (Z_FINISH = Z_FINISH) (span_size empty_span = 0)" using run by (simp add: may_ask_def)
  have v: "spans_valid empty_span out" using ap by (simp add: spans_valid_def) (simp add: spans_set_def empty_span_def)
  note ret = deflate_returns [OF law cs w(1) h(3) ask v z]
  have "zc_ret z \<noteq> Z_BUF_ERROR"
  proof
    assume buf: "zc_ret z = Z_BUF_ERROR"
    obtain st st' m L where c: "deflate (zlib E) (set_windows empty_span out st) Z_FINISH (mem w) (lib w) = (zc_ret z, st', m, L)"
      and n: "given (set_windows empty_span out st) st' = unat (zc_produced z)"
      using zlib_contract_steps(1) [OF law] w(1) z by (rule zcall_moves)
    have "avail_in (set_windows empty_span out st) = 0" by (simp add: empty_span_def to_uInt_def)
    then have "zc_produced z = 0"
      using E(3) [unfolded zlib_idle_def] c n unfolding buf by (metis unsigned_eq_0_iff)
    moreover have "zc_produced z = span_size out" using ret(2) buf small by simp
    ultimately show False using ap by simp
  qed
  then have "\<exists>r w'. compressor_finish E c out w = Inr (Inr r, w')"
    using ret(1) by (auto simp: compressor_finish_def compressor_handle_def h(1) zlib_squeezer_finish_def
        zlib_squeezer_push_def z adapt_def stream_reply_of_def)
  then show thesis using that by blast
qed

section \<open>Building an object\<close>

lemma compressor_built:
  assumes E: "env_ok E" "allocations_succeed E w" and w: "wf_stream w" and lvl: "f = Fmt_Zstd \<or> level_in_range lvl"
  obtains c w1 a where "compressor_new E f lvl w = Inr (Inr c, w1)" "wf_stream w1" "cp_used c w1 w1" "mem w1 = mem w"
    "cp_objects c w1 \<subseteq> {a}" "dom (lib w1) \<subseteq> insert a (dom (lib w))"
proof -
  let ?w0 = "w\<lparr>brk := Suc (brk w)\<rparr>"
  have wf0: "wf_world ?w0" "wf_stream ?w0" using w wf_world_brk by (auto simp: wf_stream_def)
  obtain v wa where mk: "make_squeezer E f lvl ?w0 = Inr (v, wa)" and r: "sq_ready v wa"
    using make_squeezer_ready [OF E(1) wf0(1) _ lvl] E(2) by auto
  note fresh = squeezer_variant_life.create_fresh [OF E(1) wf0(1) mk]
  let ?c = "\<lparr>cp_impl = brk w\<rparr>" and ?w1 = "wa\<lparr>cimpls := (cimpls wa)(brk w \<mapsto> v)\<rparr>"
  have "wf_stream wa" using wf_stream_frame [OF wf0(2)] fresh by blast
  moreover have "brk w < brk wa" "0 < brk w" using fresh w by (simp_all add: frame_def wf_stream_def wf_world_def)
  ultimately have wf1: "wf_stream ?w1" by (auto simp: wf_stream_def wf_world_def)
  have same: "sq_objects v ?w1 = sq_objects v wa" "sq_ready v ?w1 = sq_ready v wa"
    by (cases v; simp add: zready_def ctx_ready_def zobjects_def ctx_objects_def split: option.split)+
  have "\<exists>a. sq_objects v wa \<subseteq> {a}"
    by (cases v) (auto simp: zobjects_def ctx_objects_def split: option.split)
  then obtain a where a: "sq_objects v wa \<subseteq> {a}" by blast
  have "cp_used ?c ?w1 ?w1"
    by (rule used_refl) (use wf1 r same in \<open>simp_all add: wf_stream_def cp_ready_def over_def cp_get_def\<close>)
  moreover have "compressor_new E f lvl w = Inr (Inr ?c, ?w1)"
    using lvl mk by (auto simp: compressor_new_def level_in_range_def Let_def)
  moreover have "dom (lib ?w1) \<subseteq> insert a (dom (lib w))"
  proof
    fix x assume "x \<in> dom (lib ?w1)"
    moreover have "lib wa x = lib w x" if "x \<noteq> a" using fresh a that by (auto simp: frame_def)
    ultimately show "x \<in> insert a (dom (lib w))" by (cases "x = a") (simp_all add: domIff)
  qed
  ultimately show thesis using that [of ?c ?w1 a] wf1 fresh same a by (simp add: cp_objects_def over_def cp_get_def)
qed

lemma decompressor_built:
  assumes E: "env_ok E" "allocations_succeed E w" and w: "wf_stream w"
  obtains d w1 where "decompressor_new E f w = Inr (d, w1)" "wf_stream w1" "dp_used d w1 w1" "mem w1 = mem w"
proof -
  let ?w0 = "w\<lparr>brk := Suc (brk w)\<rparr>"
  have wf0: "wf_world ?w0" "wf_stream ?w0" using w wf_world_brk by (auto simp: wf_stream_def)
  obtain v wa where mk: "make_sweller E f ?w0 = Inr (v, wa)" and r: "sw_ready v wa"
    using make_sweller_ready [OF E(1) wf0(1)] E(2) by auto
  note fresh = sweller_variant_life.create_fresh [OF E(1) wf0(1) mk]
  let ?d = "\<lparr>dp_impl = brk w\<rparr>" and ?w1 = "wa\<lparr>dimpls := (dimpls wa)(brk w \<mapsto> v)\<rparr>"
  have "wf_stream wa" using wf_stream_frame [OF wf0(2)] fresh by blast
  moreover have "brk w < brk wa" "0 < brk w" using fresh w by (simp_all add: frame_def wf_stream_def wf_world_def)
  ultimately have wf1: "wf_stream ?w1" by (auto simp: wf_stream_def wf_world_def)
  have "sw_ready v ?w1 = sw_ready v wa"
    by (cases v; simp add: zready_def ctx_ready_def split: option.split)
  then have "dp_used ?d ?w1 ?w1"
    by (intro used_refl) (use wf1 r in \<open>simp_all add: wf_stream_def dp_ready_def over_def dp_get_def\<close>)
  moreover have "decompressor_new E f w = Inr (?d, ?w1)"
    using mk by (auto simp: decompressor_new_def Let_def)
  ultimately show thesis using that [of ?d ?w1] wf1 fresh by simp
qed

lemma used_wf_stream:
  "wf_stream w \<Longrightarrow> cp_used c w w' \<Longrightarrow> wf_stream w'" "wf_stream w \<Longrightarrow> dp_used d w w' \<Longrightarrow> wf_stream w'"
  using wf_stream_frame by (auto simp: cp_used_def dp_used_def)

lemma same_heap_wf_stream:
  fixes w w' :: "('l::len, 'b, 'm) stream_world_scheme"
  assumes "wf_stream w" "same_heap w w'" "wf_world w'" "brk w \<le> brk w'"
  shows "wf_stream w'"
proof -
  have "cimpls w' = cimpls w" "dimpls w' = dimpls w"
    using assms(2) more_impls [of w' w] by (simp_all add: same_heap_def)
  with assms show ?thesis by (auto simp: wf_stream_def)
qed

end
