(* ===== verification/Bench_Properties.thy ===== *)
theory Bench_Properties
  imports Benchmarks Stream_Scopes One_Shot_Properties Session_Properties
begin

text \<open>
  What the benchmarks of \<open>bench/squeeze_bench.cpp\<close> rely on: they dereference results without
  looking at the error, so they are defined only where no call fails. Under the promises of the
  libraries none does, the data comes back, and no round leaks an object.
\<close>

section \<open>Vectors and the timed loop\<close>

text \<open>The vectors of a benchmark: allocated, and apart from one another.\<close>

definition placed :: "places \<Rightarrow> u64 \<Rightarrow> u64 \<Rightarrow> bool" where
  "placed at n cap \<longleftrightarrow> at_data at \<noteq> 0 \<and> at_out at \<noteq> 0 \<and> at_back at \<noteq> 0 \<and>
     apart (at_data at) (unat n) (at_out at) (unat cap) \<and> apart (at_data at) (unat n) (at_back at) (unat n) \<and>
     apart (at_out at) (unat cap) (at_back at) (unat n)"

lemma put_vector_sel [simp]:
  "mem (put_vector a xs w) = write_bytes (mem w) a xs" "zstreams (put_vector a xs w) = zstreams w"
  "lib (put_vector a xs w) = lib w" "brk (put_vector a xs w) = brk w" "world.more (put_vector a xs w) = world.more w"
  by (simp_all add: put_vector_def)

lemma put_vector_keeps [simp]:
  "wf_world (put_vector a xs w) = wf_world w" "same_heap w (put_vector a xs w)"
  "same_heap (put_vector a xs w) w' = same_heap w w'"
  "allocations_succeed E (put_vector a xs w) = allocations_succeed E w"
  by (simp_all add: wf_world_def same_heap_def allocations_succeed_def)

lemma bytes_at_other: "apart b k a (length xs) \<Longrightarrow> bytes_at (write_bytes m a xs) b k = bytes_at m b k"
  by (rule same_outside_bytes [OF same_outside_write]) simp_all

lemma length_zeroes [simp]: "length (zeroes n) = unat n" "length (synthetic n) = unat n" "length (random_data n) = unat n"
  by (simp_all add: zeroes_def synthetic_def random_data_def)

lemma same_heap_trans: "same_heap w w' \<Longrightarrow> same_heap w' w'' \<Longrightarrow> same_heap w w''"
  by (simp add: same_heap_def)

text \<open>A loop whose body keeps \<open>I\<close> and gives \<open>J\<close> runs to its end, and gives \<open>J\<close> if it ran at all.\<close>

lemma timed_runs:
  assumes "I w" and body: "\<And>w. I w \<Longrightarrow> \<exists>w'. body w = Inr (Inr (), w') \<and> I w' \<and> J w'"
  shows "\<exists>w'. timed k body w = Inr (Inr (), w') \<and> I w' \<and> (k \<noteq> 0 \<longrightarrow> J w')"
  using assms(1)
proof (induction k arbitrary: w)
  case (Suc k)
  obtain w1 where w1: "body w = Inr (Inr (), w1)" "I w1" "J w1" using body [OF Suc.prems] by blast
  show ?case using Suc.IH [OF w1(2)] w1 by (cases k) auto
qed simp

section \<open>The fill of \<open>random_data\<close>\<close>

text \<open>
  The byte at \<open>i\<close> is the low byte of \<open>i * 0xb1\<close>: the data repeats every 256 bytes, so it is not
  the incompressible data that its comment describes.
\<close>

lemma random_byte_low: "random_byte i = of_nat i * 0xb1"
proof -
  have "(0xff :: u64) = mask 8" by (simp add: mask_eq_exp_minus_1)
  then have "(ucast (x AND 0xff) :: u8) = ucast x" for x :: u64
    by (simp add: bit_eq_iff bit_simps del: mask_numeral)
  then have "random_byte i = ucast (of_nat (i * 2654435761) :: u64)"
    by (simp add: random_byte_def)
  also have "\<dots> = (of_nat (i * 2654435761) :: u8)" by (transfer, simp)
  also have "\<dots> = of_nat i * 2654435761" by simp
  also have "(2654435761 :: u8) = 0xb1" by (transfer, simp)
  finally show ?thesis .
qed

lemma random_data_repeats: "random_byte (i + 256) = random_byte i"
  by (simp add: random_byte_low)

section \<open>One-shot benchmarks\<close>

text \<open>The libraries of a benchmark run: what a zlib-format round trip needs of zlib.\<close>

definition zlib_codec ::
  "('l::len, 'b) env \<Rightarrow> (int \<Rightarrow> int \<Rightarrow> u8 list \<Rightarrow> u8 list) \<Rightarrow> (int \<Rightarrow> u8 list \<Rightarrow> u8 list \<Rightarrow> bool) \<Rightarrow> bool" where
  "zlib_codec E enc dec \<longleftrightarrow> env_ok E \<and> has_zlib E \<and> zlib_encodes (zlib E) enc \<and>
     zlib_bound_covers (zlib E) \<and> zlib_decodes (zlib E) dec \<and> zlib_formats_agree enc dec"

text \<open>Between two calls: the heaps are as at the start, and the data is in place.\<close>

definition bench_state ::
  "('l::len, 'b, 'm) world_scheme \<Rightarrow> places \<Rightarrow> u64 \<Rightarrow> u8 list \<Rightarrow> ('l, 'b, 'm) world_scheme \<Rightarrow> bool" where
  "bench_state w0 at n data w \<longleftrightarrow> wf_world w \<and> same_heap w0 w \<and> bytes_at (mem w) (at_data at) (unat n) = data"

lemma bench_allocations: "bench_state w0 at n data w \<Longrightarrow> allocations_succeed E w0 \<Longrightarrow> allocations_succeed E w"
  using same_heap_allocations by (auto simp: bench_state_def)

lemma bench_squeeze:
  fixes E :: "(64, 'b) env" and w :: "(64, 'b, 'm) world_scheme"
  assumes codec: "zlib_codec E enc dec" and w: "bench_state w0 at n data w" "allocations_succeed E w0"
    and at: "placed at n cap" "cap = bound E Fmt_Zlib zlib_default_level n" "cap \<noteq> 0"
    and small: "unat n < 2 ^ 32" "unat cap < 2 ^ 32"
  obtains r w1 where
    "squeeze E Fmt_Zlib zlib_default_level \<lparr>span_data = at_data at, span_size = n\<rparr>
       \<lparr>span_data = at_out at, span_size = cap\<rparr> w = Inr (Inr r, w1)"
    "bench_state w0 at n data w1" "bytes_written r \<le> cap"
    "dec (window_bits_for Fmt_Zlib) (bytes_at (mem w1) (at_out at) (unat (bytes_written r))) data"
proof -
  let ?i = "\<lparr>span_data = at_data at, span_size = n\<rparr>" and ?o = "\<lparr>span_data = at_out at, span_size = cap\<rparr>"
  have E: "env_ok E" "zlib_encodes (zlib E) enc" "zlib_bound_covers (zlib E)"
    "zlib_formats_agree enc dec" "backend_present E Fmt_Zlib"
    using codec by (simp_all add: zlib_codec_def backend_present_def)
  have "refusal E Fmt_Zlib zlib_default_level (span_size ?i) (span_size ?o) = None"
    using E(5) at(2,3) by (simp add: refusal_None_iff)
  note ref = this
  have v: "spans_valid ?i ?o" using at(1) by (simp add: placed_def spans_defs)
  have wf: "wf_world w" using w(1) by (simp add: bench_state_def)
  obtain r w1 where sq: "squeeze E Fmt_Zlib zlib_default_level ?i ?o w = Inr (Inr r, w1)"
    "bytes_written r \<le> span_size ?o"
    "dec (window_bits_for Fmt_Zlib) (bytes_at (mem w1) (span_data ?o) (unat (bytes_written r))) (span_bytes (mem w) ?i)"
    by (rule squeeze_decodable [OF E(1) wf bench_allocations [OF w] E(2,3) no_deflate_bound _ E(4) _ ref _ _ v])
      (use small in \<open>simp_all add: container_fits_def\<close>)
  from squeeze_keeps [OF E(1) wf sq(1)] have "bench_state w0 at n data w1"
    using w(1) at(1) same_outside_bytes [of "mem w" "mem w1" "at_out at" "unat cap" "at_data at" "unat n"]
    by (auto simp: bench_state_def placed_def intro: same_heap_trans)
  with sq w(1) show thesis by (intro that) (simp_all add: bench_state_def span_bytes_def)
qed

lemma bench_swell:
  fixes E :: "(64, 'b) env" and w :: "(64, 'b, 'm) world_scheme"
  assumes codec: "zlib_codec E enc dec" and w: "bench_state w0 at n data w" "allocations_succeed E w0"
    and at: "placed at n cap" and small: "unat n < 2 ^ 32" "unat cap < 2 ^ 32" and k: "k \<le> cap"
    and d: "dec (window_bits_for Fmt_Zlib) (bytes_at (mem w) (at_out at) (unat k)) data"
  obtains r w1 where
    "swell E Fmt_Zlib \<lparr>span_data = at_out at, span_size = k\<rparr> \<lparr>span_data = at_back at, span_size = n\<rparr> w = Inr (Inr r, w1)"
    "bench_state w0 at n data w1" "bytes_at (mem w1) (at_back at) (unat n) = data"
    "bytes_at (mem w1) (at_out at) (unat k) = bytes_at (mem w) (at_out at) (unat k)"
proof -
  let ?i = "\<lparr>span_data = at_out at, span_size = k\<rparr>" and ?o = "\<lparr>span_data = at_back at, span_size = n\<rparr>"
  have E: "env_ok E" "zlib_decodes (zlib E) dec" "has_zlib E" using codec by (simp_all add: zlib_codec_def)
  have wf: "wf_world w" and n: "length data = unat n" using w(1) by (auto simp: bench_state_def)
  have kc: "unat k \<le> unat cap" using k by (simp add: word_le_nat_alt)
  have ap: "apart (at_out at) (unat k) (at_back at) (unat n)" "apart (at_data at) (unat n) (at_back at) (unat n)"
    using at apart_mono [OF _ kc order_refl] by (auto simp: placed_def)
  have v: "spans_valid ?i ?o" using ap at by (simp add: placed_def spans_defs)
  have d': "dec (window_bits_for Fmt_Zlib) (span_bytes (mem w) ?i) data" using d by (simp add: span_bytes_def)
  have z: "unat (span_size ?i) < 2 ^ 32" "unat (span_size ?o) < 2 ^ 32" "length data \<le> unat (span_size ?o)"
    using kc small n by simp_all
  obtain r w1 where sw: "swell E Fmt_Zlib ?i ?o w = Inr (Inr r, w1)"
    "bytes_at (mem w1) (span_data ?o) (length data) = data"
    by (rule swell_decodes [OF E(1) wf bench_allocations [OF w] E(2) _ E(3) d' z(3,1,2) v]) simp_all
  note fr = swell_keeps [OF E(1) wf sw(1)]
  have out: "bytes_at (mem w1) (at_out at) (unat k) = bytes_at (mem w) (at_out at) (unat k)"
    using fr ap(1) same_outside_bytes by auto
  have "bytes_at (mem w1) (at_data at) (unat n) = bytes_at (mem w) (at_data at) (unat n)"
    using fr ap(2) same_outside_bytes by auto
  with fr w(1) have "bench_state w0 at n data w1" by (auto simp: bench_state_def intro: same_heap_trans)
  from that [OF sw(1) this] sw(2) n out show thesis by simp
qed

lemma bench_start:
  assumes "placed at n cap" "wf_world w" "length data = unat n"
  shows "bench_state w at n data (put_vector (at_out at) (zeroes cap) (put_vector (at_data at) data w))"
    "bench_state w at n data (put_vector (at_back at) (zeroes n)
      (put_vector (at_out at) (zeroes cap) (put_vector (at_data at) data w)))"
proof -
  have "bytes_at (write_bytes (mem w) (at_data at) data) (at_data at) (unat n) = data"
    using bytes_at_write [of "mem w" "at_data at" data] assms(3) by simp
  with assms show "bench_state w at n data (put_vector (at_out at) (zeroes cap) (put_vector (at_data at) data w))"
    "bench_state w at n data (put_vector (at_back at) (zeroes n)
      (put_vector (at_out at) (zeroes cap) (put_vector (at_data at) data w)))"
    by (simp_all add: bench_state_def placed_def bytes_at_other)
      (simp_all add: wf_world_def same_heap_def)
qed

text \<open>The squeezing benchmarks ignore the result, so they need no promise about bytes.\<close>

lemma squeeze_bench_runs:
  fixes E :: "(64, 'b) env" and w :: "(64, 'b, 'm) world_scheme"
  assumes E: "env_ok E" "wf_world w" "allocations_succeed E w"
  shows "\<exists>w'. squeeze_bench E at f lvl n data k w = Inr (Inr (Processed (of_nat k * n)), w') \<and> same_heap w w'"
proof -
  let ?w = "put_vector (at_out at) (zeroes (bound E f lvl n)) (put_vector (at_data at) data w)"
  let ?body = "squeeze_body E f lvl \<lparr>span_data = at_data at, span_size = n\<rparr>
    \<lparr>span_data = at_out at, span_size = bound E f lvl n\<rparr>"
  have body: "\<exists>w'. ?body v = Inr (Inr (), w') \<and> (wf_world w' \<and> same_heap w w') \<and> True" if "wf_world v \<and> same_heap w v" for v
  proof -
    have "allocations_succeed E v" using that E(3) same_heap_allocations by blast
    with squeeze_total [OF E(1), of v f lvl "\<lparr>span_data = at_data at, span_size = n\<rparr>"
        "\<lparr>span_data = at_out at, span_size = bound E f lvl n\<rparr>"] that
    show ?thesis by (auto simp: squeeze_body_def intro: same_heap_trans)
  qed
  have "same_heap w ?w" by (simp add: same_heap_def)
  with timed_runs [where I = "\<lambda>v. wf_world v \<and> same_heap w v" and J = "\<lambda>_. True" and body = ?body
      and k = k and w = ?w, OF _ body] E(2)
  show ?thesis by (auto simp: squeeze_bench_def Let_def report_after_def)
qed

text \<open>
  C40: the corpus round-trip benchmark measures a round trip. Where zlib keeps its promises and
  the vectors are apart and below 4 GiB, it never reads the value of a failed \<open>squeeze\<close>, every
  timed run restores the file, the throughput counts every byte of every run, and no run leaks
  an object. Without the corpus it is skipped; with a file that is there but cannot be opened
  an exception leaves it.
\<close>

theorem corpus_benchmark_restores:
  fixes E :: "(64, 'b) env" and w :: "(64, 'b, 'm) world_scheme"
  assumes "zlib_codec E enc dec" "wf_world w" "allocations_succeed E w"
    and "placed at n (bound E Fmt_Zlib zlib_default_level n)" "bound E Fmt_Zlib zlib_default_level n \<noteq> 0"
    and "unat n < 2 ^ 32" "unat (bound E Fmt_Zlib zlib_default_level n) < 2 ^ 32" "length data = unat n"
  shows "(corpus_available D \<and> file_bytes D (path_div (corpus_dir D) ''dickens'') = Some data \<longrightarrow>
      (\<exists>w'. BM_corpus_roundtrip_zlib E at D k w = Inr (Inr (Processed (of_nat k * n)), w') \<and> same_heap w w' \<and>
        (k \<noteq> 0 \<longrightarrow> bytes_at (mem w') (at_back at) (unat n) = data))) \<and>
    (\<not> corpus_available D \<longrightarrow> BM_corpus_roundtrip_zlib E at D k w = Inr (Inr no_corpus, w)) \<and>
    (corpus_available D \<and> file_bytes D (path_div (corpus_dir D) ''dickens'') = None \<longrightarrow>
      BM_corpus_roundtrip_zlib E at D k w = Inr (Inl Length_Error, w))"
proof -
  let ?cap = "bound E Fmt_Zlib zlib_default_level n"
  let ?J = "\<lambda>v :: (64, 'b, 'm) world_scheme. bytes_at (mem v) (at_back at) (unat n) = data"
  have n: "of_nat (length data) = n" by (simp add: assms(8))
  have "\<exists>v'. roundtrip_body E at n ?cap v = Inr (Inr (), v') \<and> bench_state w at n data v' \<and> ?J v'"
    if "bench_state w at n data v" for v
  proof -
    from bench_squeeze [OF assms(1) that assms(3,4) refl assms(5-7)] obtain r v1 where
      sq: "squeeze E Fmt_Zlib zlib_default_level \<lparr>span_data = at_data at, span_size = n\<rparr>
        \<lparr>span_data = at_out at, span_size = ?cap\<rparr> v = Inr (Inr r, v1)" "bench_state w at n data v1"
        "bytes_written r \<le> ?cap"
        "dec (window_bits_for Fmt_Zlib) (bytes_at (mem v1) (at_out at) (unat (bytes_written r))) data"
      by blast
    from bench_swell [OF assms(1) sq(2) assms(3,4,6,7) sq(3,4)] obtain r' v' where
      "swell E Fmt_Zlib \<lparr>span_data = at_out at, span_size = bytes_written r\<rparr>
        \<lparr>span_data = at_back at, span_size = n\<rparr> v1 = Inr (Inr r', v')"
      "bench_state w at n data v'" "?J v'"
      by blast
    with sq(1) show ?thesis by (simp add: roundtrip_body_def deref_def)
  qed
  from timed_runs [where I = "bench_state w at n data" and J = ?J and k = k
      and body = "roundtrip_body E at n ?cap", OF bench_start(2) [OF assms(4,2,8)] this]
  obtain w' where "timed k (roundtrip_body E at n ?cap) (put_vector (at_back at) (zeroes n)
      (put_vector (at_out at) (zeroes ?cap) (put_vector (at_data at) data w))) = Inr (Inr (), w')"
    "same_heap w w'" "k \<noteq> 0 \<longrightarrow> ?J w'"
    by (auto simp: bench_state_def)
  then show ?thesis by (simp add: BM_corpus_roundtrip_zlib_def load_file_def n report_after_def)
qed

lemma demo_codec: "zlib_codec (ref_env 3 True) (ref_enc 3) ref_dec"
  by (simp add: zlib_codec_def ref_encodes ref_bound_covers ref_decodes ref_formats_agree)

definition demo_places :: places where
  "demo_places = \<lparr>at_data = 1000, at_out = 2000, at_back = 3000\<rparr>"

definition demo_disk :: surroundings where
  "demo_disk = \<lparr>getenv = Map.empty, is_directory = (\<lambda>p. p = ''pond''), path_exists = (\<lambda>p. p = ''pond/dickens''),
     file_bytes = [''pond/dickens'' \<mapsto> [7, 7, 9]], bench_pond_corpus_dir = ''pond''\<rparr>"

lemma corpus_benchmark_restores_witness:
  "\<exists>w'. BM_corpus_roundtrip_zlib (ref_env 3 True) demo_places demo_disk 2 demo_world
    = Inr (Inr (Processed 6), w') \<and> bytes_at (mem w') 3000 3 = [7, 7, 9]"
  using corpus_benchmark_restores [OF demo_codec demo_world_ok, of demo_places 3 "[7, 7, 9]" demo_disk 2]
  by (auto simp: placed_def demo_places_def apart_def demo_disk_def corpus_available_def corpus_dir_def path_div_def)

text \<open>
  The decompression benchmark never reads the value of a failed \<open>squeeze\<close>: under the same
  promises the one compression before the timed loop succeeds, and every run of the loop
  restores the synthetic data from it.
\<close>

theorem swell_benchmark_runs:
  fixes E :: "(64, 'b) env" and w :: "(64, 'b, 'm) world_scheme"
  assumes "zlib_codec E enc dec" "wf_world w" "allocations_succeed E w"
    and "placed at n (bound E Fmt_Zlib zlib_default_level n)" "bound E Fmt_Zlib zlib_default_level n \<noteq> 0"
    and "unat n < 2 ^ 32" "unat (bound E Fmt_Zlib zlib_default_level n) < 2 ^ 32"
  shows "\<exists>w'. BM_swell_zlib_default E at n k w = Inr (Inr (Processed (of_nat k * n)), w') \<and>
    same_heap w w' \<and> bytes_at (mem w') (at_back at) (unat n) = synthetic n"
proof -
  let ?cap = "bound E Fmt_Zlib zlib_default_level n"
  let ?w2 = "put_vector (at_out at) (zeroes ?cap) (put_vector (at_data at) (synthetic n) w)"
  from bench_squeeze [OF assms(1) bench_start(1) [OF assms(4,2)] assms(3,4) refl assms(5-7)] obtain r v1 where
    sq: "squeeze E Fmt_Zlib zlib_default_level \<lparr>span_data = at_data at, span_size = n\<rparr>
      \<lparr>span_data = at_out at, span_size = ?cap\<rparr> ?w2 = Inr (Inr r, v1)" "bench_state w at n (synthetic n) v1"
      "bytes_written r \<le> ?cap"
      "dec (window_bits_for Fmt_Zlib) (bytes_at (mem v1) (at_out at) (unat (bytes_written r))) (synthetic n)"
    by (metis length_zeroes(2))
  let ?k = "unat (bytes_written r)"
  let ?I = "\<lambda>v. bench_state w at n (synthetic n) v \<and> bytes_at (mem v) (at_back at) (unat n) = synthetic n \<and>
    dec (window_bits_for Fmt_Zlib) (bytes_at (mem v) (at_out at) ?k) (synthetic n)"
  have body: "\<exists>v'. swell_body E at n (Inr r) v = Inr (Inr (), v') \<and> ?I v' \<and> True" if v: "?I v" for v
  proof -
    from bench_swell [OF assms(1) conjunct1 [OF v] assms(3,4,6,7) sq(3) conjunct2 [OF conjunct2 [OF v]]] obtain r' v' where
      "swell E Fmt_Zlib \<lparr>span_data = at_out at, span_size = bytes_written r\<rparr>
        \<lparr>span_data = at_back at, span_size = n\<rparr> v = Inr (Inr r', v')" "bench_state w at n (synthetic n) v'"
      "bytes_at (mem v') (at_back at) (unat n) = synthetic n"
      "bytes_at (mem v') (at_out at) ?k = bytes_at (mem v) (at_out at) ?k"
      by blast
    with v show ?thesis by (simp add: swell_body_def deref_def)
  qed
  let ?w4 = "put_vector (at_back at) (zeroes n) v1"
  have k: "?k \<le> unat ?cap" using sq(3) by (simp add: word_le_nat_alt)
  have "apart (at_out at) ?k (at_back at) (unat n)"
    using assms(4) apart_mono [OF _ k order_refl] by (auto simp: placed_def)
  moreover have "bytes_at (write_bytes (mem v1) (at_back at) (zeroes n)) (at_back at) (unat n) = synthetic n"
    using bytes_at_write [of "mem v1" "at_back at" "zeroes n"] by (simp add: zeroes_def synthetic_def)
  ultimately have "?I ?w4"
    using sq(2,4) assms(4) by (simp add: bench_state_def bytes_at_other placed_def) (simp add: same_heap_def)
  from timed_runs [where I = ?I and J = "\<lambda>_. True" and k = k
      and body = "swell_body E at n (Inr r)", OF this body] obtain w' where
    "timed k (swell_body E at n (Inr r)) ?w4 = Inr (Inr (), w')" "?I w'" by blast
  with sq(1) show ?thesis by (simp add: BM_swell_zlib_default_def report_after_def bench_state_def)
qed

lemma swell_benchmark_runs_witness:
  "\<exists>w'. BM_swell_zlib_default (ref_env 3 True) demo_places 4 3 demo_world = Inr (Inr (Processed 12), w')"
  using swell_benchmark_runs [OF demo_codec demo_world_ok, of demo_places 4 3]
  by (auto simp: placed_def demo_places_def apart_def)

end
