(* ===== verification/Bench_Streaming.thy ===== *)
theory Bench_Streaming
  imports Bench_Properties
begin

text \<open>
  The streaming benchmark of \<open>bench/squeeze_bench.cpp\<close>: unless its output vector gets full, its two
  loops end, and what the second one restores is the data that the first one compressed. Both rest on how the streaming layer
  moves the abstract streams of \<open>Stream_History\<close>.
\<close>

section \<open>Compressing in chunks\<close>

text \<open>Between two pushes: \<open>xs\<close> has been taken, and the first \<open>k\<close> bytes of the output given.\<close>

definition packing ::
  "'b stream_codec \<Rightarrow> places \<Rightarrow> u64 \<Rightarrow> u64 \<Rightarrow> u8 list \<Rightarrow> compressor \<Rightarrow> (64, 'b, 'm) stream_world_scheme
    \<Rightarrow> u8 list \<Rightarrow> u64 \<Rightarrow> (64, 'b, 'm) stream_world_scheme \<Rightarrow> bool" where
  "packing K at n cap data c w1 xs k w \<longleftrightarrow> cp_used c w1 w \<and>
     cp_history K Fmt_Zlib c w \<lparr>h_phase = Running, h_taken = xs, h_given = bytes_at (mem w) (at_out at) (unat k)\<rparr> \<and>
     bytes_at (mem w) (at_data at) (unat n) = data \<and> k \<le> cap"

text \<open>The room that is left in a vector of which \<open>k\<close> bytes are used.\<close>

definition rest_of :: "addr \<Rightarrow> u64 \<Rightarrow> u64 \<Rightarrow> span" where
  "rest_of a k cap = \<lparr>span_data = a + unat k, span_size = cap - k\<rparr>"

lemma rest_of_sel [simp]: "span_data (rest_of a k cap) = a + unat k" "span_size (rest_of a k cap) = cap - k"
  by (simp_all add: rest_of_def)

lemma unat_rest: "k \<le> (cap :: u64) \<Longrightarrow> unat (cap - k) = unat cap - unat k"
  by (rule unat_sub)

lemma unat_grown:
  assumes "k \<le> cap" "p \<le> cap - (k :: u64)"
  shows "unat (k + p) = unat k + unat p" "k + p \<le> cap"
proof -
  have "unat k \<le> unat cap" "unat p \<le> unat cap - unat k" "unat cap < 2 ^ 64"
    using assms unat_sub [OF assms(1)] unat_u64_less [of cap] by (simp_all add: word_le_nat_alt)
  then have k: "unat k + unat p \<le> unat cap" "unat k + unat p < 2 ^ 64" by linarith+
  then show "unat (k + p) = unat k + unat p" by (simp add: unat_word_ariths)
  then show "k + p \<le> cap" using k by (simp add: word_le_nat_alt)
qed

text \<open>What a call that wrote \<open>p\<close> bytes into the rest of a vector leaves in it.\<close>

lemma grown_bytes:
  fixes k cap p :: u64
  assumes "k \<le> cap" "p \<le> cap - k" "same_outside m m' (a + unat k) (unat (cap - k))"
  shows "bytes_at m' a (unat (k + p)) = bytes_at m a (unat k) @ bytes_at m' (a + unat k) (unat p)"
proof -
  have "bytes_at m' a (unat k) = bytes_at m a (unat k)"
    by (rule same_outside_bytes [OF assms(3)]) (simp add: apart_def)
  then show ?thesis by (simp add: unat_grown [OF assms(1,2)] bytes_at_add)
qed

lemma rest_apart:
  fixes k cap :: u64
  assumes "apart b j a (unat cap)" "k \<le> cap"
  shows "apart b j (a + unat k) (unat (cap - k))"
  using assms unat_rest [OF assms(2)] by (auto simp: apart_def word_le_nat_alt)

text \<open>One chunk of the input.\<close>

definition chunk_at :: "addr \<Rightarrow> u64 \<Rightarrow> u64 \<Rightarrow> span" where
  "chunk_at a off n = \<lparr>span_data = a + unat off, span_size = min 4096 (n - off)\<rparr>"

lemma chunk_at_sel [simp]: "span_data (chunk_at a off n) = a + unat off" "span_size (chunk_at a off n) = min 4096 (n - off)"
  by (simp_all add: chunk_at_def)

lemma chunk_size:
  fixes off n :: u64
  assumes "off < n"
  shows "unat (min 4096 (n - off)) = min 4096 (unat n - unat off)" "min 4096 (n - off) \<noteq> 0"
    "min 4096 (n - off) \<le> n - off"
proof -
  have "off \<le> n" using assms by simp
  from unat_sub [OF this] show s: "unat (min 4096 (n - off)) = min 4096 (unat n - unat off)"
    by (simp add: min_def word_le_nat_alt)
  have "unat off < unat n" using assms by (simp add: word_less_nat_alt)
  with s have "unat (min 4096 (n - off)) \<noteq> 0" by simp
  then show "min 4096 (n - off) \<noteq> 0" by (metis unsigned_0)
  show "min 4096 (n - off) \<le> n - off" by simp
qed

lemma chunk_bytes:
  fixes off n j :: u64
  assumes "off < n" "j \<le> min 4096 (n - off)"
  shows "take (unat off) (bytes_at m a (unat n)) @ bytes_at m (a + unat off) (unat j)
    = take (unat off + unat j) (bytes_at m a (unat n))"
proof -
  have "unat j \<le> unat n - unat off" "unat off < unat n"
    using assms chunk_size(1) [OF assms(1)] by (simp_all add: word_le_nat_alt word_less_nat_alt)
  then have "unat off + unat j \<le> unat n" by linarith
  then show ?thesis by (simp add: take_bytes_at bytes_at_add)
qed

text \<open>What the libraries must promise for the streaming benchmark.\<close>

definition stream_setting :: "(64, 'b) env \<Rightarrow> 'b stream_codec \<Rightarrow> places \<Rightarrow> u64 \<Rightarrow> u64 \<Rightarrow> bool" where
  "stream_setting E K at n cap \<longleftrightarrow> env_ok E \<and> has_zlib E \<and> zstd_end_progress (zstd E) \<and>
     compresses_streams E K \<and> decompresses_streams E K \<and>
     zlib_idle (zlib E) \<and>
     (\<forall>xs. \<not> z_stream_of K (window_bits_for Fmt_Zlib) [] xs) \<and>
     placed at n cap \<and> unat n < 2 ^ 32 \<and> unat cap < 2 ^ 32"

lemma settingD:
  assumes "stream_setting E K at n cap"
  shows "env_ok E" "has_zlib E" "zstd_end_progress (zstd E)" "compresses_streams E K" "decompresses_streams E K"
    "zlib_idle (zlib E)" "\<not> z_stream_of K (window_bits_for Fmt_Zlib) [] xs"
    "placed at n cap" "unat n < 2 ^ 32" "unat cap < 2 ^ 32" "stream_backend E Fmt_Zlib"
  using assms by (simp_all add: stream_setting_def stream_backend_def)

lemma small_rest: "k \<le> cap \<Longrightarrow> unat cap < 2 ^ 32 \<Longrightarrow> small (rest_of a k cap)"
  using unat_rest [of k cap] by (simp add: small_def)

lemma small_chunk: "off < n \<Longrightarrow> small (chunk_at a off n)"
  using chunk_size(1) [of off n] by (simp add: small_def)

text \<open>
  The states in which the compressing loop comes to its test, and what it means that a round
  fills its output vector: \<open>c_off\<close> reaches the size of the vector, in the loop or with the finish.
  The loop moves on by a whole chunk whatever a push consumed, and \<open>compressor::finish\<close> says
  \<open>done\<close> whatever zlib answered, so this is the one case that the benchmark does not handle.
\<close>

inductive packs ::
  "(64, 'b) env \<Rightarrow> places \<Rightarrow> u64 \<Rightarrow> u64 \<Rightarrow> compressor \<Rightarrow> (64, 'b, 'm) stream_world_scheme
    \<Rightarrow> u64 \<Rightarrow> u64 \<Rightarrow> (64, 'b, 'm) stream_world_scheme \<Rightarrow> bool"
  for E at n cap c w1 where
  packs_start: "packs E at n cap c w1 0 0 w1"
| packs_push: "packs E at n cap c w1 off k w \<Longrightarrow> off < n \<Longrightarrow>
    compressor_push E c (chunk_at (at_data at) off n) (rest_of (at_out at) k cap) w = Inr (Inr r, w') \<Longrightarrow>
    packs E at n cap c w1 (off + 4096) (k + bytes_produced r) w'"

definition fills_output :: "(64, 'b) env \<Rightarrow> places \<Rightarrow> u64 \<Rightarrow> u64 \<Rightarrow> (64, 'b, 'm) stream_world_scheme \<Rightarrow> bool" where
  "fills_output E at n cap w \<longleftrightarrow> (\<exists>c w1 off k w2.
     compressor_new E Fmt_Zlib zlib_default_level w = Inr (Inr c, w1) \<and> packs E at n cap c w1 off k w2 \<and>
     (k = cap \<or> \<not> off < n \<and> (\<exists>r w3. compressor_finish E c (rest_of (at_out at) k cap) w2 = Inr (Inr r, w3) \<and>
        k + bytes_produced r = cap)))"

lemma packing_push:
  fixes w :: "(64, 'b, 'm) stream_world_scheme"
  assumes set: "stream_setting E K at n cap" and off: "off < n"
    and p: "packing K at n cap data c w1 (take (unat off) data) k w"
  obtains r w' where
    "compressor_push E c (chunk_at (at_data at) off n) (rest_of (at_out at) k cap) w = Inr (Inr r, w')"
    "cp_history K Fmt_Zlib c w' \<lparr>h_phase = Running, h_taken = take (unat off + unat (bytes_consumed r)) data,
      h_given = bytes_at (mem w') (at_out at) (unat (k + bytes_produced r))\<rparr>" "k + bytes_produced r \<le> cap"
    "k + bytes_produced r \<noteq> cap \<longrightarrow>
      packing K at n cap data c w1 (take (unat off + unat (min 4096 (n - off))) data) (k + bytes_produced r) w'"
proof -
  let ?i = "chunk_at (at_data at) off n" and ?o = "rest_of (at_out at) k cap"
  let ?hs = "\<lparr>h_phase = Running, h_taken = take (unat off) data, h_given = bytes_at (mem w) (at_out at) (unat k)\<rparr>"
  note E = settingD [OF set]
  have u: "cp_used c w1 w" and h: "cp_history K Fmt_Zlib c w ?hs" and d: "bytes_at (mem w) (at_data at) (unat n) = data"
    and k: "k \<le> cap" using p by (simp_all add: packing_def)
  have wf: "wf_world w" "cp_ready c w" using u by (simp_all add: cp_used_def)
  have ap: "apart (at_data at) (unat n) (at_out at + unat k) (unat (cap - k))"
    using rest_apart E(8) k by (simp add: placed_def)
  have inside: "unat off + unat (min 4096 (n - off)) \<le> unat n"
    using chunk_size(1) [OF off] off by (simp add: word_less_nat_alt)
  have v: "spans_valid ?i ?o"
    using ap inside E(8) by (auto simp: spans_defs placed_def apart_def)
  obtain r w' where call: "compressor_push E c ?i ?o w = Inr (Inr r, w')"
    and stop: "bytes_consumed r = span_size ?i \<or> bytes_produced r = span_size ?o"
    by (rule zlib_push_works [OF E(1,4) wf(1) h _ _ v small_chunk [OF off] small_rest [OF k E(10)]]) simp_all
  have n: "bytes_consumed r \<le> span_size ?i" "bytes_produced r \<le> span_size ?o"
    using compressor_call_cases(1) [OF call] visit_counts(1) [OF E(1) wf(1)] cp_ready_variant [OF wf(2)] by fastforce+
  note fr = compressor_push.op_frame [OF E(1) wf call]
    and out = compressor_push.op_writes [OF E(1) wf call, simplified]
  have d': "bytes_at (mem w') (at_data at) (unat n) = data"
    using same_outside_bytes [OF out ap] d by simp
  let ?xs = "take (unat off + unat (bytes_consumed r)) data" and ?k = "k + bytes_produced r"
  have h': "cp_history K Fmt_Zlib c w' \<lparr>h_phase = Running, h_taken = ?xs, h_given = bytes_at (mem w') (at_out at) (unat ?k)\<rparr>"
    using compressor_push_history(1) [OF E(1,4) wf(1) h _ _ call] v
      chunk_bytes [OF off, of "bytes_consumed r" "mem w" "at_data at"] n(1) d
      grown_bytes [OF k, of "bytes_produced r" "mem w" "mem w'" "at_out at"] n(2) out
    by (simp add: moved_history head_of_def spans_valid_def)
  have "cp_used c w w'" using fr by (simp add: cp_used_def)
  note u' = used_trans(1) [OF u this]
  have le: "?k \<le> cap" using unat_grown(2) [OF k] n(2) by simp
  show thesis
  proof (rule that [OF call h' le], rule impI)
    assume "?k \<noteq> cap"
    then have "bytes_produced r \<noteq> cap - k" by auto
    then have "bytes_consumed r = span_size ?i" using stop by simp
    then show "packing K at n cap data c w1 (take (unat off + unat (min 4096 (n - off))) data) ?k w'"
      using u' h' d' le by (simp add: packing_def)
  qed
qed

text \<open>Unless the vector gets full, the compressing loop ends with all of the data taken.\<close>

lemma compress_loop_runs:
  fixes w :: "(64, 'b, 'm) stream_world_scheme"
  assumes set: "stream_setting E K at n cap" and room: "\<And>off k w. packs E at n cap c w1 off k w \<Longrightarrow> k \<noteq> cap"
    and "packing K at n cap data c w1 (take (unat off) data) k w" "unat off < 2 ^ 33" "packs E at n cap c w1 off k w"
  shows "\<exists>off' k' w'. compress_loop E at n cap c off k w = Some (Inr (k', w')) \<and> packing K at n cap data c w1 data k' w' \<and>
    packs E at n cap c w1 off' k' w' \<and> \<not> off' < n"
  using assms(3-5)
proof (induction "unat n - unat off" arbitrary: off k w rule: less_induct)
  case less
  show ?case
  proof (cases "off < n")
    case True
    obtain r w' where push: "compressor_push E c (chunk_at (at_data at) off n) (rest_of (at_out at) k cap) w = Inr (Inr r, w')"
      and more: "k + bytes_produced r \<noteq> cap \<longrightarrow>
        packing K at n cap data c w1 (take (unat off + unat (min 4096 (n - off))) data) (k + bytes_produced r) w'"
      using packing_push [OF set True less.prems(1)] by metis
    note step = packs_push [OF less.prems(3) True push]
    have n: "unat n < 2 ^ 32" by (rule settingD(9) [OF set])
    have lt: "unat off < unat n" using True by (simp add: word_less_nat_alt)
    have off: "unat (off + 4096) = unat off + 4096"
      using lt n by (simp add: unat_word_ariths)
    have "length data = unat n" using less.prems(1) by (auto simp: packing_def)
    then have "take (unat off + unat (min 4096 (n - off))) data = take (unat (off + 4096)) data"
      using lt by (cases "unat n - unat off \<le> 4096") (simp_all add: chunk_size(1) [OF True] off)
    with more room [OF step]
    have "packing K at n cap data c w1 (take (unat (off + 4096)) data) (k + bytes_produced r) w'" by simp
    moreover have "unat n - unat (off + 4096) < unat n - unat off" "unat (off + 4096) < 2 ^ 33"
      using off lt n by simp_all
    ultimately have "\<exists>off' k' w2. compress_loop E at n cap c (off + 4096) (k + bytes_produced r) w' = Some (Inr (k', w2)) \<and>
        packing K at n cap data c w1 data k' w2 \<and> packs E at n cap c w1 off' k' w2 \<and> \<not> off' < n"
      using less.hyps step by blast
    moreover have "compress_loop E at n cap c off k w = compress_loop E at n cap c (off + 4096) (k + bytes_produced r) w'"
      using True push by (subst compress_loop.simps) (simp add: chunk_at_def rest_of_def)
    ultimately show ?thesis by simp
  next
    case False
    have "length data = unat n" using less.prems(1) by (auto simp: packing_def)
    then have "take (unat off) data = data" using False by (simp add: word_less_nat_alt)
    then show ?thesis using less.prems(1,3) False by (subst compress_loop.simps) auto
  qed
qed

text \<open>
  The finishing call then gives the rest of a complete stream, within the vector, if it leaves
  some of the vector free.
\<close>

lemma packing_finish:
  fixes w :: "(64, 'b, 'm) stream_world_scheme"
  assumes set: "stream_setting E K at n cap" and p: "packing K at n cap data c w1 data k w"
    and room: "k \<noteq> cap" "\<And>r w'. compressor_finish E c (rest_of (at_out at) k cap) w = Inr (Inr r, w') \<Longrightarrow> k + bytes_produced r \<noteq> cap"
  obtains r w' where
    "compressor_finish E c (rest_of (at_out at) k cap) w = Inr (Inr r, w')" "cp_used c w1 w'"
    "k + bytes_produced r \<le> cap" "bytes_at (mem w') (at_data at) (unat n) = data"
    "z_stream_of K (window_bits_for Fmt_Zlib) (bytes_at (mem w') (at_out at) (unat (k + bytes_produced r))) data"
proof -
  let ?o = "rest_of (at_out at) k cap"
  let ?hs = "\<lparr>h_phase = Running, h_taken = data, h_given = bytes_at (mem w) (at_out at) (unat k)\<rparr>"
  note E = settingD [OF set]
  have u: "cp_used c w1 w" and h: "cp_history K Fmt_Zlib c w ?hs" and d: "bytes_at (mem w) (at_data at) (unat n) = data"
    and k: "k \<le> cap" using p by (simp_all add: packing_def)
  have wf: "wf_world w" "cp_ready c w" using u by (simp_all add: cp_used_def)
  have o: "span_data ?o \<noteq> 0" "span_size ?o \<noteq> 0" "small ?o"
    using E(8) room(1) small_rest [OF k E(10)] by (auto simp: placed_def)
  obtain r w' where call: "compressor_finish E c ?o w = Inr (Inr r, w')"
    by (rule zlib_finish_works [OF E(1,4,6) wf(1) h _ _ o]) simp_all
  note fr = compressor_finish.op_frame [OF conjI [OF E(1,3)] wf call]
    and out = compressor_finish.op_writes [OF conjI [OF E(1,3)] wf call, simplified]
  have n: "bytes_produced r \<le> cap - k"
    using compressor_call_cases(3) [OF call] visit_counts(3) [OF E(1) wf(1) _ E(3)] cp_ready_variant [OF wf(2)] by fastforce
  have g: "bytes_at (mem w') (at_out at) (unat (k + bytes_produced r))
      = bytes_at (mem w) (at_out at) (unat k) @ head_of (mem w') ?o (bytes_produced r)"
    using grown_bytes [OF k n out] by (simp add: head_of_def)
  have "h_phase ?hs \<noteq> Ended" by simp
  from compressor_finish_history(1) [OF E(1,4,3) wf(1) h this call] obtain ph where
    ph: "cp_history K Fmt_Zlib c w' (moved ph (mem w) empty_span 0 (mem w') ?o (bytes_produced r) ?hs)"
      "ph = Ended \<longrightarrow> is_stream_of K Fmt_Zlib (h_given ?hs @ head_of (mem w') ?o (bytes_produced r)) (h_taken ?hs)"
      "bytes_produced r \<noteq> span_size ?o \<longrightarrow> small ?o \<longrightarrow> ph = Ended"
    unfolding finished_def by blast
  have "bytes_produced r \<noteq> cap - k" using room(2) [OF call] by auto
  then have "ph = Ended" using ph(3) o(3) by simp
  with ph(2) g have st: "z_stream_of K (window_bits_for Fmt_Zlib) (bytes_at (mem w') (at_out at) (unat (k + bytes_produced r))) data"
    by (simp add: is_stream_of_def)
  have "apart (at_data at) (unat n) (at_out at + unat k) (unat (cap - k))"
    using rest_apart E(8) k by (simp add: placed_def)
  from same_outside_bytes [OF out this] have d': "bytes_at (mem w') (at_data at) (unat n) = data" using d by simp
  have "cp_used c w w'" using fr by (simp add: cp_used_def)
  from that [OF call used_trans(1) [OF u this] unat_grown(2) [OF k n] d' st] show thesis .
qed

section \<open>Decompressing in chunks\<close>

text \<open>
  Between two pushes: the first \<open>i\<close> bytes of the stream have been read and the first \<open>k\<close> bytes
  of the data restored, the stream lies in the first \<open>len\<close> bytes of the output vector.
\<close>

definition unpacking ::
  "'b stream_codec \<Rightarrow> places \<Rightarrow> u64 \<Rightarrow> u64 \<Rightarrow> u8 list \<Rightarrow> decompressor \<Rightarrow> (64, 'b, 'm) stream_world_scheme
    \<Rightarrow> u64 \<Rightarrow> u64 \<Rightarrow> (64, 'b, 'm) stream_world_scheme \<Rightarrow> bool" where
  "unpacking K at n len data d w1 i k w \<longleftrightarrow> dp_used d w1 w \<and> k \<le> n \<and>
     dp_history K Fmt_Zlib d w \<lparr>h_phase = Running,
       h_taken = take (unat i) (bytes_at (mem w) (at_out at) (unat len)), h_given = bytes_at (mem w) (at_back at) (unat k)\<rparr> \<and>
     bytes_at (mem w) (at_data at) (unat n) = data \<and> prefix (bytes_at (mem w) (at_back at) (unat k)) data \<and>
     z_stream_of K (window_bits_for Fmt_Zlib) (bytes_at (mem w) (at_out at) (unat len)) data"

definition unpacked ::
  "places \<Rightarrow> u64 \<Rightarrow> u8 list \<Rightarrow> decompressor \<Rightarrow> (64, 'b, 'm) stream_world_scheme
    \<Rightarrow> u64 \<Rightarrow> (64, 'b, 'm) stream_world_scheme \<Rightarrow> bool" where
  "unpacked at n data d w1 k w \<longleftrightarrow> dp_used d w1 w \<and> k = n \<and>
     bytes_at (mem w) (at_data at) (unat n) = data \<and> bytes_at (mem w) (at_back at) (unat n) = data"

text \<open>The two spans of a push.\<close>

lemma unpacking_spans:
  assumes set: "stream_setting E K at n cap" and len: "len \<le> cap" and i: "i < len" and k: "k \<le> n"
  shows "spans_valid (chunk_at (at_out at) i len) (rest_of (at_back at) k n)"
    "small (chunk_at (at_out at) i len)" "small (rest_of (at_back at) k n)"
    "apart (at_out at) (unat len) (at_back at + unat k) (unat (n - k))"
    "apart (at_data at) (unat n) (at_back at + unat k) (unat (n - k))"
proof -
  note E = settingD [OF set]
  have lc: "unat len \<le> unat cap" using len by (simp add: word_le_nat_alt)
  have inside: "unat i + unat (min 4096 (len - i)) \<le> unat len"
    using chunk_size(1) [OF i] i by (simp add: word_less_nat_alt)
  show zap: "apart (at_out at) (unat len) (at_back at + unat k) (unat (n - k))"
    and "apart (at_data at) (unat n) (at_back at + unat k) (unat (n - k))"
    using E(8) k apart_mono [OF _ lc order_refl] by (auto simp: placed_def intro: rest_apart)
  show "spans_valid (chunk_at (at_out at) i len) (rest_of (at_back at) k n)"
    using zap inside E(8) by (auto simp: spans_defs placed_def apart_def)
  show "small (chunk_at (at_out at) i len)" by (rule small_chunk [OF i])
  show "small (rest_of (at_back at) k n)" by (rule small_rest [OF k E(9)])
qed

text \<open>What a push that was fed a chunk of the stream \<open>zs\<close> says about the two vectors.\<close>

lemma chunk_read:
  fixes w' :: "(64, 'b, 'm) stream_world_scheme"
  assumes on: "reads_on K Fmt_Zlib d (chunk_at a i len) (rest_of b k n) w
      \<lparr>h_phase = Running, h_taken = take (unat i) zs, h_given = bytes_at (mem w) b (unat k)\<rparr> zs data r w'"
    and zs: "zs = bytes_at (mem w) a (unat len)" and i: "i < len" and k: "k \<le> n" and data: "length data = unat n"
    and sm: "small (chunk_at a i len)" "small (rest_of b k n)"
    and n: "bytes_consumed r \<le> min 4096 (len - i)" "bytes_produced r \<le> n - k"
    and out: "same_outside (mem w) (mem w') (b + unat k) (unat (n - k))"
  defines "xs \<equiv> bytes_at (mem w') b (unat (k + bytes_produced r))"
    and "rd \<equiv> take (unat i + unat (bytes_consumed r)) zs"
  shows "dp_history K Fmt_Zlib d w' \<lparr>h_phase = if sr_done r then Ended else Running, h_taken = rd, h_given = xs\<rparr>"
    "prefix xs data" "sr_done r \<longleftrightarrow> rd = zs \<and> xs = data" "rd = zs \<Longrightarrow> sr_done r"
    "\<not> sr_done r \<Longrightarrow> bytes_consumed r = min 4096 (len - i)"
proof -
  have m: "moved ph (mem w) (chunk_at a i len) (bytes_consumed r) (mem w') (rest_of b k n) (bytes_produced r)
      \<lparr>h_phase = Running, h_taken = take (unat i) zs, h_given = bytes_at (mem w) b (unat k)\<rparr>
      = \<lparr>h_phase = ph, h_taken = rd, h_given = xs\<rparr>" for ph
    using chunk_bytes [OF i n(1), of "mem w" a] grown_bytes [OF k n(2) out]
    by (simp add: moved_history head_of_def xs_def rd_def zs)
  note on' = on [unfolded reads_on_def Let_def m reads_in_def history.simps rest_of_sel chunk_at_sel]
  have ne: "Fmt_Zlib \<noteq> Fmt_Zstd" by simp
  show px: "prefix xs data" and "sr_done r \<longleftrightarrow> rd = zs \<and> xs = data"
    and "dp_history K Fmt_Zlib d w' \<lparr>h_phase = if sr_done r then Ended else Running, h_taken = rd, h_given = xs\<rparr>"
    using on' by blast+
  have full: "xs = data" if "bytes_produced r = n - k"
  proof -
    obtain us where us: "data = xs @ us" using px by (rule prefixE)
    have "k + bytes_produced r = n" using that by simp
    then have "length data = length xs" using data by (simp add: xs_def)
    with us show ?thesis by simp
  qed
  show "rd = zs \<Longrightarrow> sr_done r" "\<not> sr_done r \<Longrightarrow> bytes_consumed r = min 4096 (len - i)"
    using on' sm ne full by blast+
qed

lemma unpacking_push:
  fixes w :: "(64, 'b, 'm) stream_world_scheme"
  assumes set: "stream_setting E K at n cap" and len: "len \<le> cap" and i: "i < len"
    and p: "unpacking K at n len data d w1 i k w"
  obtains r w' where
    "decompressor_push E d (chunk_at (at_out at) i len) (rest_of (at_back at) k n) w = Inr (Inr r, w')"
    "if sr_done r then unpacked at n data d w1 (k + bytes_produced r) w'
     else bytes_consumed r = min 4096 (len - i) \<and> i + bytes_consumed r < len \<and>
       unpacking K at n len data d w1 (i + bytes_consumed r) (k + bytes_produced r) w'"
proof -
  let ?i = "chunk_at (at_out at) i len" and ?o = "rest_of (at_back at) k n"
  let ?zs = "bytes_at (mem w) (at_out at) (unat len)"
  let ?hs = "\<lparr>h_phase = Running, h_taken = take (unat i) ?zs, h_given = bytes_at (mem w) (at_back at) (unat k)\<rparr>"
  note E = settingD [OF set]
  have u: "dp_used d w1 w" and h: "dp_history K Fmt_Zlib d w ?hs" and k: "k \<le> n"
    and dt: "bytes_at (mem w) (at_data at) (unat n) = data"
    and st: "is_stream_of K Fmt_Zlib ?zs data" and px: "prefix (bytes_at (mem w) (at_back at) (unat k)) data"
    using p by (simp_all add: unpacking_def is_stream_of_def)
  have wf: "wf_world w" "dp_ready d w" using u by (simp_all add: dp_used_def)
  note v = unpacking_spans [OF set len i k]
  have fe: "feeds ?zs ?hs (mem w) ?i"
    using chunk_bytes [OF i, of "min 4096 (len - i)" "mem w" "at_out at"]
    by (simp add: feeds_def span_bytes_def take_is_prefix)
  have rd: "reads_in ?zs data ?hs" using px by (simp add: reads_in_def take_is_prefix)
  obtain r w' where call: "decompressor_push E d ?i ?o w = Inr (Inr r, w')"
    and on: "reads_on K Fmt_Zlib d ?i ?o w ?hs ?zs data r w'" and "wf_world w'"
    by (rule decompressor_push_reads [OF E(1,5) wf(1) h _ v(1) st rd fe]) simp
  note n = decompressor_push_counts [OF E(1) wf call, simplified]
    and out = decompressor_push.op_writes [OF E(1) wf call, simplified]
  have z': "bytes_at (mem w') (at_out at) (unat len) = ?zs" and d': "bytes_at (mem w') (at_data at) (unat n) = data"
    using same_outside_bytes [OF out v(4)] same_outside_bytes [OF out v(5)] dt by simp_all
  have "dp_used d w w'" using decompressor_push.op_frame [OF E(1) wf call] by (simp add: dp_used_def)
  note u' = used_trans(2) [OF u this]
  have ld: "length data = unat n" and n1: "bytes_consumed r \<le> min 4096 (len - i)" and n2: "bytes_produced r \<le> n - k"
    using dt n by auto
  note R = chunk_read [OF on refl i k ld v(2,3) n1 n2 out]
  let ?k = "k + bytes_produced r" and ?j = "unat i + unat (bytes_consumed r)"
  show thesis
  proof (cases "sr_done r")
    case True
    then have b: "bytes_at (mem w') (at_back at) (unat ?k) = data" using R(3) by blast
    then have "unat ?k = unat n" using d' by (metis length_bytes_at)
    with b have "unpacked at n data d w1 ?k w'" using u' d' by (auto simp: unpacked_def word_unat_eq_iff)
    then show thesis using True by (intro that [OF call]) (simp only: if_True)
  next
    case False
    then have "take ?j ?zs \<noteq> ?zs" using R(4) by blast
    then have lt: "?j < unat len" by (simp add: not_le [symmetric])
    have g: "unat (i + bytes_consumed r) = ?j"
      using lt unat_u64_less [of len] by (simp add: unat_word_ariths)
    have "unpacking K at n len data d w1 (i + bytes_consumed r) ?k w'"
      using R(1,2) False u' d' z' st unat_grown(2) [OF k n2] by (simp add: unpacking_def g is_stream_of_def)
    moreover have "i + bytes_consumed r < len" using lt g by (simp add: word_less_nat_alt)
    ultimately show thesis using False R(5) by (intro that [OF call]) (simp only: if_False simp_thms)
  qed
qed

text \<open>The decompressing loop ends, with \<open>done\<close> and all of the data restored.\<close>

lemma decompress_loop_runs:
  fixes w :: "(64, 'b, 'm) stream_world_scheme"
  assumes set: "stream_setting E K at n cap" and len: "len \<le> cap"
    and "unpacking K at n len data d w1 i k w" "i < len"
  shows "\<exists>w'. decompress_loop E at n len d k i w = Some (Inr (n, w')) \<and> unpacked at n data d w1 n w'"
  using assms(3,4)
proof (induction "unat len - unat i" arbitrary: i k w rule: less_induct)
  case less
  obtain r w' where push: "decompressor_push E d (chunk_at (at_out at) i len) (rest_of (at_back at) k n) w = Inr (Inr r, w')"
    and go: "if sr_done r then unpacked at n data d w1 (k + bytes_produced r) w'
     else bytes_consumed r = min 4096 (len - i) \<and> i + bytes_consumed r < len \<and>
       unpacking K at n len data d w1 (i + bytes_consumed r) (k + bytes_produced r) w'"
    by (rule unpacking_push [OF set len less.prems(2,1)])
  have loop: "decompress_loop E at n len d k i w = (if sr_done r then Some (Inr (k + bytes_produced r, w'))
      else decompress_loop E at n len d (k + bytes_produced r) (i + bytes_consumed r) w')"
    using less.prems(2) push by (subst decompress_loop.simps) (simp add: chunk_at_def rest_of_def)
  show ?case
  proof (cases "sr_done r")
    case True
    then show ?thesis using go loop by (auto simp: unpacked_def)
  next
    case False
    then have c: "bytes_consumed r = min 4096 (len - i)" "i + bytes_consumed r < len"
      "unpacking K at n len data d w1 (i + bytes_consumed r) (k + bytes_produced r) w'"
      using go unfolding if_not_P [OF False] by blast+
    have "unat i < unat len" using less.prems(2) by (simp add: word_less_nat_alt)
    moreover have "unat (i + bytes_consumed r) = unat i + unat (bytes_consumed r)" "unat (bytes_consumed r) \<noteq> 0"
      using unat_grown(1) [of i len "bytes_consumed r"] less.prems(2) c(1) chunk_size(2,3) [OF less.prems(2)]
      by (simp_all only: unat_eq_zero order.strict_implies_order) simp_all
    ultimately have "unat len - unat (i + bytes_consumed r) < unat len - unat i" by linarith
    from less.hyps [OF this c(3,2)] show ?thesis using False loop by simp
  qed
qed

section \<open>The benchmark\<close>

text \<open>The allocators have room for two more objects than at the start.\<close>

definition spare_objects :: "('l::len, 'b) env \<Rightarrow> ('l, 'b, 'm) world_scheme \<Rightarrow> bool" where
  "spare_objects E w \<longleftrightarrow> (\<forall>v :: ('l, 'b, 'm) world_scheme. \<forall>a. dom (lib v) \<subseteq> insert a (dom (lib w)) \<longrightarrow> allocations_succeed E v)"

lemma streaming_round_runs:
  fixes w :: "(64, 'b, 'm) stream_world_scheme"
  assumes set: "stream_setting E K at n cap" and w: "wf_stream w" "spare_objects E w"
    and data: "bytes_at (mem w) (at_data at) (unat n) = data" and room: "\<not> fills_output E at n cap w"
  obtains k w' where "streaming_round E at n cap w = Inr (Inr (k, n), w')" "k \<le> cap"
    "same_heap w w'" "wf_stream w'" "bytes_at (mem w') (at_data at) (unat n) = data"
    "bytes_at (mem w') (at_back at) (unat n) = data"
proof -
  note E = settingD [OF set]
  have al: "allocations_succeed E w" using w(2) by (auto simp: spare_objects_def)
  have lvl: "Fmt_Zlib = Fmt_Zstd \<or> level_in_range zlib_default_level" by simp
  obtain c w1 a where c: "compressor_new E Fmt_Zlib zlib_default_level w = Inr (Inr c, w1)" "wf_stream w1"
    "cp_used c w1 w1" "mem w1 = mem w" "cp_objects c w1 \<subseteq> {a}" "dom (lib w1) \<subseteq> insert a (dom (lib w))"
    by (rule compressor_built [OF E(1) al w(1) lvl])
  have "packing K at n cap data c w1 (take (unat (0 :: u64)) data) 0 w1"
    using compressor_new_history [OF E(4,11) al c(1)] c(3,4) data by (simp add: packing_def new_history_def)
  then have "\<exists>off k w2. compress_loop E at n cap c 0 0 w1 = Some (Inr (k, w2)) \<and> packing K at n cap data c w1 data k w2 \<and>
      packs E at n cap c w1 off k w2 \<and> \<not> off < n"
    by (intro compress_loop_runs [OF set]) (use room c(1) packs_start in \<open>auto simp: fills_output_def\<close>)
  then obtain off k w2 where
    loop: "compress_loop E at n cap c 0 0 w1 = Some (Inr (k, w2))" and k: "packing K at n cap data c w1 data k w2"
    and last: "packs E at n cap c w1 off k w2" "\<not> off < n" by blast
  obtain r w3 where fin: "compressor_finish E c (rest_of (at_out at) k cap) w2 = Inr (Inr r, w3)" "cp_used c w1 w3"
    "k + bytes_produced r \<le> cap" "bytes_at (mem w3) (at_data at) (unat n) = data"
    and zs: "z_stream_of K (window_bits_for Fmt_Zlib) (bytes_at (mem w3) (at_out at) (unat (k + bytes_produced r))) data"
  proof (rule packing_finish [OF set k])
    show "k \<noteq> cap" using room c(1) last by (auto simp: fills_output_def)
    show "k + bytes_produced r \<noteq> cap" if fin: "compressor_finish E c (rest_of (at_out at) k cap) w2 = Inr (Inr r, w')" for r w'
      using room c(1) last fin unfolding fills_output_def by blast
  qed
  let ?k = "k + bytes_produced r"
  have w3: "wf_stream w3" by (rule used_wf_stream(1) [OF c(2) fin(2)])
  have "lib w3 x = lib w1 x" if "x \<noteq> a" for x using fin(2) c(5) that by (auto simp: cp_used_def frame_def)
  then have "dom (lib w3) \<subseteq> insert a (dom (lib w))" using c(6) by (auto simp: subset_iff domIff) (metis option.distinct(1))
  with w(2) have al3: "allocations_succeed E w3" by (auto simp: spare_objects_def)
  obtain d w4 where d: "decompressor_new E Fmt_Zlib w3 = Inr (d, w4)" "wf_stream w4" "dp_used d w4 w4" "mem w4 = mem w3"
    by (rule decompressor_built [OF E(1) al3 w3])
  have "unpacking K at n ?k data d w4 0 0 w4"
    using decompressor_new_history [OF E(5,11) al3 d(1)] d(3,4) fin(4) zs by (simp add: unpacking_def new_history_def)
  moreover have "?k \<noteq> 0" using zs E(7) by (metis bytes_at_0 unsigned_0)
  then have "0 < ?k" by (simp add: word_neq_0_conv)
  ultimately obtain w5 where dloop: "decompress_loop E at n ?k d 0 0 w4 = Some (Inr (n, w5))"
    and un: "unpacked at n data d w4 n w5"
    using decompress_loop_runs [OF set fin(3)] by blast
  have u5: "dp_used d w4 w5" using un unfolding unpacked_def by blast
  obtain w6 where w6: "decompressor_delete E d w5 = Inr w6" "same_heap w3 w6" "wf_world w6" "mem w6 = mem w5" "brk w3 \<le> brk w6"
    by (rule decompressor_scope [OF E(1) w3 d(1) u5])
  have "cp_used c w3 w6" by (rule same_heap_used [OF w6(2,3,5)]) (use fin(2) in \<open>simp add: cp_used_def\<close>)
  from compressor_scope [OF E(1) w(1) c(1) used_trans(1) [OF fin(2) this]] obtain w7 where
    w7: "compressor_delete E c w6 = Inr w7" "same_heap w w7" "wf_world w7" "mem w7 = mem w6" "brk w \<le> brk w7" .
  have "streaming_round E at n cap w = Inr (Inr (?k, n), w7)"
    using c(1) loop fin(1) d(1) dloop w6(1) w7(1)
    by (simp add: streaming_round_def looped_def deref_def rest_of_def Let_def)
  from that [OF this fin(3) w7(2) same_heap_wf_stream [OF w(1) w7(2,3,5)]] show thesis
    using un w6(4) w7(4) by (simp add: unpacked_def)
qed

lemma streaming_rounds_run:
  fixes w :: "(64, 'b, 'm) stream_world_scheme"
  assumes set: "stream_setting E K at n cap" and w: "wf_stream w" "spare_objects E w"
    and cap: "cap = bound E Fmt_Zlib zlib_default_level n"
    and room: "\<And>v. wf_stream v \<Longrightarrow> same_heap w v \<Longrightarrow> bytes_at (mem v) (at_data at) (unat n) = synthetic n \<Longrightarrow>
      \<not> fills_output E at n cap v"
  shows "\<exists>w'. BM_streaming_zlib E at n rounds w = Inr (Inr (Processed (of_nat rounds * n)), w') \<and> same_heap w w'"
proof -
  let ?w3 = "put_vector (at_back at) (zeroes n) (put_vector (at_out at) (zeroes cap) (put_vector (at_data at) (synthetic n) w))"
  let ?round = "\<lambda>w. chain (streaming_round E at n cap w) (\<lambda>(r, w'). Inr (map_sum id (\<lambda>_. ()) r, w'))"
  let ?I = "\<lambda>v. wf_stream v \<and> same_heap w v \<and> bytes_at (mem v) (at_data at) (unat n) = synthetic n"
  have round: "\<exists>v'. ?round v = Inr (Inr (), v') \<and> ?I v' \<and> True" if I: "?I v" for v
  proof -
    have "lib v = lib w" using I by (simp add: same_heap_def)
    then have sp: "spare_objects E v" using w(2) by (simp add: spare_objects_def)
    have v: "wf_stream v" "bytes_at (mem v) (at_data at) (unat n) = synthetic n" "\<not> fills_output E at n cap v"
      using I room by blast+
    obtain k v' where "streaming_round E at n cap v = Inr (Inr (k, n), v')" "same_heap v v'" "wf_stream v'"
      "bytes_at (mem v') (at_data at) (unat n) = synthetic n"
      by (rule streaming_round_runs [OF set v(1) sp v(2,3)])
    with I show ?thesis by (auto intro: same_heap_trans)
  qed
  have "bytes_at (mem ?w3) (at_data at) (unat n) = synthetic n"
    using settingD(8) [OF set] bytes_at_write [of "mem w" "at_data at" "synthetic n"]
    by (simp add: placed_def bytes_at_other)
  with same_heap_wf_stream [OF w(1), of ?w3] w(1) have start: "?I ?w3" by (simp add: wf_stream_def same_heap_def)
  from timed_runs [where I = ?I and J = "\<lambda>_. True" and k = rounds and body = ?round, OF start round] obtain w' where
    "timed rounds ?round ?w3 = Inr (Inr (), w')" "same_heap w w'" by blast
  then show ?thesis unfolding BM_streaming_zlib_def Let_def cap [symmetric] by (simp add: report_after_def)
qed

text \<open>
  C11: the streaming benchmark ends and restores its data, or its output vector gets full. Under
  the streaming promises of zlib and for a vector of any size, a round whose \<open>c_off\<close> stays below
  the size of the vector returns: no push or finish fails, the first loop may ignore how much a
  push consumed because it is always all of it, the second ends on \<open>done\<close>, and the bytes restored
  are the data. Every object is freed, so any number of rounds can be timed; the whole benchmark
  returns unless some round on its own data fills a vector of the size of the bound.
\<close>

theorem streaming_benchmark_ends:
  fixes w :: "(64, 'b, 'm) stream_world_scheme"
  assumes "stream_setting E K at n cap" "wf_stream w" "spare_objects E w"
  shows "(fills_output E at n cap w \<or>
      (\<exists>k w'. streaming_round E at n cap w = Inr (Inr (k, n), w') \<and> k \<le> cap \<and> same_heap w w' \<and>
        bytes_at (mem w') (at_back at) (unat n) = bytes_at (mem w) (at_data at) (unat n))) \<and>
    (cap = bound E Fmt_Zlib zlib_default_level n \<longrightarrow>
      (\<exists>v. wf_stream v \<and> same_heap w v \<and> bytes_at (mem v) (at_data at) (unat n) = synthetic n \<and> fills_output E at n cap v) \<or>
      (\<exists>w'. BM_streaming_zlib E at n rounds w = Inr (Inr (Processed (of_nat rounds * n)), w') \<and> same_heap w w'))"
proof (intro conjI impI disjCI)
  assume "\<not> (\<exists>k w'. streaming_round E at n cap w = Inr (Inr (k, n), w') \<and> k \<le> cap \<and> same_heap w w' \<and>
      bytes_at (mem w') (at_back at) (unat n) = bytes_at (mem w) (at_data at) (unat n))"
  then show "fills_output E at n cap w" using streaming_round_runs [OF assms refl] by metis
next
  assume cap: "cap = bound E Fmt_Zlib zlib_default_level n"
    and "\<not> (\<exists>w'. BM_streaming_zlib E at n rounds w = Inr (Inr (Processed (of_nat rounds * n)), w') \<and> same_heap w w')"
  then show "\<exists>v. wf_stream v \<and> same_heap w v \<and> bytes_at (mem v) (at_data at) (unat n) = synthetic n \<and> fills_output E at n cap v"
    using streaming_rounds_run [OF assms] by blast
qed

section \<open>Example\<close>

text \<open>
  A way to know that a vector never gets full: a stream of at most \<open>n\<close> bytes gives less than
  \<open>cap\<close>. It is no promise of zlib, whose streams may be flushed at will; the example
  engine below keeps it, because its flushes write nothing.
\<close>

definition stays_within :: "'b stream_codec \<Rightarrow> int \<Rightarrow> nat \<Rightarrow> nat \<Rightarrow> bool" where
  "stays_within K wb n cap \<longleftrightarrow> (\<forall>b hs. z_out K wb b hs \<longrightarrow>
     length (h_taken hs) \<le> n \<longrightarrow> length (h_given hs) < cap)"

lemma within_room:
  assumes "stays_within K (window_bits_for Fmt_Zlib) n cap" "cp_history K Fmt_Zlib c w hs" "length (h_taken hs) \<le> n"
  shows "length (h_given hs) < cap"
proof -
  obtain h where "cimpls w (cp_impl c) = Some (Zlib_Squeezer h)" "zready (zsq_stream h) w"
    "stream_history (z_out K) (window_bits_for Fmt_Zlib) (zsq_stream h) w hs"
    by (rule zlib_variant [OF assms(2)]) simp
  then obtain b where "z_out K (window_bits_for Fmt_Zlib) b hs" by (auto simp: stream_history_def)
  with assms(1,3) show ?thesis by (simp add: stays_within_def)
qed

lemma packs_within:
  fixes w :: "(64, 'b, 'm) stream_world_scheme"
  assumes set: "stream_setting E K at n cap" and le: "stays_within K (window_bits_for Fmt_Zlib) (unat n) (unat cap)"
    and "packs E at n cap c w1 off k w" "packing K at n cap data c w1 [] 0 w1"
  shows "packing K at n cap data c w1 (take (unat off) data) k w \<and> unat off < 2 ^ 33"
  using assms(3)
proof induction
  case packs_start
  then show ?case using assms(4) by simp
next
  case (packs_push off k w r w')
  obtain r' w'' where push: "compressor_push E c (chunk_at (at_data at) off n) (rest_of (at_out at) k cap) w = Inr (Inr r', w'')"
    and h: "cp_history K Fmt_Zlib c w'' \<lparr>h_phase = Running, h_taken = take (unat off + unat (bytes_consumed r')) data,
      h_given = bytes_at (mem w'') (at_out at) (unat (k + bytes_produced r'))\<rparr>" "k + bytes_produced r' \<le> cap"
    and more: "k + bytes_produced r' \<noteq> cap \<longrightarrow>
      packing K at n cap data c w1 (take (unat off + unat (min 4096 (n - off))) data) (k + bytes_produced r') w''"
    by (rule packing_push [OF set packs_push.hyps(2) conjunct1 [OF packs_push.IH]])
  have len: "length data = unat n" using packs_push.IH by (auto simp: packing_def)
  have n: "unat n < 2 ^ 32" and lt: "unat off < unat n"
    using settingD(9) [OF set] packs_push.hyps(2) by (simp_all add: word_less_nat_alt)
  have off: "unat (off + 4096) = unat off + 4096" using lt n by (simp add: unat_word_ariths)
  have "take (unat off + unat (min 4096 (n - off))) data = take (unat (off + 4096)) data"
    using lt len by (cases "unat n - unat off \<le> 4096") (simp_all add: chunk_size(1) [OF packs_push.hyps(2)] off)
  moreover have "k + bytes_produced r' \<noteq> cap" using within_room [OF le h(1)] len by auto
  ultimately show ?case using more push packs_push.hyps(3) off lt n by simp
qed

lemma never_full:
  fixes w :: "(64, 'b, 'm) stream_world_scheme"
  assumes set: "stream_setting E K at n cap" and le: "stays_within K (window_bits_for Fmt_Zlib) (unat n) (unat cap)"
    and w: "wf_stream w" "allocations_succeed E w"
  shows "\<not> fills_output E at n cap w"
proof
  note E = settingD [OF set]
  let ?data = "bytes_at (mem w) (at_data at) (unat n)"
  assume "fills_output E at n cap w"
  then obtain c w1 off k w2 where c: "compressor_new E Fmt_Zlib zlib_default_level w = Inr (Inr c, w1)"
    and p: "packs E at n cap c w1 off k w2"
    and full: "k = cap \<or> \<not> off < n \<and> (\<exists>r w3. compressor_finish E c (rest_of (at_out at) k cap) w2 = Inr (Inr r, w3) \<and>
      k + bytes_produced r = cap)"
    by (auto simp: fills_output_def)
  have "Fmt_Zlib = Fmt_Zstd \<or> level_in_range zlib_default_level" by simp
  from compressor_built [OF E(1) w(2,1) this] c have w1: "cp_used c w1 w1" "mem w1 = mem w" by (metis Inr_inject Pair_inject)+
  have start: "packing K at n cap ?data c w1 [] 0 w1"
    using compressor_new_history [OF E(4,11) w(2) c] w1 by (simp add: packing_def new_history_def)
  have at_k: "packing K at n cap ?data c w1 (take (unat off) ?data) k w2" using packs_within [OF set le p start] by blast
  let ?hs = "\<lparr>h_phase = Running, h_taken = take (unat off) ?data, h_given = bytes_at (mem w2) (at_out at) (unat k)\<rparr>"
  have h: "wf_world w2" "cp_history K Fmt_Zlib c w2 ?hs" "k \<le> cap"
    using at_k by (simp_all add: packing_def cp_used_def)
  have "unat k < unat cap" using within_room [OF le h(2)] by simp
  with full obtain r w3 where fin: "compressor_finish E c (rest_of (at_out at) k cap) w2 = Inr (Inr r, w3)"
    "k + bytes_produced r = cap" by auto
  have "h_phase ?hs \<noteq> Ended" by simp
  from compressor_finish_history(1) [OF E(1,4,3) h(1,2) this fin(1)] obtain ph where
    "cp_history K Fmt_Zlib c w3 (moved ph (mem w2) empty_span 0 (mem w3) (rest_of (at_out at) k cap) (bytes_produced r) ?hs)"
    unfolding finished_def by blast
  from within_room [OF le this] have "unat k + unat (bytes_produced r) < unat cap" by (simp add: head_of_def)
  moreover have "bytes_produced r = cap - k" using fin(2) by (simp add: eq_diff_eq add.commute)
  ultimately show False using unat_rest [OF h(3)] h(3) by (simp add: word_le_nat_alt)
qed

lemma length_tagged_2: "length (tagged xs) = 2 * length xs"
  by (induction xs) simp_all

lemma ref_stays_within: "2 * n + 1 < cap \<Longrightarrow> stays_within (ref_codec os) (window_bits_for Fmt_Zlib) n cap"
  unfolding stays_within_def
proof (intro allI impI)
  fix b hs
  assume a: "2 * n + 1 < cap" "z_out (ref_codec os) (window_bits_for Fmt_Zlib) b hs" "length (h_taken hs) \<le> n"
  then obtain pend fin where "b = Ref_Enc pend fin" by (cases b) auto
  with a(2) have "h_given hs @ pend = tagged (h_taken hs) @ [] \<or> h_given hs @ pend = tagged (h_taken hs) @ [0] \<or>
      h_given hs @ [] = tagged (h_taken hs) @ [0]"
    by (auto simp: ref_header_def split: phase.splits)
  then have "\<exists>us vs. h_given hs @ vs = tagged (h_taken hs) @ us \<and> length us \<le> 1"
    by (elim disjE) (rule exI, rule exI, erule conjI, simp)+
  then obtain us vs where us: "h_given hs @ vs = tagged (h_taken hs) @ us" "length us \<le> 1" by blast
  have "length (h_given hs) \<le> length (h_given hs @ vs)" by simp
  also have "\<dots> \<le> 2 * n + 1" unfolding us(1) using us(2) a(3) by (simp add: length_tagged_2)
  finally show "length (h_given hs) < cap" using a(1) by simp
qed

lemma demo_spare: "spare_objects (ref_env os nd) demo_stream"
  unfolding spare_objects_def
proof (intro allI impI ref_allocates_in)
  fix v :: "(64, ref_state) stream_world" and a
  assume "dom (lib v) \<subseteq> insert a (dom (lib demo_stream))"
  then have "lib v (if a = 1 then 2 else 1) = None" by (auto simp: subset_iff domIff)
  moreover have "(if a = 1 then 2 else 1) \<in> set [1..<64 :: nat]" by simp
  ultimately show "ref_fresh (lib v) \<noteq> None" unfolding ref_fresh_def find_None_iff by blast
qed

lemma streaming_benchmark_ends_witness:
  "\<exists>w'. BM_streaming_zlib (ref_env 3 True) demo_places 300 2 demo_stream = Inr (Inr (Processed 600), w')"
proof -
  have set: "stream_setting (ref_env 3 True) (ref_codec 3) demo_places 300 611"
    by (simp add: stream_setting_def ref_zstd_progress ref_idle ref_dec_def placed_def demo_places_def apart_def)
  have "\<not> fills_output (ref_env 3 True) demo_places 300 611 v" if v: "wf_stream v" "same_heap demo_stream v" for v
  proof (rule never_full [OF set _ v(1)])
    show "stays_within (ref_codec 3) (window_bits_for Fmt_Zlib) (unat (300 :: u64)) (unat (611 :: u64))"
      using ref_stays_within [of 300 611 3] by simp
    have "allocations_succeed (ref_env 3 True) demo_stream" using demo_spare by (auto simp: spare_objects_def)
    with v(2) show "allocations_succeed (ref_env 3 True) v" using same_heap_allocations by blast
  qed
  then show ?thesis using streaming_benchmark_ends [OF set demo_stream_ok(2) demo_spare, of 2] by auto
qed

end
