(* ===== verification/Fuzz_Target.thy ===== *)
theory Fuzz_Target
  imports Bench_Properties
begin

text \<open>
  \<open>fuzz/fuzz_squeeze.cpp\<close>: the fuzz target of the one-shot layer. The fuzzer's bytes lie at
  \<open>at_data\<close>, its two vectors where the allocator puts them. The final \<open>memcmp\<close> has no effect,
  since its result is discarded.
\<close>

definition fuzz_squeeze ::
  "('l::len, 'b) env \<Rightarrow> places \<Rightarrow> u64 \<Rightarrow> ('l, 'b, 'm) world_scheme \<Rightarrow> (int \<times> ('l, 'b, 'm) world_scheme) run" where
  "fuzz_squeeze E at n w =
     (if n = 0 then Inr (0, w)
      else let cap = bound E Fmt_Zlib zlib_default_level n;
               w1 = put_vector (at_out at) (zeroes cap) w
      in if cap = 0 then Inr (0, w1)
      else chain (squeeze E Fmt_Zlib zlib_default_level \<lparr>span_data = at_data at, span_size = n\<rparr>
             \<lparr>span_data = at_out at, span_size = cap\<rparr> w1) (\<lambda>(sr, w2). case sr of
          Inl e \<Rightarrow> Inr (0, w2)
        | Inr s \<Rightarrow>
            let w3 = put_vector (at_back at) (zeroes n) w2
            in chain (swell E Fmt_Zlib \<lparr>span_data = at_out at, span_size = bytes_written s\<rparr>
                 \<lparr>span_data = at_back at, span_size = n\<rparr> w3) (\<lambda>(dr, w4). Inr (0, w4))))"

text \<open>Whatever the libraries do, as long as they keep their heap contracts.\<close>

lemma fuzz_squeeze_contained:
  fixes E :: "(64, 'b) env" and w :: "(64, 'b, 'm) world_scheme"
  assumes E: "env_ok E" "wf_world w" "allocations_succeed E w"
  shows "\<exists>w'. fuzz_squeeze E at n w = Inr (0, w') \<and> wf_world w' \<and> same_heap w w'"
proof -
  let ?cap = "bound E Fmt_Zlib zlib_default_level n"
  let ?w1 = "put_vector (at_out at) (zeroes ?cap) w"
  have w1: "wf_world ?w1" "allocations_succeed E ?w1" using E by simp_all
  obtain sr w2 where sq: "squeeze E Fmt_Zlib zlib_default_level \<lparr>span_data = at_data at, span_size = n\<rparr>
      \<lparr>span_data = at_out at, span_size = ?cap\<rparr> ?w1 = Inr (sr, w2)" "wf_world w2" "same_heap w w2"
    using squeeze_total [OF E(1) w1, of Fmt_Zlib zlib_default_level "\<lparr>span_data = at_data at, span_size = n\<rparr>"
      "\<lparr>span_data = at_out at, span_size = ?cap\<rparr>"] by auto
  let ?w3 = "put_vector (at_back at) (zeroes n) w2"
  have w3: "wf_world ?w3" "allocations_succeed E ?w3"
    using sq(2,3) E(3) same_heap_allocations [of w w2 E] by simp_all
  have sw: "\<exists>dr w4. swell E Fmt_Zlib i out ?w3 = Inr (dr, w4) \<and> wf_world w4 \<and> same_heap w w4" for i out
    using swell_total [OF E(1) w3, of Fmt_Zlib i out] same_heap_trans [OF sq(3)] by auto
  show ?thesis
  proof (cases sr)
    case (Inl e)
    then show ?thesis using sq E(2) by (simp add: fuzz_squeeze_def Let_def same_heap_def)
  next
    case (Inr s)
    from sw [of "\<lparr>span_data = at_out at, span_size = bytes_written s\<rparr>" "\<lparr>span_data = at_back at, span_size = n\<rparr>"]
    obtain dr w4 where "swell E Fmt_Zlib \<lparr>span_data = at_out at, span_size = bytes_written s\<rparr>
        \<lparr>span_data = at_back at, span_size = n\<rparr> ?w3 = Inr (dr, w4)" "wf_world w4" "same_heap w w4"
      by blast
    with Inr sq(1) E(2) show ?thesis by (simp add: fuzz_squeeze_def Let_def same_heap_def)
  qed
qed

text \<open>
  C38: the fuzz target of the one-shot layer. On any input it returns 0 without a fault and frees
  everything; and where zlib keeps its promises, below 4 GiB, the comparison whose result the
  target discards would always have found the restored bytes equal to the input.
\<close>

theorem fuzz_squeeze_safe:
  fixes E :: "(64, 'b) env" and w :: "(64, 'b, 'm) world_scheme"
  assumes "env_ok E" "wf_world w" "allocations_succeed E w"
  shows "\<exists>w'. fuzz_squeeze E at n w = Inr (0, w') \<and> wf_world w' \<and> same_heap w w' \<and>
    (zlib_codec E enc dec \<and> placed at n (bound E Fmt_Zlib zlib_default_level n) \<and>
       bound E Fmt_Zlib zlib_default_level n \<noteq> 0 \<and> unat n < 2 ^ 32 \<and>
       unat (bound E Fmt_Zlib zlib_default_level n) < 2 ^ 32 \<longrightarrow>
     bytes_at (mem w') (at_back at) (unat n) = bytes_at (mem w) (at_data at) (unat n))"
proof -
  let ?cap = "bound E Fmt_Zlib zlib_default_level n" and ?data = "bytes_at (mem w) (at_data at) (unat n)"
  have restored: "bytes_at (mem w') (at_back at) (unat n) = ?data"
    if c: "zlib_codec E enc dec" "placed at n ?cap" "?cap \<noteq> 0" "unat n < 2 ^ 32" "unat ?cap < 2 ^ 32"
      and run: "fuzz_squeeze E at n w = Inr (0, w')" for w'
  proof (cases "n = 0")
    case False
    have "bench_state w at n ?data (put_vector (at_out at) (zeroes ?cap) w)"
      using c(2) assms(2) by (simp add: bench_state_def placed_def bytes_at_other)
    from bench_squeeze [OF c(1) this assms(3) c(2) refl c(3-5)] obtain r v1 where
      sq: "squeeze E Fmt_Zlib zlib_default_level \<lparr>span_data = at_data at, span_size = n\<rparr>
        \<lparr>span_data = at_out at, span_size = ?cap\<rparr> (put_vector (at_out at) (zeroes ?cap) w) = Inr (Inr r, v1)"
        "bench_state w at n ?data v1" "bytes_written r \<le> ?cap"
        "dec (window_bits_for Fmt_Zlib) (bytes_at (mem v1) (at_out at) (unat (bytes_written r))) ?data"
      by blast
    let ?v2 = "put_vector (at_back at) (zeroes n) v1"
    have k: "unat (bytes_written r) \<le> unat ?cap" using sq(3) by (simp add: word_le_nat_alt)
    have ap: "apart (at_out at) (unat (bytes_written r)) (at_back at) (unat n)"
      using c(2) apart_mono [OF _ k order_refl] by (auto simp: placed_def)
    then have "bench_state w at n ?data ?v2"
      "dec (window_bits_for Fmt_Zlib) (bytes_at (mem ?v2) (at_out at) (unat (bytes_written r))) ?data"
      using sq(2,4) c(2) by (simp_all add: bench_state_def placed_def bytes_at_other) (simp add: same_heap_def)
    from bench_swell [OF c(1) this(1) assms(3) c(2,4,5) sq(3) this(2)] obtain r' v' where
      "swell E Fmt_Zlib \<lparr>span_data = at_out at, span_size = bytes_written r\<rparr>
        \<lparr>span_data = at_back at, span_size = n\<rparr> ?v2 = Inr (Inr r', v')"
      "bytes_at (mem v') (at_back at) (unat n) = ?data"
      by blast
    with sq(1) False c(3) run show ?thesis by (simp add: fuzz_squeeze_def)
  qed simp
  obtain w' where "fuzz_squeeze E at n w = Inr (0, w')" "wf_world w'" "same_heap w w'"
    using fuzz_squeeze_contained [OF assms] by blast
  with restored show ?thesis by blast
qed

lemma fuzz_squeeze_safe_witness:
  "\<exists>w'. fuzz_squeeze (ref_env 3 True) demo_places 5 demo_world = Inr (0, w') \<and>
    bytes_at (mem w') 3000 5 = bytes_at (mem demo_world) 1000 5"
  using fuzz_squeeze_safe [OF ref_env_ok [of 3 True] demo_world_ok, where enc = "ref_enc 3" and dec = ref_dec
      and at = demo_places and n = 5] demo_codec
  by (auto simp: placed_def demo_places_def apart_def)

end
