(* ===== verification/Fuzz_Stream.thy ===== *)
theory Fuzz_Stream
  imports Bench_Streaming
begin

text \<open>
  \<open>fuzz/fuzz_stream.cpp\<close>: the fuzz target of the streaming layer. It reads the members \<open>bytes_in\<close>
  and \<open>bytes_out\<close> of a result, which \<open>stream_result\<close> does not declare, so as it stands it does
  not compile; what the two members are is a parameter here, and the properties say for which
  reading they hold. The fuzzer's bytes lie at \<open>at_data\<close>, the two arrays at \<open>at_out\<close> and
  \<open>at_back\<close>. Both loops may fail to end: then they are \<open>None\<close>. Memory is flat, so that a span
  ends inside its array is not part of a run here: with \<open>bytes_out\<close> read as \<open>bytes_produced\<close> it
  follows from the counts of \<open>finish\<close>, which stay within its output span.
\<close>

unbundle bit_operations_syntax

section \<open>The target\<close>

record fuzz_members =
  m_bytes_in :: "stream_result \<Rightarrow> u64"
  m_bytes_out :: "stream_result \<Rightarrow> u64"

definition fuzz_array :: u64 where
  "fuzz_array = 65536"

text \<open>The size of the next piece: 1 to 64 bytes, or what is left of \<open>len\<close>.\<close>

definition fuzz_chunk :: "u8 \<Rightarrow> u64 \<Rightarrow> u64 \<Rightarrow> u64" where
  "fuzz_chunk byte pos len =
     (let chunk = ucast (byte AND 0x3f) + 1 in if len - pos < chunk then len - pos else chunk)"

text \<open>The first loop gives whether it ended without an early return.\<close>

partial_function (option) fuzz_push_loop ::
  "('l::len, 'b) env \<Rightarrow> fuzz_members \<Rightarrow> places \<Rightarrow> u64 \<Rightarrow> compressor \<Rightarrow> u64 \<Rightarrow> ('l, 'b, 'm) stream_world_scheme
    \<Rightarrow> (bool \<times> ('l, 'b, 'm) stream_world_scheme) run option" where
  "fuzz_push_loop E F at n c pos w =
     (if pos < n then
        case compressor_push E c
               \<lparr>span_data = at_data at + unat pos,
                span_size = fuzz_chunk (mem w (at_data at + unat pos)) pos n\<rparr>
               \<lparr>span_data = at_out at, span_size = fuzz_array\<rparr> w of
          Inl e \<Rightarrow> Some (Inl e)
        | Inr (Inl e, w1) \<Rightarrow> Some (Inr (False, w1))
        | Inr (Inr r, w1) \<Rightarrow> fuzz_push_loop E F at n c (pos + m_bytes_in F r) w1
      else Some (Inr (True, w)))"

text \<open>An error and \<open>done\<close> both leave the second loop, and 0 is returned in either case.\<close>

partial_function (option) fuzz_read_loop ::
  "('l::len, 'b) env \<Rightarrow> fuzz_members \<Rightarrow> places \<Rightarrow> u64 \<Rightarrow> u64 \<Rightarrow> decompressor \<Rightarrow> u64 \<Rightarrow> ('l, 'b, 'm) stream_world_scheme
    \<Rightarrow> ('l, 'b, 'm) stream_world_scheme run option" where
  "fuzz_read_loop E F at n len d cpos w =
     (if cpos < len then
        case decompressor_push E d
               \<lparr>span_data = at_out at + unat cpos,
                span_size = fuzz_chunk (mem w (at_data at + unat (cpos mod n))) cpos len\<rparr>
               \<lparr>span_data = at_back at, span_size = fuzz_array\<rparr> w of
          Inl e \<Rightarrow> Some (Inl e)
        | Inr (Inl e, w1) \<Rightarrow> Some (Inr w1)
        | Inr (Inr r, w1) \<Rightarrow>
            if sr_done r then Some (Inr w1)
            else fuzz_read_loop E F at n len d (cpos + m_bytes_in F r) w1
      else Some (Inr w))"

text \<open>The decompressing half: what follows a finish that gave a value.\<close>

definition fuzz_read ::
  "('l::len, 'b) env \<Rightarrow> fuzz_members \<Rightarrow> places \<Rightarrow> u64 \<Rightarrow> u64 \<Rightarrow> ('l, 'b, 'm) stream_world_scheme
    \<Rightarrow> ('l, 'b, 'm) stream_world_scheme run" where
  "fuzz_read E F at n len w =
     (let w1 = put_vector (at_back at) (zeroes fuzz_array) w in
      chain (decompressor_new E Fmt_Zlib w1) (\<lambda>(d, w2).
      chain (looped (fuzz_read_loop E F at n len d 0 w2)) (\<lambda>w3.
      decompressor_delete E d w3)))"

text \<open>The use of the compressor, and the target: on every path the objects are destroyed.\<close>

definition fuzz_stream_body ::
  "('l::len, 'b) env \<Rightarrow> fuzz_members \<Rightarrow> places \<Rightarrow> u64 \<Rightarrow> compressor \<Rightarrow> ('l, 'b, 'm) stream_world_scheme
    \<Rightarrow> ('l, 'b, 'm) stream_world_scheme run" where
  "fuzz_stream_body E F at n c w =
     chain (looped (fuzz_push_loop E F at n c 0 w)) (\<lambda>(pushed, w1).
       if \<not> pushed then Inr w1
       else chain (compressor_finish E c \<lparr>span_data = at_out at, span_size = fuzz_array\<rparr> w1) (\<lambda>(fr, w2).
         case fr of Inl e \<Rightarrow> Inr w2 | Inr f \<Rightarrow> fuzz_read E F at n (m_bytes_out F f) w2))"

definition fuzz_stream ::
  "('l::len, 'b) env \<Rightarrow> fuzz_members \<Rightarrow> places \<Rightarrow> u64 \<Rightarrow> ('l, 'b, 'm) stream_world_scheme
    \<Rightarrow> ((exn + int) \<times> ('l, 'b, 'm) stream_world_scheme) run" where
  "fuzz_stream E F at n w =
     (if n = 0 then Inr (Inr 0, w)
      else chain (compressor_new E Fmt_Zlib zlib_default_level (put_vector (at_out at) (zeroes fuzz_array) w))
        (\<lambda>(x, w1). case x of
           Inl e \<Rightarrow> Inr (Inl e, w1)
         | Inr c \<Rightarrow> chain (fuzz_stream_body E F at n c w1) (\<lambda>w2.
             chain (compressor_delete E c w2) (\<lambda>w3. Inr (Inr 0, w3)))))"

section \<open>Whatever the libraries do\<close>

text \<open>A call on an object in use gives a reply, and leaves the object in use.\<close>

lemma used_calls:
  fixes w :: "('l::len, 'b, 'm) stream_world_scheme"
  assumes "env_ok E"
  shows "cp_used c w0 w \<Longrightarrow> \<exists>r w'. compressor_push E c i out w = Inr (r, w') \<and> cp_used c w0 w'"
    "cp_used c w0 w \<Longrightarrow> zstd_end_progress (zstd E) \<Longrightarrow>
      \<exists>r w'. compressor_finish E c out w = Inr (r, w') \<and> cp_used c w0 w'"
    "dp_used d w0 w \<Longrightarrow> \<exists>r w'. decompressor_push E d i out w = Inr (r, w') \<and> dp_used d w0 w'"
proof -
  show "\<exists>r w'. compressor_push E c i out w = Inr (r, w') \<and> cp_used c w0 w'" if u: "cp_used c w0 w"
  proof -
    have w: "wf_world w" "cp_ready c w" using u by (simp_all add: cp_used_def)
    obtain r w' where call: "compressor_push E c i out w = Inr (r, w')"
      using compressor_push.op_defined [OF assms w] by blast
    have "cp_used c w w'" using compressor_push.op_frame [OF assms w call] by (simp add: cp_used_def)
    with call used_trans(1) [OF u] show ?thesis by blast
  qed
  show "\<exists>r w'. compressor_finish E c out w = Inr (r, w') \<and> cp_used c w0 w'"
    if u: "cp_used c w0 w" and e: "zstd_end_progress (zstd E)"
  proof -
    have w: "wf_world w" "cp_ready c w" using u by (simp_all add: cp_used_def)
    obtain r w' where call: "compressor_finish E c out w = Inr (r, w')"
      using compressor_finish.op_defined [OF conjI [OF assms e] w] by blast
    have "cp_used c w w'" using compressor_finish.op_frame [OF conjI [OF assms e] w call] by (simp add: cp_used_def)
    with call used_trans(1) [OF u] show ?thesis by blast
  qed
  show "\<exists>r w'. decompressor_push E d i out w = Inr (r, w') \<and> dp_used d w0 w'" if u: "dp_used d w0 w"
  proof -
    have w: "wf_world w" "dp_ready d w" using u by (simp_all add: dp_used_def)
    obtain r w' where call: "decompressor_push E d i out w = Inr (r, w')"
      using decompressor_push.op_defined [OF assms w] by blast
    have "dp_used d w w'" using decompressor_push.op_frame [OF assms w call] by (simp add: dp_used_def)
    with call used_trans(2) [OF u] show ?thesis by blast
  qed
qed

lemma fuzz_push_contained:
  fixes w :: "('l::len, 'b, 'm) stream_world_scheme"
  assumes "fuzz_push_loop E F at n c pos w = Some x" "env_ok E" "cp_used c w0 w"
  shows "\<exists>b w'. x = Inr (b, w') \<and> cp_used c w0 w'"
proof -
  define P where "P = (\<lambda>(E :: ('l, 'b) env) (F :: fuzz_members) (at :: places) (n :: u64) c (pos :: u64)
      (w :: ('l, 'b, 'm) stream_world_scheme)
      (x :: (bool \<times> ('l, 'b, 'm) stream_world_scheme) run). env_ok E \<longrightarrow> cp_used c w0 w \<longrightarrow>
      (\<exists>b w'. x = Inr (b, w') \<and> cp_used c w0 w'))"
  have "P E F at n c pos w x"
  proof (rule fuzz_push_loop.raw_induct [OF _ assms(1)])
    fix f E F at n c pos w x
    assume IH: "\<And>E F at n c pos w y. f E F at n c pos w = Some y \<Longrightarrow> P E F at n c pos w y"
      and body: "(if pos < n then
        case compressor_push E c
               \<lparr>span_data = at_data at + unat pos,
                span_size = fuzz_chunk (mem w (at_data at + unat pos)) pos n\<rparr>
               \<lparr>span_data = at_out at, span_size = fuzz_array\<rparr> w of
          Inl e \<Rightarrow> Some (Inl e)
        | Inr (Inl e, w1) \<Rightarrow> Some (Inr (False, w1))
        | Inr (Inr r, w1) \<Rightarrow> f E F at n c (pos + m_bytes_in F r) w1
      else Some (Inr (True, w))) = Some x"
    show "P E F at n c pos w x"
      unfolding P_def
    proof (intro impI)
      assume E: "env_ok E" and u: "cp_used c w0 w"
      obtain r w1 where call: "compressor_push E c
           \<lparr>span_data = at_data at + unat pos, span_size = fuzz_chunk (mem w (at_data at + unat pos)) pos n\<rparr>
           \<lparr>span_data = at_out at, span_size = fuzz_array\<rparr> w = Inr (r, w1)" and u1: "cp_used c w0 w1"
        using used_calls(1) [OF E u] by blast
      show "\<exists>b w'. x = Inr (b, w') \<and> cp_used c w0 w'"
      proof (cases "pos < n")
        case True
        show ?thesis
        proof (cases r)
          case (Inl e)
          then show ?thesis using body call u1 True by auto
        next
          case (Inr v)
          then have "f E F at n c (pos + m_bytes_in F v) w1 = Some x" using body call True by simp
          from IH [OF this] E u1 show ?thesis by (simp add: P_def)
        qed
      qed (use body u in auto)
    qed
  qed
  with assms(2,3) show ?thesis by (simp add: P_def)
qed

lemma fuzz_read_contained:
  fixes w :: "('l::len, 'b, 'm) stream_world_scheme"
  assumes "fuzz_read_loop E F at n len d cpos w = Some x" "env_ok E" "dp_used d w0 w"
  shows "\<exists>w'. x = Inr w' \<and> dp_used d w0 w'"
proof -
  define P where "P = (\<lambda>(E :: ('l, 'b) env) (F :: fuzz_members) (at :: places) (n :: u64) (len :: u64) d (cpos :: u64)
      (w :: ('l, 'b, 'm) stream_world_scheme)
      (x :: ('l, 'b, 'm) stream_world_scheme run). env_ok E \<longrightarrow> dp_used d w0 w \<longrightarrow>
      (\<exists>w'. x = Inr w' \<and> dp_used d w0 w'))"
  have "P E F at n len d cpos w x"
  proof (rule fuzz_read_loop.raw_induct [OF _ assms(1)])
    fix f E F at n len d cpos w x
    assume IH: "\<And>E F at n len d cpos w y. f E F at n len d cpos w = Some y \<Longrightarrow> P E F at n len d cpos w y"
      and body: "(if cpos < len then
        case decompressor_push E d
               \<lparr>span_data = at_out at + unat cpos,
                span_size = fuzz_chunk (mem w (at_data at + unat (cpos mod n))) cpos len\<rparr>
               \<lparr>span_data = at_back at, span_size = fuzz_array\<rparr> w of
          Inl e \<Rightarrow> Some (Inl e)
        | Inr (Inl e, w1) \<Rightarrow> Some (Inr w1)
        | Inr (Inr r, w1) \<Rightarrow>
            if sr_done r then Some (Inr w1)
            else f E F at n len d (cpos + m_bytes_in F r) w1
      else Some (Inr w)) = Some x"
    show "P E F at n len d cpos w x"
      unfolding P_def
    proof (intro impI)
      assume E: "env_ok E" and u: "dp_used d w0 w"
      obtain r w1 where call: "decompressor_push E d
           \<lparr>span_data = at_out at + unat cpos, span_size = fuzz_chunk (mem w (at_data at + unat (cpos mod n))) cpos len\<rparr>
           \<lparr>span_data = at_back at, span_size = fuzz_array\<rparr> w = Inr (r, w1)" and u1: "dp_used d w0 w1"
        using used_calls(3) [OF E u] by blast
      show "\<exists>w'. x = Inr w' \<and> dp_used d w0 w'"
      proof (cases "cpos < len")
        case True
        show ?thesis
        proof (cases r)
          case (Inl e)
          then show ?thesis using body call u1 True by auto
        next
          case (Inr v)
          then have "(if sr_done v then Some (Inr w1) else f E F at n len d (cpos + m_bytes_in F v) w1) = Some x"
            using body call True by simp
          then show ?thesis using IH E u1 by (cases "sr_done v") (auto simp: P_def)
        qed
      qed (use body u in auto)
    qed
  qed
  with assms(2,3) show ?thesis by (simp add: P_def)
qed

text \<open>The half that decompresses restores the heap, unless its loop never ends.\<close>

lemma fuzz_read_cases:
  fixes w :: "('l::len, 'b, 'm) stream_world_scheme"
  assumes E: "env_ok E" and w: "wf_stream w" "allocations_succeed E w"
  obtains (ends) w' where "fuzz_read E F at n len w = Inr w'" "same_heap w w'" "wf_world w'" "brk w \<le> brk w'"
  | (never) d and v :: "('l, 'b, 'm) stream_world_scheme" where "fuzz_read E F at n len w = Inl Never_Returns"
    "decompressor_new E Fmt_Zlib (put_vector (at_back at) (zeroes fuzz_array) w) = Inr (d, v)" "dp_used d v v"
    "fuzz_read_loop E F at n len d 0 v = None"
proof -
  let ?w1 = "put_vector (at_back at) (zeroes fuzz_array) w"
  have h1: "same_heap w ?w1" by (simp add: same_heap_def)
  have wf1: "wf_stream ?w1"
    using same_heap_wf_stream [OF w(1) h1] w(1) by (simp add: wf_stream_def)
  have al: "allocations_succeed E ?w1" using w(2) by simp
  obtain d v where d: "decompressor_new E Fmt_Zlib ?w1 = Inr (d, v)" "dp_used d v v"
    by (rule decompressor_built [OF E al wf1])
  show thesis
  proof (cases "fuzz_read_loop E F at n len d 0 v")
    case None
    with d show thesis by (intro never) (simp_all add: fuzz_read_def Let_def looped_def)
  next
    case (Some x)
    from fuzz_read_contained [OF Some E d(2)] obtain w3 where x: "x = Inr w3" "dp_used d v w3" by blast
    obtain w4 where w4: "decompressor_delete E d w3 = Inr w4" "same_heap ?w1 w4" "wf_world w4" "brk ?w1 \<le> brk w4"
      by (rule decompressor_scope [OF E wf1 d(1) x(2)])
    then show thesis
      using d(1) Some x(1) same_heap_trans [OF h1] by (intro ends) (simp_all add: fuzz_read_def Let_def looped_def)
  qed
qed

text \<open>The allocators have room for one more object wherever at most one is held.\<close>

lemma spare_after:
  fixes w w1 w2 :: "('l::len, 'b, 'm) stream_world_scheme"
  assumes sp: "spare_objects E w" and new: "cp_objects c w1 \<subseteq> {a}" "dom (lib w1) \<subseteq> insert a (dom (lib w))"
    and u: "cp_used c w1 w2"
  shows "allocations_succeed E w2"
proof -
  have "lib w2 x = lib w1 x" if "x \<noteq> a" for x using u new(1) that by (auto simp: cp_used_def frame_def)
  then have "dom (lib w2) \<subseteq> insert a (dom (lib w))" using new(2) by (auto simp: subset_iff domIff) (metis option.distinct(1))
  with sp show ?thesis by (auto simp: spare_objects_def)
qed

lemma fuzz_body_cases:
  fixes w w1 :: "('l::len, 'b, 'm) stream_world_scheme"
  assumes E: "env_ok E" "zstd_end_progress (zstd E)" and w: "wf_stream w1" "cp_used c w1 w1"
    and al: "\<And>w2. cp_used c w1 w2 \<Longrightarrow> allocations_succeed E w2"
  obtains (ends) w' where "fuzz_stream_body E F at n c w1 = Inr w'" "cp_used c w1 w'"
  | (pushing) "fuzz_stream_body E F at n c w1 = Inl Never_Returns" "fuzz_push_loop E F at n c 0 w1 = None"
  | (reading) len d and v v' :: "('l, 'b, 'm) stream_world_scheme" where "fuzz_stream_body E F at n c w1 = Inl Never_Returns" "decompressor_new E Fmt_Zlib v = Inr (d, v')" "dp_used d v' v'"
    "allocations_succeed E v" "fuzz_read_loop E F at n len d 0 v' = None"
proof (cases "fuzz_push_loop E F at n c 0 w1")
  case None
  then show thesis by (intro pushing) (simp_all add: fuzz_stream_body_def looped_def)
next
  case (Some x)
  from fuzz_push_contained [OF Some E(1) w(2)] obtain b w2 where x: "x = Inr (b, w2)" "cp_used c w1 w2" by blast
  show thesis
  proof (cases b)
    case False
    then show thesis using Some x by (intro ends) (simp_all add: fuzz_stream_body_def looped_def)
  next
    case True
    obtain fr w3 where fin: "compressor_finish E c \<lparr>span_data = at_out at, span_size = fuzz_array\<rparr> w2 = Inr (fr, w3)"
      and u3: "cp_used c w1 w3"
      using used_calls(2) [OF E(1) x(2) E(2)] by blast
    show thesis
    proof (cases fr)
      case (Inl e)
      then show thesis using Some x True fin u3 by (intro ends [of w3]) (simp_all add: fuzz_stream_body_def looped_def)
    next
      case (Inr f)
      have body: "fuzz_stream_body E F at n c w1 = fuzz_read E F at n (m_bytes_out F f) w3"
        using Some x True fin Inr by (simp add: fuzz_stream_body_def looped_def)
      show thesis
      proof (rule fuzz_read_cases [OF E(1) used_wf_stream(1) [OF w(1) u3] al [OF u3], where F = F and at = at and n = n and len = "m_bytes_out F f"])
        fix w' assume r: "fuzz_read E F at n (m_bytes_out F f) w3 = Inr w'" "same_heap w3 w'" "wf_world w'" "brk w3 \<le> brk w'"
        have "cp_used c w3 w'" by (rule same_heap_used [OF r(2-4)]) (use u3 in \<open>simp add: cp_used_def\<close>)
        with r(1) body used_trans(1) [OF u3] show thesis by (intro ends) simp_all
      next
        fix d v
        assume r: "fuzz_read E F at n (m_bytes_out F f) w3 = Inl Never_Returns"
          "decompressor_new E Fmt_Zlib (put_vector (at_back at) (zeroes fuzz_array) w3) = Inr (d, v)"
          "dp_used d v v" "fuzz_read_loop E F at n (m_bytes_out F f) d 0 v = None"
        then show thesis using al [OF u3] body by (intro reading [OF _ r(2,3) _ r(4)]) simp_all
      qed
    qed
  qed
qed

lemma fuzz_stream_cases:
  fixes w :: "('l::len, 'b, 'm) stream_world_scheme"
  assumes E: "env_ok E" "zstd_end_progress (zstd E)" and w: "wf_stream w" "spare_objects E w" and n: "n \<noteq> 0"
  obtains (ends) w' where "fuzz_stream E F at n w = Inr (Inr 0, w')" "same_heap w w'"
  | (pushing) c and v v' :: "('l, 'b, 'm) stream_world_scheme" where "fuzz_stream E F at n w = Inl Never_Returns" "allocations_succeed E v"
    "compressor_new E Fmt_Zlib zlib_default_level v = Inr (Inr c, v')" "cp_used c v' v'"
    "mem v' = write_bytes (mem w) (at_out at) (zeroes fuzz_array)" "fuzz_push_loop E F at n c 0 v' = None"
  | (reading) len d and v v' :: "('l, 'b, 'm) stream_world_scheme" where "fuzz_stream E F at n w = Inl Never_Returns" "allocations_succeed E v"
    "decompressor_new E Fmt_Zlib v = Inr (d, v')" "dp_used d v' v'" "fuzz_read_loop E F at n len d 0 v' = None"
proof -
  let ?w0 = "put_vector (at_out at) (zeroes fuzz_array) w"
  have h0: "same_heap w ?w0" by (simp add: same_heap_def)
  have wf0: "wf_stream ?w0" using same_heap_wf_stream [OF w(1) h0] w(1) by (simp add: wf_stream_def)
  have sp: "spare_objects E ?w0" using w(2) by (simp add: spare_objects_def)
  then have al: "allocations_succeed E ?w0" by (auto simp: spare_objects_def)
  have lvl: "Fmt_Zlib = Fmt_Zstd \<or> level_in_range zlib_default_level" by simp
  obtain c w1 a where c: "compressor_new E Fmt_Zlib zlib_default_level ?w0 = Inr (Inr c, w1)" "wf_stream w1"
    "cp_used c w1 w1" "mem w1 = mem ?w0" "cp_objects c w1 \<subseteq> {a}" "dom (lib w1) \<subseteq> insert a (dom (lib ?w0))"
    by (rule compressor_built [OF E(1) al wf0 lvl])
  show thesis
  proof (rule fuzz_body_cases [OF E c(2,3) spare_after [OF sp c(5,6)], where F = F and at = at and n = n])
    fix w' assume b: "fuzz_stream_body E F at n c w1 = Inr w'" "cp_used c w1 w'"
    obtain w2 where "compressor_delete E c w' = Inr w2" "same_heap ?w0 w2"
      by (rule compressor_scope [OF E(1) wf0 c(1) b(2)])
    then show thesis
      using c(1) b(1) n same_heap_trans [OF h0] by (intro ends [of w2]) (simp_all add: fuzz_stream_def)
  next
    assume r: "fuzz_stream_body E F at n c w1 = Inl Never_Returns" "fuzz_push_loop E F at n c 0 w1 = None"
    then show thesis using c n by (intro pushing [OF _ al c(1,3) _ r(2)]) (simp_all add: fuzz_stream_def)
  next
    fix len d and v v' :: "('l, 'b, 'm) stream_world_scheme"
    assume r: "fuzz_stream_body E F at n c w1 = Inl Never_Returns" "decompressor_new E Fmt_Zlib v = Inr (d, v')" "dp_used d v' v'"
      "allocations_succeed E v" "fuzz_read_loop E F at n len d 0 v' = None"
    then show thesis using c n by (intro reading [OF _ r(4,2,3,5)]) (simp add: fuzz_stream_def)
  qed
qed

text \<open>With \<open>bytes_out\<close> read as \<open>bytes_produced\<close> the span that is decompressed lies in the array.\<close>

lemma fuzz_reads_inside:
  fixes E :: "(64, 'b) env" and w :: "(64, 'b, 'm) stream_world_scheme"
  assumes "env_ok E" "zstd_end_progress (zstd E)" "cp_used c w0 w"
    and call: "compressor_finish E c \<lparr>span_data = at_out at, span_size = fuzz_array\<rparr> w = Inr (Inr f, w')"
  shows "bytes_produced f \<le> fuzz_array"
proof -
  have w: "wf_world w" "cp_ready c w" using assms(3) by (simp_all add: cp_used_def)
  show ?thesis
    using compressor_call_cases(3) [OF call] visit_counts(3) [OF assms(1) w(1) _ assms(2)] cp_ready_variant [OF w(2)]
    by fastforce
qed

section \<open>The loops end\<close>

text \<open>
  Of a decompressing stream it is used that it holds only finitely much output for the input it
  has taken: \<open>pend\<close> measures it, and a call of \<open>inflate\<close> that takes no input but gives output
  has less left.
\<close>

definition zlib_drains :: "('l::len, 'b) zlib_api \<Rightarrow> ('b \<Rightarrow> nat) \<Rightarrow> bool" where
  "zlib_drains Z pend \<longleftrightarrow> (\<forall>st fl m L r st' m' L' b b'.
     L (zstate st) = Some b \<longrightarrow> inflate Z st fl m L = (r, st', m', L') \<longrightarrow> L' (zstate st) = Some b' \<longrightarrow>
     taken st st' = 0 \<longrightarrow> given st st' \<noteq> 0 \<longrightarrow> pend b' < pend b)"

text \<open>
  Of a compressing stream the same is used, and only of calls without a flush: a flush can give
  bytes for no input as often as it is asked for.
\<close>

definition zlib_deflate_drains :: "('l::len, 'b) zlib_api \<Rightarrow> ('b \<Rightarrow> nat) \<Rightarrow> bool" where
  "zlib_deflate_drains Z pend \<longleftrightarrow> (\<forall>st m L r st' m' L' b b'.
     L (zstate st) = Some b \<longrightarrow> deflate Z st Z_NO_FLUSH m L = (r, st', m', L') \<longrightarrow> L' (zstate st) = Some b' \<longrightarrow>
     taken st st' = 0 \<longrightarrow> given st st' \<noteq> 0 \<longrightarrow> pend b' < pend b)"

text \<open>A decompressor that holds an open zlib stream, and what that stream has left to give.\<close>

definition open_sweller :: "decompressor \<Rightarrow> zlib_sweller \<Rightarrow> ('l::len, 'b, 'm) stream_world_scheme \<Rightarrow> bool" where
  "open_sweller d h w \<longleftrightarrow> wf_world w \<and> dimpls w (dp_impl d) = Some (Zlib_Sweller h) \<and>
     (\<exists>st. zstreams w (zsw_stream h) = Some st \<and> zstate st \<in> dom (lib w))"

definition undelivered :: "('b \<Rightarrow> nat) \<Rightarrow> addr \<Rightarrow> ('l::len, 'b, 'm) world_scheme \<Rightarrow> nat" where
  "undelivered pend p w = (case zstreams w p of None \<Rightarrow> 0 | Some st \<Rightarrow> pend (the (lib w (zstate st))))"

lemma fuzz_chunk_size:
  fixes pos len :: u64
  assumes "pos < len"
  shows "fuzz_chunk byte pos len \<noteq> 0" "fuzz_chunk byte pos len \<le> len - pos" "unat (fuzz_chunk byte pos len) \<le> 64"
proof -
  have "byte AND 0x3f \<le> 0x3f" by (rule word_and_le1)
  then have b: "unat (byte AND 0x3f) \<le> 63" by (simp add: word_le_nat_alt)
  then have s: "unat (ucast (byte AND 0x3f) + 1 :: u64) = unat (byte AND 0x3f) + 1"
    by (simp add: unat_word_ariths unsigned_ucast_eq take_bit_eq_mod)
  have "pos \<noteq> len" using assms by simp
  then have "len - pos \<noteq> 0" by simp
  moreover have "(ucast (byte AND 0x3f) + 1 :: u64) \<noteq> 0" using s by (metis add_is_0 one_neq_zero unsigned_0)
  ultimately show "fuzz_chunk byte pos len \<noteq> 0" by (simp add: fuzz_chunk_def Let_def)
  show "fuzz_chunk byte pos len \<le> len - pos" by (auto simp: fuzz_chunk_def Let_def)
  show "unat (fuzz_chunk byte pos len) \<le> 64"
    using s b by (auto simp: fuzz_chunk_def Let_def word_less_nat_alt)
qed

text \<open>One push of the reading loop.\<close>

lemma open_push:
  fixes w :: "(64, 'b, 'm) stream_world_scheme"
  assumes E: "env_ok E" "zlib_code_contract (zlib E)" "zlib_drains (zlib E) pend" and o: "open_sweller d h w"
    and small: "small i" "small out" "span_size i \<noteq> 0" "span_size out \<noteq> 0"
    and call: "decompressor_push E d i out w = Inr (Inr r, w')" "\<not> sr_done r"
  shows "open_sweller d h w'" "bytes_consumed r \<le> span_size i"
    "bytes_consumed r = 0 \<Longrightarrow> undelivered pend (zsw_stream h) w' < undelivered pend (zsw_stream h) w"
proof -
  obtain st where w: "wf_world w" "dimpls w (dp_impl d) = Some (Zlib_Sweller h)"
    and st0: "zstreams w (zsw_stream h) = Some st" "zstate st \<in> dom (lib w)"
    using o by (auto simp: open_sweller_def)
  note law = lawful_backends(1) [OF E(1)]
  have rdy: "zready (zsw_stream h) w" using st0 by (simp add: zready_def)
  from zcall_defined [OF this] obtain z where z: "zcall (inflate (zlib E)) (zsw_stream h) Z_NO_FLUSH i out w = Inr z"
    by blast
  have r: "(zc_ret z = Z_OK \<or> zc_ret z = Z_BUF_ERROR)" "bytes_consumed r = zc_consumed z" "w' = zc_world z"
    using call by (auto simp: decompressor_push_def decompressor_handle_def w(2) zlib_sweller_push_more_def z
        adapt_def stream_reply_of_def split: if_splits)
  obtain st1 st' m L where c: "zstreams w (zsw_stream h) = Some st1" "zstate st' = zstate st1"
    "inflate (zlib E) (set_windows i out st1) Z_NO_FLUSH (mem w) (lib w) = (zc_ret z, st', m, L)"
    "zc_world z = w\<lparr>mem := m, lib := L, zstreams := (zstreams w)(zsw_stream h \<mapsto> st')\<rparr>"
    and n: "taken (set_windows i out st1) st' = unat (zc_consumed z)"
      "given (set_windows i out st1) st' = unat (zc_produced z)"
    using zlib_contract_steps(2) [OF law] w(1) z by (rule zcall_moves)
  have st: "st1 = st" using st0 c(1) by simp
  have nl: "0 \<notin> dom (lib w)" using w(1) by (simp add: wf_world_def)
  have dom: "dom L = dom (lib w)"
    using zlib_step_okD(2) [OF zlib_contract_steps(2) [OF law] nl c(3)] by (simp add: only_object_def)
  from zcall_frame(2) [OF zlib_contract_steps(2) [OF law] w(1) rdy z] show "open_sweller d h w'"
    using w st0 c st dom by (simp add: open_sweller_def r(3))
  show "bytes_consumed r \<le> span_size i"
    using zcall_counts(1) [OF zlib_contract_steps(2) [OF law] w(1) z] r(2) by simp
  show "undelivered pend (zsw_stream h) w' < undelivered pend (zsw_stream h) w" if none: "bytes_consumed r = 0"
  proof -
    have t: "taken (set_windows i out st1) st' = 0" using n(1) none r(2) by simp
    have "avail_in st' = 0 \<or> avail_out st' = 0" using E(2) c(3) r(1) unfolding zlib_code_contract_def by blast
    moreover have "avail_in st' \<noteq> 0"
      using t small(1,3) by (auto simp: taken_def small_def unat_to_uInt_small unat_eq_0)
    ultimately have g: "given (set_windows i out st1) st' \<noteq> 0"
      using small(2,4) by (auto simp: given_def small_def unat_to_uInt_small unat_eq_0)
    have "zstate st \<in> dom L" using st0(2) dom by simp
    then obtain b b' where b: "lib w (zstate (set_windows i out st1)) = Some b" "L (zstate (set_windows i out st1)) = Some b'"
      using st0(2) st by auto
    have "pend b' < pend b"
      using E(3) [unfolded zlib_drains_def, rule_format, OF b(1) c(3) b(2) t g] .
    then show ?thesis using b c st st0 by (simp add: undelivered_def r(3))
  qed
qed

lemma fuzz_read_ends:
  fixes w :: "(64, 'b, 'm) stream_world_scheme"
  assumes E: "env_ok E" "zlib_code_contract (zlib E)" "zlib_drains (zlib E) pend"
    and F: "m_bytes_in F = bytes_consumed" and o: "open_sweller d h w"
  shows "fuzz_read_loop E F at n len d cpos w \<noteq> None"
  using o
proof (induction "(unat len - unat cpos, undelivered pend (zsw_stream h) w)" arbitrary: cpos w
    rule: wf_induct_rule [OF wf_lex_prod [OF wf_less_than wf_less_than]])
  case 1
  let ?i = "\<lparr>span_data = at_out at + unat cpos, span_size = fuzz_chunk (mem w (at_data at + unat (cpos mod n))) cpos len\<rparr>"
  let ?o = "\<lparr>span_data = at_back at, span_size = fuzz_array\<rparr>"
  show ?case
  proof (cases "cpos < len")
    case True
    note ch = fuzz_chunk_size [OF True, of "mem w (at_data at + unat (cpos mod n))"]
    have sm: "small ?i" "small ?o" "span_size ?i \<noteq> 0" "span_size ?o \<noteq> 0"
      using ch(1,3) by (simp_all add: small_def fuzz_array_def)
    have step: "fuzz_read_loop E F at n len d cpos w = (case decompressor_push E d ?i ?o w of
          Inl e \<Rightarrow> Some (Inl e)
        | Inr (Inl e, w1) \<Rightarrow> Some (Inr w1)
        | Inr (Inr r, w1) \<Rightarrow>
            if sr_done r then Some (Inr w1) else fuzz_read_loop E F at n len d (cpos + bytes_consumed r) w1)"
      unfolding F [symmetric] using True by (subst fuzz_read_loop.simps) simp
    have go: "fuzz_read_loop E F at n len d (cpos + bytes_consumed r) w1 \<noteq> None"
      if call: "decompressor_push E d ?i ?o w = Inr (Inr r, w1)" "\<not> sr_done r" for r w1
    proof (rule "1.hyps")
      note p = open_push [OF E "1.prems" sm call]
      show "open_sweller d h w1" by (rule p(1))
      have k: "unat (cpos + bytes_consumed r) = unat cpos + unat (bytes_consumed r)" "cpos + bytes_consumed r \<le> len"
        using unat_grown [of cpos len "bytes_consumed r"] True p(2) ch(2) by (auto intro: order_trans)
      show "((unat len - unat (cpos + bytes_consumed r), undelivered pend (zsw_stream h) w1),
          unat len - unat cpos, undelivered pend (zsw_stream h) w) \<in> less_than <*lex*> less_than"
      proof (cases "bytes_consumed r = 0")
        case False
        then have "unat (bytes_consumed r) \<noteq> 0" by (simp add: unat_eq_0)
        then have "unat len - unat (cpos + bytes_consumed r) < unat len - unat cpos"
          using k by (simp add: word_le_nat_alt)
        then show ?thesis by simp
      qed (use p(3) in simp)
    qed
    show ?thesis unfolding step using go by (auto split: sum.split)
  next
    case False
    then show ?thesis by (subst fuzz_read_loop.simps) simp
  qed
qed

text \<open>What a compressor's zlib stream has left to give.\<close>

definition held_back :: "('b \<Rightarrow> nat) \<Rightarrow> compressor \<Rightarrow> ('l::len, 'b, 'm) stream_world_scheme \<Rightarrow> nat" where
  "held_back pend c w = (case cimpls w (cp_impl c) of
     Some (Zlib_Squeezer h) \<Rightarrow> undelivered pend (zsq_stream h) w | _ \<Rightarrow> 0)"

lemma push_drains:
  fixes w :: "(64, 'b, 'm) stream_world_scheme"
  assumes E: "env_ok E" "zlib_deflate_drains (zlib E) pend" and w: "wf_world w" "cp_history K f c w hs" "f \<noteq> Fmt_Zstd"
    and call: "compressor_push E c i out w = Inr (Inr r, w')" and r: "bytes_consumed r = 0" "bytes_produced r \<noteq> 0"
  shows "held_back pend c w' < held_back pend c w"
proof -
  obtain h where h: "cimpls w (cp_impl c) = Some (Zlib_Squeezer h)" "zready (zsq_stream h) w"
    "stream_history (z_out K) (window_bits_for f) (zsq_stream h) w hs"
    using w(2,3) by (rule zlib_variant)
  obtain z where z: "zcall (deflate (zlib E)) (zsq_stream h) Z_NO_FLUSH i out w = Inr z"
    using zcall_defined [OF h(2)] by blast
  have n: "bytes_consumed r = zc_consumed z" "bytes_produced r = zc_produced z" "w' = zc_world z"
    using call by (auto simp: compressor_push_def compressor_handle_def h(1) zlib_squeezer_push_more_def z
        adapt_def stream_reply_of_def split: if_splits)
  note law = lawful_backends(1) [OF E(1)]
  obtain st st' m L where c: "zstreams w (zsq_stream h) = Some st" "zstate st' = zstate st"
    "deflate (zlib E) (set_windows i out st) Z_NO_FLUSH (mem w) (lib w) = (zc_ret z, st', m, L)"
    "zc_world z = w\<lparr>mem := m, lib := L, zstreams := (zstreams w)(zsq_stream h \<mapsto> st')\<rparr>"
    and k: "taken (set_windows i out st) st' = unat (zc_consumed z)"
      "given (set_windows i out st) st' = unat (zc_produced z)"
    using zlib_contract_steps(1) [OF law] w(1) z by (rule zcall_moves)
  have "0 \<notin> dom (lib w)" using w(1) by (simp add: wf_world_def)
  from zlib_step_okD(2) [OF zlib_contract_steps(1) [OF law] this c(3)] have "dom L = dom (lib w)"
    by (simp add: only_object_def)
  moreover have "zstate st \<in> dom (lib w)" using h(3) c(1) by (auto simp: stream_history_def)
  ultimately obtain b b' where b: "lib w (zstate (set_windows i out st)) = Some b"
    "L (zstate (set_windows i out st)) = Some b'" by (auto dest: equalityD2 [THEN subsetD])
  have "taken (set_windows i out st) st' = 0" "given (set_windows i out st) st' \<noteq> 0"
    using k r n by (simp_all add: unat_eq_0)
  with E(2) [unfolded zlib_deflate_drains_def, rule_format, OF b(1) c(3) b(2)] have "pend b' < pend b" .
  then show ?thesis using b c h(1) by (simp add: held_back_def undelivered_def n(3))
qed

text \<open>Where the target puts its arrays.\<close>

definition fuzz_placed :: "places \<Rightarrow> u64 \<Rightarrow> bool" where
  "fuzz_placed at n \<longleftrightarrow> at_data at \<noteq> 0 \<and> at_out at \<noteq> 0 \<and> apart (at_data at) (unat n) (at_out at) (unat fuzz_array)"

text \<open>Between two pushes: the stream has taken the first \<open>pos\<close> bytes of the data.\<close>

definition feeding ::
  "'b stream_codec \<Rightarrow> places \<Rightarrow> u64 \<Rightarrow> u8 list \<Rightarrow> compressor \<Rightarrow> u64 \<Rightarrow> (64, 'b, 'm) stream_world_scheme \<Rightarrow> u8 list \<Rightarrow> bool" where
  "feeding K at n data c pos w gs \<longleftrightarrow> wf_world w \<and> pos \<le> n \<and> bytes_at (mem w) (at_data at) (unat n) = data \<and>
     cp_history K Fmt_Zlib c w \<lparr>h_phase = Running, h_taken = take (unat pos) data, h_given = gs\<rparr>"

lemma feeding_push:
  fixes w :: "(64, 'b, 'm) stream_world_scheme"
  assumes E: "env_ok E" "compresses_streams E K" and at: "fuzz_placed at n"
    and f: "feeding K at n data c pos w gs" and pos: "pos < n"
  defines "i \<equiv> \<lparr>span_data = at_data at + unat pos, span_size = fuzz_chunk (mem w (at_data at + unat pos)) pos n\<rparr>"
    and "out \<equiv> \<lparr>span_data = at_out at, span_size = fuzz_array\<rparr>"
  obtains r w' where "compressor_push E c i out w = Inr (Inr r, w')"
    "feeding K at n data c (pos + bytes_consumed r) w' (gs @ head_of (mem w') out (bytes_produced r))"
    "unat (pos + bytes_consumed r) = unat pos + unat (bytes_consumed r)"
    "bytes_consumed r \<noteq> 0 \<or> bytes_produced r \<noteq> 0"
proof -
  note ch = fuzz_chunk_size [OF pos, of "mem w (at_data at + unat pos)"]
  let ?hs = "\<lparr>h_phase = Running, h_taken = take (unat pos) data, h_given = gs\<rparr>"
  have w: "wf_world w" "cp_history K Fmt_Zlib c w ?hs" and d: "bytes_at (mem w) (at_data at) (unat n) = data"
    using f by (simp_all add: feeding_def)
  have sm: "small i" "small out" "span_size i \<noteq> 0" "span_size out \<noteq> 0"
    using ch(1,3) by (simp_all add: small_def fuzz_array_def i_def out_def)
  have inside: "unat pos + unat (span_size i) \<le> unat n"
    using unat_grown [OF order.strict_implies_order [OF pos] ch(2)] by (simp add: i_def word_le_nat_alt)
  have ap: "spans_valid i out"
    using at inside by (auto simp: spans_defs fuzz_placed_def apart_def i_def out_def)
  obtain r w' where call: "compressor_push E c i out w = Inr (Inr r, w')"
    and stop: "bytes_consumed r = span_size i \<or> bytes_produced r = span_size out"
    by (rule zlib_push_works [OF E w _ _ ap sm(1,2)]) simp_all
  have rdy: "cp_ready c w" by (rule cp_history_ready [OF w(2)])
  have n: "bytes_consumed r \<le> span_size i"
    using compressor_call_cases(1) [OF call] visit_counts(1) [OF E(1) w(1)] cp_ready_variant [OF rdy] by fastforce
  then have n': "bytes_consumed r \<le> n - pos" using ch(2) by (simp add: i_def)
  note g = unat_grown [OF order.strict_implies_order [OF pos] n']
  have out: "same_outside (mem w) (mem w') (at_out at) (unat fuzz_array)"
    using compressor_push.op_writes [OF E(1) w(1) rdy call] by (simp add: out_def)
  have d': "bytes_at (mem w') (at_data at) (unat n) = data"
    using same_outside_bytes [OF out] at d by (simp add: fuzz_placed_def)
  have "take (unat pos) data @ head_of (mem w) i (bytes_consumed r) = take (unat (pos + bytes_consumed r)) data"
    using g by (simp add: d [symmetric] head_of_def i_def take_bytes_at word_le_nat_alt bytes_at_add)
  moreover have "spans_apart i out" using ap by (simp add: spans_valid_def)
  ultimately have "feeding K at n data c (pos + bytes_consumed r) w' (gs @ head_of (mem w') out (bytes_produced r))"
    using compressor_push_history [OF E w _ _ call] g(2) d' by (simp add: feeding_def moved_history)
  from that [OF call this g(1)] stop sm(3,4) show thesis by auto
qed

text \<open>So the first loop ends, with all of the data taken.\<close>

lemma fuzz_push_ends:
  fixes w :: "(64, 'b, 'm) stream_world_scheme"
  assumes E: "env_ok E" "compresses_streams E K" "zlib_deflate_drains (zlib E) pend"
    and at: "fuzz_placed at n" and F: "m_bytes_in F = bytes_consumed" and f: "feeding K at n data c pos w gs"
  shows "\<exists>w' gs'. fuzz_push_loop E F at n c pos w = Some (Inr (True, w')) \<and> feeding K at n data c n w' gs'"
  using f
proof (induction "(unat n - unat pos, held_back pend c w)" arbitrary: pos w gs
    rule: wf_induct_rule [OF wf_lex_prod [OF wf_less_than wf_less_than]])
  case (1 pos w gs)
  show ?case
  proof (cases "pos < n")
    case True
    let ?o = "\<lparr>span_data = at_out at, span_size = fuzz_array\<rparr>"
    obtain r w' where call: "compressor_push E c
        \<lparr>span_data = at_data at + unat pos, span_size = fuzz_chunk (mem w (at_data at + unat pos)) pos n\<rparr> ?o w = Inr (Inr r, w')"
      and f': "feeding K at n data c (pos + bytes_consumed r) w' (gs @ head_of (mem w') ?o (bytes_produced r))"
      and g: "unat (pos + bytes_consumed r) = unat pos + unat (bytes_consumed r)"
      and some: "bytes_consumed r \<noteq> 0 \<or> bytes_produced r \<noteq> 0"
      by (rule feeding_push [OF E(1,2) at "1.prems" True])
    have loop: "fuzz_push_loop E F at n c pos w = fuzz_push_loop E F at n c (pos + bytes_consumed r) w'"
      using call True F by (subst fuzz_push_loop.simps) simp
    have le: "unat (pos + bytes_consumed r) \<le> unat n" using f' by (simp add: feeding_def word_le_nat_alt)
    have w: "wf_world w" "cp_history K Fmt_Zlib c w \<lparr>h_phase = Running, h_taken = take (unat pos) data, h_given = gs\<rparr>"
      using "1.prems" by (simp_all add: feeding_def)
    have "((unat n - unat (pos + bytes_consumed r), held_back pend c w'), unat n - unat pos, held_back pend c w)
        \<in> less_than <*lex*> less_than"
    proof (cases "bytes_consumed r = 0")
      case True
      then show ?thesis using push_drains [OF E(1,3) w _ call True] some by simp
    next
      case False
      then have "unat (bytes_consumed r) \<noteq> 0" by (simp add: unat_eq_0)
      then have "unat n - unat (pos + bytes_consumed r) < unat n - unat pos" using g le by linarith
      then show ?thesis by simp
    qed
    from "1.hyps" [OF this f'] show ?thesis unfolding loop .
  next
    case False
    then have "pos = n" using "1.prems" by (simp add: feeding_def)
    then show ?thesis using "1.prems" by (subst fuzz_push_loop.simps) auto
  qed
qed

text \<open>
  What is then decompressed is not the stream: each push wrote to the start of the array, so the
  array holds the part \<open>ys\<close> of the stream that \<open>finish\<close> gave, after the part \<open>gs\<close> that the
  pushes gave.
\<close>

lemma fuzz_reads_tail:
  fixes w :: "(64, 'b, 'm) stream_world_scheme"
  assumes E: "env_ok E" "compresses_streams E K" "zlib_deflate_drains (zlib E) pend"
    and e: "zstd_end_progress (zstd E)" and at: "fuzz_placed at n" and F: "m_bytes_in F = bytes_consumed"
    and f: "feeding K at n data c 0 w []"
    and push: "fuzz_push_loop E F at n c 0 w = Some (Inr (True, w1))"
    and fin: "compressor_finish E c \<lparr>span_data = at_out at, span_size = fuzz_array\<rparr> w1 = Inr (Inr r, w2)"
  shows "\<exists>gs. feeding K at n data c n w1 gs \<and>
    (bytes_produced r \<noteq> fuzz_array \<longrightarrow>
      z_stream_of K (window_bits_for Fmt_Zlib) (gs @ bytes_at (mem w2) (at_out at) (unat (bytes_produced r))) data)"
proof -
  obtain gs where gs: "feeding K at n data c n w1 gs" using fuzz_push_ends [OF E at F f] push by auto
  let ?hs = "\<lparr>h_phase = Running, h_taken = take (unat n) data, h_given = gs\<rparr>"
  have h: "wf_world w1" "cp_history K Fmt_Zlib c w1 ?hs" and d: "take (unat n) data = data"
    using gs by (auto simp: feeding_def)
  have "h_phase ?hs \<noteq> Ended" by simp
  from compressor_finish_history(1) [OF E(1,2) e h this fin] d
  have "bytes_produced r \<noteq> fuzz_array \<longrightarrow> is_stream_of K Fmt_Zlib
      (gs @ head_of (mem w2) \<lparr>span_data = at_out at, span_size = fuzz_array\<rparr> (bytes_produced r)) data"
    by (auto simp: finished_def small_def fuzz_array_def)
  with gs show ?thesis by (auto simp: is_stream_of_def head_of_def)
qed

section \<open>The target\<close>

definition fuzz_promises ::
  "(64, 'b) env \<Rightarrow> 'b stream_codec \<Rightarrow> ('b \<Rightarrow> nat) \<Rightarrow> places \<Rightarrow> u64 \<Rightarrow> bool" where
  "fuzz_promises E K pend at n \<longleftrightarrow> has_zlib E \<and> compresses_streams E K \<and> decompresses_streams E K \<and>
     zlib_deflate_drains (zlib E) pend \<and> zlib_drains (zlib E) pend \<and> fuzz_placed at n"

text \<open>
  C39: the fuzz target of the streaming layer. Whatever its two undeclared members are, as long
  as the libraries keep their heap contracts, a run fails no assertion, uses no dead object and
  leaves nothing allocated, or it never returns; and with \<open>bytes_in\<close> read as \<open>bytes_consumed\<close> it
  does return, under the streaming promises of zlib and when its streams hold back only finitely
  many bytes between flushes, even though the output array is reused and what is decompressed
  need not be a stream.
\<close>

theorem fuzz_stream_ends:
  fixes w :: "(64, 'b, 'm) stream_world_scheme"
  assumes "env_ok E" "zstd_end_progress (zstd E)" "wf_stream w" "spare_objects E w"
  shows "((\<exists>w'. fuzz_stream E F at n w = Inr (Inr 0, w') \<and> same_heap w w') \<or>
      fuzz_stream E F at n w = Inl Never_Returns) \<and>
    (m_bytes_in F = bytes_consumed \<and> fuzz_promises E K pend at n \<longrightarrow>
      fuzz_stream E F at n w \<noteq> Inl Never_Returns)"
proof (cases "n = 0")
  case True
  then show ?thesis by (simp add: fuzz_stream_def same_heap_def)
next
  case False
  then show ?thesis
  proof (rule fuzz_stream_cases [OF assms, where F = F and at = at])
    fix w' assume "fuzz_stream E F at n w = Inr (Inr 0, w')" "same_heap w w'"
    then show ?thesis by simp
  next
    fix c and v v' :: "(64, 'b, 'm) stream_world_scheme"
    assume r: "fuzz_stream E F at n w = Inl Never_Returns" "allocations_succeed E v"
      "compressor_new E Fmt_Zlib zlib_default_level v = Inr (Inr c, v')" "cp_used c v' v'"
      "fuzz_push_loop E F at n c 0 v' = None"
    have False if F: "m_bytes_in F = bytes_consumed" and p: "fuzz_promises E K pend at n"
    proof -
      have K: "compresses_streams E K" "stream_backend E Fmt_Zlib" "fuzz_placed at n"
        "zlib_deflate_drains (zlib E) pend"
        using p by (simp_all add: fuzz_promises_def stream_backend_def)
      have "feeding K at n (bytes_at (mem v') (at_data at) (unat n)) c 0 v' []"
        using compressor_new_history [OF K(1,2) r(2,3)] r(4) by (simp add: feeding_def new_history_def cp_used_def)
      from fuzz_push_ends [OF assms(1) K(1,4,3) F this] r(5) show False by auto
    qed
    with r(1) show ?thesis by blast
  next
    fix len d and v v' :: "(64, 'b, 'm) stream_world_scheme"
    assume r: "fuzz_stream E F at n w = Inl Never_Returns" "allocations_succeed E v"
      "decompressor_new E Fmt_Zlib v = Inr (d, v')" "dp_used d v' v'" "fuzz_read_loop E F at n len d 0 v' = None"
    have False if F: "m_bytes_in F = bytes_consumed" and p: "fuzz_promises E K pend at n"
    proof -
      have K: "decompresses_streams E K" "stream_backend E Fmt_Zlib" "zlib_drains (zlib E) pend"
        using p by (simp_all add: fuzz_promises_def stream_backend_def)
      have codes: "zlib_code_contract (zlib E)" using K(1) by (simp add: decompresses_streams_def)
      have "dp_history K Fmt_Zlib d v' new_history" by (rule decompressor_new_history [OF K(1,2) r(2,3)])
      then obtain u where u: "dimpls v' (dp_impl d) = Some u" "sw_history K Fmt_Zlib u v' new_history"
        by (auto simp: dp_history_def)
      then obtain h where "open_sweller d h v'"
        using r(4) by (cases u) (auto simp: open_sweller_def stream_history_def dp_used_def)
      from fuzz_read_ends [OF assms(1) codes K(3) F this] r(5) show False by blast
    qed
    with r(1) show ?thesis by blast
  qed
qed

lemma ref_scan_none: "ref_scan n md xs = (n', md', ys, left) \<Longrightarrow> length left = length xs \<Longrightarrow> ys = []"
  by (induction n md xs arbitrary: n' md' ys left rule: ref_scan.induct)
    (auto dest: ref_scan_left split: if_splits prod.splits)

definition ref_pending :: "ref_state \<Rightarrow> nat" where
  "ref_pending b = (case b of Ref_Dec skip md pend \<Rightarrow> length pend | Ref_Enc pend fin \<Rightarrow> length pend)"

lemma ref_deflate_drains: "zlib_deflate_drains (ref_zlib os) ref_pending"
  unfolding zlib_deflate_drains_def
proof (intro allI impI)
  fix st m and L :: "addr \<rightharpoonup> ref_state" and r st' m' L' b b'
  assume a: "L (zstate st) = Some b" "deflate (ref_zlib os) st Z_NO_FLUSH m L = (r, st', m', L')" "L' (zstate st) = Some b'"
    "taken st st' = 0" "given st st' \<noteq> 0"
  show "ref_pending b' < ref_pending b"
  proof (cases "\<exists>pend fin. b = Ref_Enc pend fin")
    case False
    then have "deflate (ref_zlib os) st Z_NO_FLUSH m L = (Z_STREAM_ERROR, st, m, L)"
      using a(1) by (cases b) (auto simp: ref_deflate_def)
    then show ?thesis using a(2,5) by (simp add: given_def)
  next
    case True
    then obtain pend fin where b: "b = Ref_Enc pend fin" by blast
    have c: "ref_deflate st Z_NO_FLUSH m L = (r, st', m', L')" and l: "L (zstate st) = Some (Ref_Enc pend fin)"
      using a(1,2) b by simp_all
    note k = ref_deflate_call(3,4) [OF c l]
    have none: "avail_in st = 0" using k(1) a(4) by (simp add: unat_eq_0)
    have "b' = Ref_Enc (drop (unat (avail_out st)) pend) fin"
      using c a(3) none unfolding ref_deflate_def l
      by (auto simp: Let_def ref_finish_call_def split: if_splits)
    then show ?thesis using k(2) a(5) b none by (auto simp: ref_pending_def)
  qed
qed

lemma ref_drains: "zlib_drains (ref_zlib os) ref_pending"
  unfolding zlib_drains_def
proof (intro allI impI)
  fix st fl m and L :: "addr \<rightharpoonup> ref_state" and r st' m' L' b b'
  assume a: "L (zstate st) = Some b" "inflate (ref_zlib os) st fl m L = (r, st', m', L')" "L' (zstate st) = Some b'"
    "taken st st' = 0" "given st st' \<noteq> 0"
  show "ref_pending b' < ref_pending b"
  proof (cases "\<exists>skip md pend. b = Ref_Dec skip md pend")
    case False
    with a(1) have "L (zstate st) \<noteq> Some (Ref_Dec skip md pend)" for skip md pend by auto
    then have "ref_inflate st fl m L = (Z_STREAM_ERROR, st, m, L)" by (rule ref_inflate_other)
    then show ?thesis using a(2,5) by (simp add: given_def)
  next
    case True
    then obtain skip md pend where b: "b = Ref_Dec skip md pend" by blast
    obtain skip' md' new left where sc: "ref_scan skip md (bytes_at m (next_in st) (unat (avail_in st))) = (skip', md', new, left)"
      by (metis prod_cases4)
    have c: "ref_inflate st fl m L = (r, st', m', L')" and l: "L (zstate st) = Some (Ref_Dec skip md pend)" using a(1,2) b by simp_all
    note k = ref_inflate_call(3,4) [OF c l sc]
    have "length left = unat (avail_in st)" using k(1) a(4) ref_scan_left [OF sc] by simp
    then have new: "new = []" using ref_scan_none [OF sc] by simp
    have "b' = Ref_Dec skip' md' (drop (unat (avail_out st)) (pend @ new))"
      using c a(3) unfolding ref_inflate_def l
      by (auto simp: sc Let_def ref_finish_call_def split: if_splits)
    then show ?thesis using k(2) a(5) b new by (auto simp: ref_pending_def)
  qed
qed

definition fuzz_places :: places where
  "fuzz_places = \<lparr>at_data = 1000, at_out = 2000, at_back = 100000\<rparr>"

lemma fuzz_stream_ends_witness:
  "\<exists>w'. fuzz_stream (ref_env 3 True) \<lparr>m_bytes_in = bytes_consumed, m_bytes_out = bytes_produced\<rparr> fuzz_places 5 demo_stream
    = Inr (Inr 0, w') \<and> same_heap demo_stream w'"
proof -
  have "fuzz_promises (ref_env 3 True) (ref_codec 3) ref_pending fuzz_places 5"
    by (simp add: ref_deflate_drains ref_drains fuzz_promises_def fuzz_placed_def fuzz_places_def apart_def fuzz_array_def)
  with fuzz_stream_ends [OF _ _ demo_stream_ok(2) demo_spare, of 3 True
      "\<lparr>m_bytes_in = bytes_consumed, m_bytes_out = bytes_produced\<rparr>" fuzz_places 5 "ref_codec 3" ref_pending]
  show ?thesis by (simp add: ref_zstd_progress) blast
qed

end
