(* ===== verification/Allocation_Failures.thy ===== *)
theory Allocation_Failures
  imports One_Shot_Unfinished
begin

text \<open>
  What the one-shot calls do when the library has no memory. The constructors of
  \<open>src/detail/zlib.cpp\<close> and \<open>src/detail/zstd.cpp\<close> have no error result: they assert that the
  allocation succeeded. A debug build therefore stops there, and a release build goes on with what
  the failed call left behind: a stream without state, or a null context.
\<close>

section \<open>Running out of memory\<close>

text \<open>Every allocation that a handle makes fails in this state.\<close>

definition no_memory :: "('l::len, 'b) env \<Rightarrow> ('l, 'b, 'm) world_scheme \<Rightarrow> bool" where
  "no_memory E w \<longleftrightarrow>
     (\<forall>lvl wb. fst (deflateInit2 (zlib E) zero_stream lvl 8 wb 8 0 (lib w)) \<noteq> Z_OK) \<and>
     (\<forall>wb. fst (inflateInit2 (zlib E) zero_stream wb (lib w)) \<noteq> Z_OK) \<and>
     fst (ZSTD_createCCtx (zstd E) (lib w)) = 0 \<and> fst (ZSTD_createDCtx (zstd E) (lib w)) = 0"

text \<open>\<open>zlib.h\<close>: a call on a stream whose state is missing returns \<open>Z_STREAM_ERROR\<close> and does nothing.\<close>

definition zlib_refuses_stateless :: "('l::len, 'b) zlib_api \<Rightarrow> bool" where
  "zlib_refuses_stateless Z \<longleftrightarrow> (\<forall>st fl m L. zstate st = 0 \<longrightarrow> 0 \<notin> dom L \<longrightarrow>
     deflate Z st fl m L = (Z_STREAM_ERROR, st, m, L) \<and> inflate Z st fl m L = (Z_STREAM_ERROR, st, m, L))"

lemma failed_init:
  assumes "zlib_init_ok init" "0 \<notin> dom L" "fst (init zero_stream L) \<noteq> Z_OK"
  obtains r st where "init zero_stream L = (r, st, L)" "r \<noteq> Z_OK" "zstate st = 0"
proof -
  obtain r st L' where i: "init zero_stream L = (r, st, L')" by (metis prod_cases3)
  have "zstate zero_stream = 0" by (simp add: zero_stream_def)
  with assms i have "zstate st = 0 \<and> L' = L" unfolding zlib_init_ok_def by (metis fst_conv)
  with that [of r st] i assms(3) show thesis by simp
qed

text \<open>What a release build has after a failed construction: a stream cell without state.\<close>

definition stateless :: "'l::len z_stream \<Rightarrow> ('l, 'b, 'm) world_scheme \<Rightarrow> ('l, 'b, 'm) world_scheme" where
  "stateless st w = w\<lparr>zstreams := (zstreams w)(brk w \<mapsto> st), brk := Suc (brk w)\<rparr>"

lemma zlib_new_failed:
  assumes law: "zlib_heap_contract (zlib E)" and w: "wf_world w" "no_memory E w" and nd: "ndebug E"
  shows "\<exists>st. zstate st = 0 \<and> zlib_squeezer_new E f lvl w = Inr (\<lparr>zsq_stream = brk w\<rparr>, stateless st w)"
    "\<exists>st. zstate st = 0 \<and> zlib_sweller_new E f w = Inr (\<lparr>zsw_stream = brk w\<rparr>, stateless st w)"
proof -
  have nl: "0 \<notin> dom (lib w)" using w(1) by (simp add: wf_world_def)
  have z: "zero_stream\<lparr>zalloc := 0, zfree := 0, opaque := 0\<rparr> = (zero_stream :: 'a z_stream)"
    "zero_stream\<lparr>next_in := 0, avail_in := 0\<rparr> = (zero_stream :: 'a z_stream)"
    by (simp_all add: zero_stream_def)
  have nm: "fst (deflateInit2 (zlib E) zero_stream (sint (zlib_level_int lvl)) 8 (window_bits_for f) 8 0 (lib w)) \<noteq> Z_OK"
    "fst (inflateInit2 (zlib E) zero_stream (window_bits_for f) (lib w)) \<noteq> Z_OK"
    using w(2) unfolding no_memory_def by blast+
  from failed_init [OF zlib_contract_steps(5) [OF law] nl nm(1)] obtain r st where
    "deflateInit2 (zlib E) zero_stream (sint (zlib_level_int lvl)) 8 (window_bits_for f) 8 0 (lib w) = (r, st, lib w)" "zstate st = 0" .
  then show "\<exists>st. zstate st = 0 \<and> zlib_squeezer_new E f lvl w = Inr (\<lparr>zsq_stream = brk w\<rparr>, stateless st w)"
    using z(1) nd by (auto simp: zlib_squeezer_new_def new_zstream_def stateless_def)
  from failed_init [OF zlib_contract_steps(6) [OF law] nl nm(2)] obtain r st where
    "inflateInit2 (zlib E) zero_stream (window_bits_for f) (lib w) = (r, st, lib w)" "zstate st = 0" .
  then show "\<exists>st. zstate st = 0 \<and> zlib_sweller_new E f w = Inr (\<lparr>zsw_stream = brk w\<rparr>, stateless st w)"
    using z nd by (auto simp: zlib_sweller_new_def new_zstream_def stateless_def)
qed

lemma zlib_new_asserts:
  assumes w: "no_memory E w" and nd: "\<not> ndebug E"
  shows "zlib_squeezer_new E f lvl w = Inl Assertion_Failed" "zlib_sweller_new E f w = Inl Assertion_Failed"
proof -
  have z: "zero_stream\<lparr>zalloc := 0, zfree := 0, opaque := 0\<rparr> = (zero_stream :: 'a z_stream)"
    "zero_stream\<lparr>next_in := 0, avail_in := 0\<rparr> = (zero_stream :: 'a z_stream)"
    by (simp_all add: zero_stream_def)
  have nm: "fst (deflateInit2 (zlib E) zero_stream (sint (zlib_level_int lvl)) 8 (window_bits_for f) 8 0 (lib w)) \<noteq> Z_OK"
    "fst (inflateInit2 (zlib E) zero_stream (window_bits_for f) (lib w)) \<noteq> Z_OK"
    using w unfolding no_memory_def by blast+
  show "zlib_squeezer_new E f lvl w = Inl Assertion_Failed" "zlib_sweller_new E f w = Inl Assertion_Failed"
    using nm nd by (auto simp: zlib_squeezer_new_def zlib_sweller_new_def new_zstream_def z split: prod.splits)
qed

text \<open>A call on such a stream reports an error of the wrong kind, and changes no memory.\<close>

lemma stateless_calls:
  assumes "zlib_refuses_stateless (zlib E)" "wf_world w" "zstate st = 0"
  shows "\<exists>v. zlib_squeezer_push E \<lparr>zsq_stream = brk w\<rparr> i out (stateless st w)
      = Inr (Inl (mk_error Backend_Failure Zlib_Id 0 ''deflate''), v) \<and> mem v = mem w"
    "\<exists>v off. zlib_sweller_push E \<lparr>zsw_stream = brk w\<rparr> i out (stateless st w)
      = Inr (Inl (mk_error Stream_Corrupt Zlib_Id off ''inflate''), v) \<and> mem v = mem w"
proof -
  have c: "zstreams (stateless st w) (brk w) = Some st" by (simp add: stateless_def)
  have "zstate (set_windows i out st) = 0" using assms(3) by (simp add: set_windows_def)
  moreover have "0 \<notin> dom (lib (stateless st w))" using assms(2) by (simp add: stateless_def wf_world_def)
  ultimately have "deflate (zlib E) (set_windows i out st) fl (mem (stateless st w)) (lib (stateless st w))
      = (Z_STREAM_ERROR, set_windows i out st, mem w, lib w)"
    "inflate (zlib E) (set_windows i out st) fl (mem (stateless st w)) (lib (stateless st w))
      = (Z_STREAM_ERROR, set_windows i out st, mem w, lib w)" for fl
    using assms(1) by (simp_all add: zlib_refuses_stateless_def stateless_def)
  note r = this(1) [THEN zcall_run [where call = "deflate (zlib E)", OF c]]
    this(2) [THEN zcall_run [where call = "inflate (zlib E)", OF c]]
  show "\<exists>v. zlib_squeezer_push E \<lparr>zsq_stream = brk w\<rparr> i out (stateless st w)
      = Inr (Inl (mk_error Backend_Failure Zlib_Id 0 ''deflate''), v) \<and> mem v = mem w"
    by (simp add: zlib_squeezer_push_def r)
  show "\<exists>v off. zlib_sweller_push E \<lparr>zsw_stream = brk w\<rparr> i out (stateless st w)
      = Inr (Inl (mk_error Stream_Corrupt Zlib_Id off ''inflate''), v) \<and> mem v = mem w"
    by (simp add: zlib_sweller_push_def r) blast
qed

lemma zlib_calls_without_memory:
  assumes E: "env_ok E" "zlib_refuses_stateless (zlib E)" and w: "wf_world w" "no_memory E w" and nd: "ndebug E"
  shows "\<exists>w'. zlib_squeeze E f lvl i out w = Inr (Inl (mk_error Backend_Failure Zlib_Id 0 ''deflate''), w') \<and>
      mem w' = mem w \<and> same_heap w w'"
    "\<exists>off w'. zlib_swell E f i out w = Inr (Inl (mk_error Stream_Corrupt Zlib_Id off ''inflate''), w') \<and>
      mem w' = mem w \<and> same_heap w w'"
proof -
  have law: "zlib_heap_contract (zlib E)" using E(1) by (simp add: env_ok_def)
  obtain st where new: "zstate st = 0" "zlib_squeezer_new E f lvl w = Inr (\<lparr>zsq_stream = brk w\<rparr>, stateless st w)"
    using zlib_new_failed(1) [OF law w nd] by blast
  obtain v where push: "zlib_squeezer_push E \<lparr>zsq_stream = brk w\<rparr> i out (stateless st w)
      = Inr (Inl (mk_error Backend_Failure Zlib_Id 0 ''deflate''), v)" "mem v = mem w"
    using stateless_calls(1) [OF E(2) w(1) new(1)] by blast
  have "reply_patched f out (Inl (mk_error Backend_Failure Zlib_Id 0 ''deflate''), v)
      = Inr (Inl (mk_error Backend_Failure Zlib_Id 0 ''deflate''), v\<lparr>mem := mem v\<rparr>)"
    by (simp add: reply_patched_def)
  then have "\<exists>w'. zlib_squeeze E f lvl i out w = Inr (Inl (mk_error Backend_Failure Zlib_Id 0 ''deflate''), w') \<and> mem w' = mem v"
    unfolding zlib_squeeze_def
    by (rule zlib_squeezer_once.one_call_value [where after = "reply_patched f out", OF law w(1) new(2) push(1)]) simp
  then show "\<exists>w'. zlib_squeeze E f lvl i out w = Inr (Inl (mk_error Backend_Failure Zlib_Id 0 ''deflate''), w') \<and>
      mem w' = mem w \<and> same_heap w w'"
    using zlib_squeeze_keeps [OF law w(1)] push(2) by metis
  obtain st' where new': "zstate st' = 0" "zlib_sweller_new E f w = Inr (\<lparr>zsw_stream = brk w\<rparr>, stateless st' w)"
    using zlib_new_failed(2) [OF law w nd] by blast
  obtain v' off where push': "zlib_sweller_push E \<lparr>zsw_stream = brk w\<rparr> i out (stateless st' w)
      = Inr (Inl (mk_error Stream_Corrupt Zlib_Id off ''inflate''), v')" "mem v' = mem w"
    using stateless_calls(2) [OF E(2) w(1) new'(1)] by blast
  have "reply (Inl (mk_error Stream_Corrupt Zlib_Id off ''inflate''), v')
      = Inr (Inl (mk_error Stream_Corrupt Zlib_Id off ''inflate''), v'\<lparr>mem := mem v'\<rparr>)"
    by (simp add: reply_def)
  then have "\<exists>w'. zlib_swell E f i out w = Inr (Inl (mk_error Stream_Corrupt Zlib_Id off ''inflate''), w') \<and> mem w' = mem v'"
    unfolding zlib_swell_def
    by (rule zlib_sweller_once.one_call_value [where after = reply, OF law w(1) new'(2) push'(1)]) simp
  then show "\<exists>off w'. zlib_swell E f i out w = Inr (Inl (mk_error Stream_Corrupt Zlib_Id off ''inflate''), w') \<and>
      mem w' = mem w \<and> same_heap w w'"
    using zlib_swell_keeps [OF law w(1)] push'(2) by metis
qed

text \<open>
  The one-shot \<open>push\<close> of \<open>zstd_sweller\<close> does not use its context, so a null one goes unnoticed: the
  call's result is that of \<open>ZSTD_decompress\<close> on the two spans. That function allocates its own
  context, so it may itself fail for want of memory, which is one of its error codes.
\<close>

lemma zstd_swell_without_memory:
  assumes "zstd_heap_contract (zstd E)" "wf_world w" "no_memory E w" "ndebug E"
    and "ZSTD_decompress (zstd E) (span_data out) (span_size out) (span_data i) (span_size i) (mem w) = (r, m)"
  shows "zstd_swell E i out w = Inr (if ZSTD_isError (zstd E) r then Inl (zstd_error Stream_Corrupt (zstd E) r)
      else Inr \<lparr>bytes_written = r\<rparr>, w\<lparr>mem := m\<rparr>)"
proof -
  obtain a L where c: "ZSTD_createDCtx (zstd E) (lib w) = (a, L)" by force
  have "a = 0" using assms(3) c unfolding no_memory_def by (metis fst_conv)
  moreover from this have "L = lib w"
    using assms(1,2) c unfolding zstd_heap_contract_def zstd_create_ok_def wf_world_def by metis
  ultimately show ?thesis
    using assms(4,5) c by (simp add: zstd_swell_def scoped_def zstd_sweller_new_def zstd_sweller_push_def
        zstd_sweller_delete_def reply_def Let_def)
qed

text \<open>
  C26: the one-shot calls where every allocation of a handle fails. A debug build stops at an
  assertion in each of the four calls. A release build reports \<open>backend_failure\<close> from a zlib
  \<open>squeeze\<close> and \<open>stream_corrupt\<close> from a zlib \<open>swell\<close>, without touching the output or leaking the
  stream cell; a zstd \<open>squeeze\<close> is undefined. A zstd \<open>swell\<close> never uses the null context that its
  handle holds: it returns what \<open>ZSTD_decompress\<close> makes of the two spans, with every error code of
  that function, one for lack of memory included, reported as \<open>stream_corrupt\<close>, and allocates and
  frees nothing. Nothing that any of these calls returns is \<open>out_of_memory\<close>.
\<close>

theorem failed_allocations:
  fixes w :: "('l::len, 'b, 'm) world_scheme"
  assumes "env_ok E" "zlib_refuses_stateless (zlib E)" "wf_world w" "no_memory E w"
    and "refusal E f lvl (span_size i) (span_size out) = None"
  shows "(\<not> ndebug E \<longrightarrow>
      squeeze E f lvl i out w = Inl Assertion_Failed \<and> swell E f i out w = Inl Assertion_Failed) \<and>
    (ndebug E \<and> f \<noteq> Fmt_Zstd \<longrightarrow>
      (\<exists>w'. squeeze E f lvl i out w = Inr (Inl (mk_error Backend_Failure Zlib_Id 0 ''deflate''), w') \<and>
        mem w' = mem w \<and> same_heap w w') \<and>
      (\<exists>off w'. swell E f i out w = Inr (Inl (mk_error Stream_Corrupt Zlib_Id off ''inflate''), w') \<and>
        mem w' = mem w \<and> same_heap w w')) \<and>
    (ndebug E \<and> f = Fmt_Zstd \<longrightarrow> squeeze E f lvl i out w = Inl Undefined_Behaviour \<and> (\<forall>r m.
      ZSTD_decompress (zstd E) (span_data out) (span_size out) (span_data i) (span_size i) (mem w) = (r, m) \<longrightarrow>
      swell E f i out w = Inr (if ZSTD_isError (zstd E) r then Inl (zstd_error Stream_Corrupt (zstd E) r)
        else Inr \<lparr>bytes_written = r\<rparr>, w\<lparr>mem := m\<rparr>))) \<and>
    (\<forall>e w'. squeeze E f lvl i out w = Inr (Inl e, w') \<or> swell E f i out w = Inr (Inl e, w') \<longrightarrow>
      err_k e \<noteq> Out_Of_Memory)"
proof -
  have sq: "squeeze E f lvl i out w = (if f = Fmt_Zstd then zstd_squeeze E lvl i out w else zlib_squeeze E f lvl i out w)"
    using assms(5) by (simp add: squeeze_branches)
  have "backend_present E f" using assms(5) by (simp add: refusal_None_iff)
  then have sw: "swell E f i out w = (if f = Fmt_Zstd then zstd_swell E i out w else zlib_swell E f i out w)"
    by (simp add: swell_branches)
  have create: "fst (ZSTD_createCCtx (zstd E) (lib w)) = 0" "fst (ZSTD_createDCtx (zstd E) (lib w)) = 0"
    using assms(4) by (simp_all add: no_memory_def)
  have zsq: "zstd_squeeze E lvl i out w = Inl (if ndebug E then Undefined_Behaviour else Assertion_Failed)"
    using create(1) by (cases "ZSTD_createCCtx (zstd E) (lib w)") (simp add: zstd_squeeze_def scoped_def zstd_squeezer_new_def)
  have "zstd_swell E i out w = Inl Assertion_Failed" if "\<not> ndebug E"
    using create(2) that by (cases "ZSTD_createDCtx (zstd E) (lib w)") (simp add: zstd_swell_def scoped_def zstd_sweller_new_def)
  moreover have "zlib_squeeze E f lvl i out w = Inl Assertion_Failed" "zlib_swell E f i out w = Inl Assertion_Failed"
    if "\<not> ndebug E"
    using zlib_new_asserts [OF assms(4) that] by (simp_all add: zlib_squeeze_def zlib_swell_def scoped_def)
  moreover have "zstd_heap_contract (zstd E)" using assms(1) by (simp add: env_ok_def)
  ultimately have calls: "(\<not> ndebug E \<longrightarrow>
      squeeze E f lvl i out w = Inl Assertion_Failed \<and> swell E f i out w = Inl Assertion_Failed)"
    "(ndebug E \<and> f \<noteq> Fmt_Zstd \<longrightarrow>
      (\<exists>w'. squeeze E f lvl i out w = Inr (Inl (mk_error Backend_Failure Zlib_Id 0 ''deflate''), w') \<and>
        mem w' = mem w \<and> same_heap w w') \<and>
      (\<exists>off w'. swell E f i out w = Inr (Inl (mk_error Stream_Corrupt Zlib_Id off ''inflate''), w') \<and>
        mem w' = mem w \<and> same_heap w w'))"
    "(ndebug E \<and> f = Fmt_Zstd \<longrightarrow> squeeze E f lvl i out w = Inl Undefined_Behaviour \<and> (\<forall>r m.
      ZSTD_decompress (zstd E) (span_data out) (span_size out) (span_data i) (span_size i) (mem w) = (r, m) \<longrightarrow>
      swell E f i out w = Inr (if ZSTD_isError (zstd E) r then Inl (zstd_error Stream_Corrupt (zstd E) r)
        else Inr \<lparr>bytes_written = r\<rparr>, w\<lparr>mem := m\<rparr>)))"
    unfolding sq sw using zsq zlib_calls_without_memory [OF assms(1-4)] zstd_swell_without_memory [OF _ assms(3,4)]
    by simp_all
  have "err_k e \<noteq> Out_Of_Memory"
    if "squeeze E f lvl i out w = Inr (Inl e, w') \<or> swell E f i out w = Inr (Inl e, w')" for e w'
  proof -
    obtain r m where d: "ZSTD_decompress (zstd E) (span_data out) (span_size out) (span_data i) (span_size i) (mem w) = (r, m)"
      by force
    show ?thesis
      using that calls d by (cases "ndebug E"; cases "f = Fmt_Zstd") (auto simp: zstd_error_def split: if_splits)
  qed
  with calls show ?thesis by blast
qed

text \<open>The reference engine with every object of its heap in use.\<close>

definition full_world :: "(64, ref_state) world" where
  "full_world = demo_world\<lparr>lib := (\<lambda>a. if 0 < a \<and> a < 64 then Some (Ref_Enc [] False) else None)\<rparr>"

lemma full_world_ok: "wf_world full_world" "no_memory (ref_env os nd) full_world"
proof -
  show "wf_world full_world" using demo_world_ok(1) by (auto simp: full_world_def wf_world_def)
  have "ref_fresh (lib full_world) = None" by (simp add: ref_fresh_def find_None_iff full_world_def)
  then show "no_memory (ref_env os nd) full_world"
    by (simp add: no_memory_def ref_init_def ref_create_def)
qed

lemma ref_refuses_stateless: "zlib_refuses_stateless (ref_zlib os)"
  by (auto simp: zlib_refuses_stateless_def ref_deflate_def ref_inflate_def domIff split: option.split ref_state.split)

lemma failed_allocations_witness:
  "squeeze (ref_env 3 False) Fmt_Gzip zlib_best demo_in demo_out full_world = Inl Assertion_Failed \<and>
   swell (ref_env 3 False) Fmt_Gzip demo_in demo_out full_world = Inl Assertion_Failed \<and>
   (\<exists>w'. squeeze (ref_env 3 True) Fmt_Gzip zlib_best demo_in demo_out full_world
      = Inr (Inl (mk_error Backend_Failure Zlib_Id 0 ''deflate''), w')) \<and>
   squeeze (ref_env 3 True) Fmt_Zstd zlib_best demo_in demo_out full_world = Inl Undefined_Behaviour"
proof -
  have r: "refusal (ref_env 3 nd) Fmt_Gzip zlib_best (span_size demo_in) (span_size demo_out) = None"
    "refusal (ref_env 3 nd) Fmt_Zstd zlib_best (span_size demo_in) (span_size demo_out) = None" for nd
    by (simp_all add: refusal_None_iff backend_present_def bound_def zlib_bound_def zstd_bound_def Let_def
        level_in_range_def zlib_best_def)
  have "zlib_refuses_stateless (zlib (ref_env 3 nd))" for nd using ref_refuses_stateless by simp
  note th = failed_allocations [OF ref_env_ok this full_world_ok(1) full_world_ok(2)]
  from th [OF r(1) [of False]] th [OF r(1) [of True]] th [OF r(2) [of True]] show ?thesis by auto
qed

end
