(* ===== verification/Allocation_Ledger.thy ===== *)
theory Allocation_Ledger
  imports Stream_Properties Variant_Types
begin

text \<open>
  What a statement over the streaming classes does to the heaps, cell by cell. \<open>stream.hpp\<close> says
  that a streaming object allocates twice, for the \<open>impl\<close> and for the backend's state, and the
  README promises no hidden allocations. \<open>brk\<close> counts the allocations made so far on the C++ heap,
  so it tells an allocation that is freed again from none at all. What a library allocates inside
  a call is its own affair and not spoken of.
\<close>

section \<open>Ledgers\<close>

definition cells_of :: "owner \<Rightarrow> ('l::len, 'b, 'm) stream_world_scheme \<Rightarrow> addr set" where
  "cells_of z w = (case held w z of None \<Rightarrow> {} | Some h \<Rightarrow> h_cells h w)"

definition objects_of :: "owner \<Rightarrow> ('l::len, 'b, 'm) stream_world_scheme \<Rightarrow> addr set" where
  "objects_of z w = (case held w z of None \<Rightarrow> {} | Some h \<Rightarrow> h_objects h w)"

text \<open>A call: no cell comes or goes, not even for a while, and every \<open>impl\<close> stays as it is.\<close>

definition allocates_nothing ::
  "('l::len, 'b, 'm) stream_world_scheme \<Rightarrow> ('l, 'b, 'm) stream_world_scheme \<Rightarrow> bool" where
  "allocates_nothing w w' \<longleftrightarrow> brk w' = brk w \<and> dom (zstreams w') = dom (zstreams w) \<and> held w' = held w"

text \<open>
  A destruction, of what a pointer that may be null owns: its \<open>impl\<close>, its \<open>z_stream\<close> and its
  library object are freed, all of them and nothing else.
\<close>

definition frees_exactly ::
  "owner option \<Rightarrow> ('l::len, 'b, 'm) stream_world_scheme \<Rightarrow> ('l, 'b, 'm) stream_world_scheme \<Rightarrow> bool" where
  "frees_exactly x w w' \<longleftrightarrow> (case x of None \<Rightarrow> w' = w
   | Some z \<Rightarrow> brk w' = brk w \<and> held w z \<noteq> None \<and> held w' = (held w)(z := None) \<and>
       dom (zstreams w') = dom (zstreams w) - cells_of z w \<and> dom (lib w') = dom (lib w) - objects_of z w)"

text \<open>
  A construction: one cell for the \<open>impl\<close>, one for a \<open>z_stream\<close> if zlib serves the object, and one
  library object if any library does. What is allocated is new, and the \<open>impl\<close> owns it.
\<close>

definition allocates_exactly ::
  "owner \<Rightarrow> nat \<Rightarrow> nat \<Rightarrow> ('l::len, 'b, 'm) stream_world_scheme \<Rightarrow> ('l, 'b, 'm) stream_world_scheme \<Rightarrow> bool" where
  "allocates_exactly z n k w w' \<longleftrightarrow> brk w' = Suc (brk w) + n \<and>
     held w z = None \<and> (\<exists>h. held w' = (held w)(z \<mapsto> h)) \<and>
     card (cells_of z w') = n \<and> cells_of z w' \<inter> dom (zstreams w) = {} \<and>
     dom (zstreams w') = dom (zstreams w) \<union> cells_of z w' \<and>
     card (objects_of z w') = k \<and> objects_of z w' \<inter> dom (lib w) = {} \<and>
     dom (lib w') = dom (lib w) \<union> objects_of z w'"

definition zstream_cells :: "('l::len, 'b) env \<Rightarrow> format \<Rightarrow> nat" where
  "zstream_cells E f = (if f \<noteq> Fmt_Zstd \<and> has_zlib E then 1 else 0)"

definition backend_objects :: "('l::len, 'b) env \<Rightarrow> format \<Rightarrow> nat" where
  "backend_objects E f = (if (if f = Fmt_Zstd then has_zstd E else has_zlib E) then 1 else 0)"

section \<open>The operations\<close>

lemma zcall_brk: "zcall call p fl i out w = Inr c \<Longrightarrow> brk (zc_world c) = brk w"
  by (auto elim: zcallE)

lemma zop_brk:
  assumes "chain (zcall call p fl i out w) F = Inr (y, w')"
    and "\<And>c y w'. F c = Inr (y, w') \<Longrightarrow> w' = zc_world c"
  shows "brk w' = brk w"
proof -
  obtain c where "zcall call p fl i out w = Inr c" "F c = Inr (y, w')"
    using assms(1) by (rule chain_InrE)
  with assms(2) zcall_brk show ?thesis by metis
qed

lemma ops_brk:
  "zlib_squeezer_push E h i out w = Inr (r, w') \<Longrightarrow> brk w' = brk w"
  "zlib_squeezer_push_more E h i out w = Inr (r, w') \<Longrightarrow> brk w' = brk w"
  "zlib_squeezer_flush E h out w = Inr (r, w') \<Longrightarrow> brk w' = brk w"
  "zlib_sweller_push_more E u i out w = Inr (r, w') \<Longrightarrow> brk w' = brk w"
  "zstd_squeezer_push_more E zh i out w = Inr (r, w') \<Longrightarrow> brk w' = brk w"
  "zstd_squeezer_flush E zh out w = Inr (r, w') \<Longrightarrow> brk w' = brk w"
  "zstd_squeezer_finish E zh out w = Inr (r, w') \<Longrightarrow> brk w' = brk w"
  "zstd_sweller_push_more E zu i out w = Inr (r, w') \<Longrightarrow> brk w' = brk w"
  unfolding zlib_squeezer_push_def zlib_squeezer_push_more_def zlib_squeezer_flush_def zlib_sweller_push_more_def
  by (erule zop_brk; auto split: if_splits)+
    (auto simp: zstd_squeezer_push_more_def zstd_squeezer_flush_def zstd_squeezer_finish_def zstd_sweller_push_more_def
      chain_Inr_iff Let_def split: prod.splits if_splits option.splits)

lemma visits_brk:
  "push_visit_squeezer E i out v w = Inr (r, w') \<Longrightarrow> brk w' = brk w"
  "push_visit_sweller E i out u w = Inr (r, w') \<Longrightarrow> brk w' = brk w"
  "flush_visit E out v w = Inr (r, w') \<Longrightarrow> brk w' = brk w"
  "finish_visit E out v w = Inr (r, w') \<Longrightarrow> brk w' = brk w"
proof -
  show "push_visit_squeezer E i out v w = Inr (r, w') \<Longrightarrow> brk w' = brk w"
    by (cases v) (auto simp: chain_adapt dest: ops_brk)
  show "push_visit_sweller E i out u w = Inr (r, w') \<Longrightarrow> brk w' = brk w"
    by (cases u) (auto simp: chain_adapt dest: ops_brk)
  show "flush_visit E out v w = Inr (r, w') \<Longrightarrow> brk w' = brk w"
    by (cases v) (auto simp: chain_adapt dest: ops_brk)
  show "finish_visit E out v w = Inr (r, w') \<Longrightarrow> brk w' = brk w"
    by (cases v) (auto simp: chain_adapt zlib_squeezer_finish_def dest: ops_brk)
qed

lemma calls_brk:
  fixes w :: "('l::len, 'b, 'm) stream_world_scheme"
  shows "compressor_push E c i out w = Inr (r, w') \<Longrightarrow> brk w' = brk w"
  "compressor_flush E c out w = Inr (r, w') \<Longrightarrow> brk w' = brk w"
  "compressor_finish E c out w = Inr (r, w') \<Longrightarrow> brk w' = brk w"
  "decompressor_push E d i out w = Inr (r, w') \<Longrightarrow> brk w' = brk w"
  unfolding compressor_push_def compressor_flush_def compressor_finish_def decompressor_push_def
  by (auto simp: stream_reply_of_def elim!: chain_InrE dest: visits_brk split: sum.splits)

text \<open>A call keeps what its object owns allocated, and touches nothing else.\<close>

lemma frame_domains:
  assumes fr: "frame P S w w'" and P: "P \<subseteq> dom (zstreams w)" "P \<subseteq> dom (zstreams w')"
  shows "dom (zstreams w') = dom (zstreams w)"
proof -
  have "a \<in> dom (zstreams w') \<longleftrightarrow> a \<in> dom (zstreams w)" for a
    using fr P by (cases "a \<in> P") (auto simp: frame_def domIff)
  then show ?thesis by blast
qed

lemma used_allocated:
  fixes w :: "('l::len, 'b, 'm) stream_world_scheme"
  shows "cp_ready c w \<Longrightarrow> cp_cells c w \<subseteq> dom (zstreams w)" "dp_ready d w \<Longrightarrow> dp_cells d w \<subseteq> dom (zstreams w)"
proof -
  show "cp_cells c w \<subseteq> dom (zstreams w)" if "cp_ready c w"
    using that ready_allocated [of "Inl v" w for v] by (auto simp: footprint_defs over_def split: option.splits)
  show "dp_cells d w \<subseteq> dom (zstreams w)" if "dp_ready d w"
    using that ready_allocated [of "Inr v" w for v] by (auto simp: footprint_defs over_def split: option.splits)
qed

lemma call_stays:
  fixes w :: "('l::len, 'b, 'm) stream_world_scheme"
  assumes fr: "frame P S w w'" and brk: "brk w' = brk w" and P: "P \<subseteq> dom (zstreams w)" "P \<subseteq> dom (zstreams w')"
  shows "allocates_nothing w w'"
  using brk frame_domains [OF fr P] held_more [of w' w] fr by (simp add: allocates_nothing_def frame_def)

lemma compressor_calls_stay:
  fixes w :: "('l::len, 'b, 'm) stream_world_scheme"
  assumes E: "env_ok E" "zstd_end_progress (zstd E)" and w: "wf_world w" "cp_ready c w"
  shows "compressor_push E c i out w = Inr (r, w') \<Longrightarrow> allocates_nothing w w'"
    "compressor_flush E c out w = Inr (r, w') \<Longrightarrow> allocates_nothing w w'"
    "compressor_finish E c out w = Inr (r, w') \<Longrightarrow> allocates_nothing w w'"
proof -
  note u = used_allocated(1) [of c]
  show "allocates_nothing w w'" if c: "compressor_push E c i out w = Inr (r, w')"
    using compressor_push.op_frame [OF E(1) w c] u [OF w(2)] u [of w'] calls_brk(1) [OF c]
    by (intro call_stays [of "cp_cells c w" "cp_objects c w"]) simp_all
  show "allocates_nothing w w'" if c: "compressor_flush E c out w = Inr (r, w')"
    using compressor_flush.op_frame [OF E(1) w c] u [OF w(2)] u [of w'] calls_brk(2) [OF c]
    by (intro call_stays [of "cp_cells c w" "cp_objects c w"]) simp_all
  show "allocates_nothing w w'" if c: "compressor_finish E c out w = Inr (r, w')"
    using compressor_finish.op_frame [OF conjI [OF E] w c] u [OF w(2)] u [of w'] calls_brk(3) [OF c]
    by (intro call_stays [of "cp_cells c w" "cp_objects c w"]) simp_all
qed

lemma decompressor_call_stays:
  fixes w :: "('l::len, 'b, 'm) stream_world_scheme"
  assumes "env_ok E" "wf_world w" "dp_ready d w" "decompressor_push E d i out w = Inr (r, w')"
  shows "allocates_nothing w w'"
  using decompressor_push.op_frame [OF assms] used_allocated(2) [OF assms(3)] used_allocated(2) [of d w'] calls_brk(4) [OF assms(4)]
  by (intro call_stays [of "dp_cells d w" "dp_objects d w"]) simp_all

text \<open>In an accounted state, a call that returns was made on a live object.\<close>

lemma called_ready:
  fixes w :: "('l::len, 'b, 'm) stream_world_scheme"
  assumes acc: "accounted w"
  shows "compressor_handle c w = Inr v \<Longrightarrow> cp_ready c w" "decompressor_handle d w = Inr u \<Longrightarrow> dp_ready d w"
  using held_ready(1) [OF acc, of "Comp (cp_impl c)" "Inl v" "cp_impl c"] held_ready(2) [OF acc, of "Decomp (dp_impl d)" "Inr u" "dp_impl d"]
  by (cases c; cases d; auto simp: held_def compressor_handle_def decompressor_handle_def split: option.splits)+

lemma calls_stay:
  fixes w :: "('l::len, 'b, 'm) stream_world_scheme"
  assumes acc: "accounted w" and E: "env_ok E" "zstd_end_progress (zstd E)"
  shows "compressor_push E c i out w = Inr (r, w') \<Longrightarrow> allocates_nothing w w'"
    "compressor_flush E c out w = Inr (r, w') \<Longrightarrow> allocates_nothing w w'"
    "compressor_finish E c out w = Inr (r, w') \<Longrightarrow> allocates_nothing w w'"
    "decompressor_push E d i out w = Inr (r, w') \<Longrightarrow> allocates_nothing w w'"
proof -
  note wf = accountedD(2) [OF acc]
  have c: "cp_ready c w" if "chain (compressor_handle c w) F = Inr (r, w')" for F
    using that called_ready(1) [OF acc] by (auto simp: chain_Inr_iff)
  show "compressor_push E c i out w = Inr (r, w') \<Longrightarrow> allocates_nothing w w'"
    "compressor_flush E c out w = Inr (r, w') \<Longrightarrow> allocates_nothing w w'"
    "compressor_finish E c out w = Inr (r, w') \<Longrightarrow> allocates_nothing w w'"
    using compressor_calls_stay [OF E wf c] unfolding compressor_push_def compressor_flush_def compressor_finish_def by blast+
  have "dp_ready d w" if "decompressor_push E d i out w = Inr (r, w')"
    using that called_ready(2) [OF acc] by (auto simp: decompressor_push_def chain_Inr_iff [of "decompressor_handle d w"])
  then show "decompressor_push E d i out w = Inr (r, w') \<Longrightarrow> allocates_nothing w w'"
    using decompressor_call_stays [OF E(1) wf] by blast
qed

text \<open>A destructor only frees.\<close>

lemma deletes_brk:
  "squeezer_variant_delete E v w = Inr w' \<Longrightarrow> brk w' = brk w"
  "sweller_variant_delete E u w = Inr w' \<Longrightarrow> brk w' = brk w"
proof -
  show "squeezer_variant_delete E v w = Inr w' \<Longrightarrow> brk w' = brk w"
    by (cases v) (auto simp: zlib_squeezer_delete_def zstd_squeezer_delete_def delete_zstream_def
        elim!: chain_InrE split: if_splits prod.splits)
  show "sweller_variant_delete E u w = Inr w' \<Longrightarrow> brk w' = brk w"
    by (cases u) (auto simp: zlib_sweller_delete_def zstd_sweller_delete_def delete_zstream_def
        elim!: chain_InrE split: if_splits prod.splits)
qed

lemma frame_frees:
  assumes "frame P S w w'" "\<forall>a \<in> P. zstreams w' a = None" "\<forall>a \<in> S. lib w' a = None" "wf_world w"
  shows "dom (zstreams w') = dom (zstreams w) - P" "dom (lib w') = dom (lib w) - (S - {0})"
proof -
  have "a \<in> dom (zstreams w') \<longleftrightarrow> a \<in> dom (zstreams w) - P" for a
    using assms(1,2) by (cases "a \<in> P") (auto simp: frame_def domIff)
  then show "dom (zstreams w') = dom (zstreams w) - P" by blast
  have "a \<in> dom (lib w') \<longleftrightarrow> a \<in> dom (lib w) - (S - {0})" for a
    using assms(1,3,4) by (cases "a \<in> S") (auto simp: frame_def domIff wf_world_def)
  then show "dom (lib w') = dom (lib w) - (S - {0})" by blast
qed

lemma held_freed:
  assumes "frame P S w w1" "w' = w1\<lparr>cimpls := (cimpls w1)(p := None)\<rparr> \<and> z = Comp p \<or>
    w' = w1\<lparr>dimpls := (dimpls w1)(p := None)\<rparr> \<and> z = Decomp p"
  shows "held w' = (held w)(z := None)"
  using assms held_more [of w1 w] by (auto simp: frame_def held_impls)

lemma compressor_delete_frees:
  fixes w :: "('l::len, 'b, 'm) stream_world_scheme"
  assumes acc: "accounted w" and E: "env_ok E" and v: "cimpls w (cp_impl c) = Some v"
    and run: "compressor_delete E c w = Inr w'"
  shows "frees_exactly (Some (Comp (cp_impl c))) w w'"
proof -
  note wf = accountedD(1,2) [OF acc]
  have p: "cp_impl c \<noteq> 0" using wf(1) v by (auto simp: wf_stream_def)
  have hd: "held w (Comp (cp_impl c)) = Some (Inl v)" using v by (simp add: held_def)
  from accountedD(3) [OF acc hd] have own: "sq_owned v w" by (simp add: ready_owned)
  obtain w1 where w1: "squeezer_variant_delete E v w = Inr w1" and w': "w' = w1\<lparr>cimpls := (cimpls w1)(cp_impl c := None)\<rparr>"
    using run p v by (auto simp: compressor_delete_def compressor_impl_delete_def compressor_handle_def elim!: chain_InrE)
  from squeezer_variant_life.destroy_frees [OF E wf(2) own] w1 have
    d: "frame (sq_cells v w) (sq_objects v w) w w1" "\<forall>a \<in> sq_cells v w. zstreams w1 a = None" "\<forall>a \<in> sq_objects v w. lib w1 a = None"
    by auto
  note held_freed [OF d(1), of w' "cp_impl c" "Comp (cp_impl c)"]
  with frame_frees [OF d wf(2)] deletes_brk(1) [OF w1] hd w' show ?thesis
    by (simp add: frees_exactly_def cells_of_def objects_of_def)
qed

lemma decompressor_delete_frees:
  fixes w :: "('l::len, 'b, 'm) stream_world_scheme"
  assumes acc: "accounted w" and E: "env_ok E" and v: "dimpls w (dp_impl d) = Some v"
    and run: "decompressor_delete E d w = Inr w'"
  shows "frees_exactly (Some (Decomp (dp_impl d))) w w'"
proof -
  note wf = accountedD(1,2) [OF acc]
  have p: "dp_impl d \<noteq> 0" using wf(1) v by (auto simp: wf_stream_def)
  have hd: "held w (Decomp (dp_impl d)) = Some (Inr v)" using v by (simp add: held_def)
  from accountedD(3) [OF acc hd] have own: "sw_owned v w" by (simp add: ready_owned)
  obtain w1 where w1: "sweller_variant_delete E v w = Inr w1" and w': "w' = w1\<lparr>dimpls := (dimpls w1)(dp_impl d := None)\<rparr>"
    using run p v by (auto simp: decompressor_delete_def decompressor_impl_delete_def decompressor_handle_def elim!: chain_InrE)
  from sweller_variant_life.destroy_frees [OF E wf(2) own] w1 have
    d: "frame (sw_cells v w) (sw_objects v w) w w1" "\<forall>a \<in> sw_cells v w. zstreams w1 a = None" "\<forall>a \<in> sw_objects v w. lib w1 a = None"
    by auto
  note held_freed [OF d(1), of w' "dp_impl d" "Decomp (dp_impl d)"]
  with frame_frees [OF d wf(2)] deletes_brk(2) [OF w1] hd w' show ?thesis
    by (simp add: frees_exactly_def cells_of_def objects_of_def)
qed

text \<open>Through a variable: the owner is its pointer, and a null pointer frees nothing.\<close>

lemma variable_frees:
  fixes w :: "('l::len, 'b, 'm) stream_world_scheme"
  assumes i: "well_owned s w" and E: "env_ok E"
  shows "s x = Some (Comp_Var c) \<Longrightarrow> compressor_delete E c w = Inr w' \<Longrightarrow> frees_exactly (owners s x) w w'"
    "s x = Some (Decomp_Var d) \<Longrightarrow> decompressor_delete E d w = Inr w' \<Longrightarrow> frees_exactly (owners s x) w w'"
proof -
  note acc = well_ownedD(1) [OF i]
  show "frees_exactly (owners s x) w w'" if x: "s x = Some (Comp_Var c)" and run: "compressor_delete E c w = Inr w'"
  proof (cases "cp_impl c = 0")
    case False
    then have o1: "owners s x = Some (Comp (cp_impl c))" using x by (simp add: owners_def)
    from well_ownedD(4) [OF i o1] obtain v where "cimpls w (cp_impl c) = Some v" by (auto simp: held_def)
    with o1 compressor_delete_frees [OF acc E _ run] show ?thesis by simp
  qed (use x run in \<open>simp add: owners_def compressor_delete_def frees_exactly_def\<close>)
  show "frees_exactly (owners s x) w w'" if x: "s x = Some (Decomp_Var d)" and run: "decompressor_delete E d w = Inr w'"
  proof (cases "dp_impl d = 0")
    case False
    then have o1: "owners s x = Some (Decomp (dp_impl d))" using x by (simp add: owners_def)
    from well_ownedD(4) [OF i o1] obtain v where "dimpls w (dp_impl d) = Some v" by (auto simp: held_def)
    with o1 decompressor_delete_frees [OF acc E _ run] show ?thesis by simp
  qed (use x run in \<open>simp add: owners_def decompressor_delete_def frees_exactly_def\<close>)
qed

section \<open>Construction\<close>

text \<open>What the handles of a new object occupy, when the allocations succeed.\<close>

lemma zlib_handle_counts:
  fixes w :: "('l::len, 'b, 'm) world_scheme"
  assumes init: "zlib_init_ok init" and wf: "wf_world w" and c: "init zero_stream (lib w) = (Z_OK, st, L)"
  defines "w1 \<equiv> w\<lparr>zstreams := (zstreams w)(brk w \<mapsto> st), brk := Suc (brk w), lib := L\<rparr>"
  shows "card (zcells (brk w) w1) = 1" "card (zobjects (brk w) w1 - {0}) = 1"
proof -
  have z0: "0 \<notin> dom (lib w)" "zstate (zero_stream :: 'l z_stream) = 0"
    using wf by (simp_all add: wf_world_def zero_stream_def)
  have "zstate st \<noteq> 0" using init [unfolded zlib_init_ok_def, rule_format, OF z0 c] by simp
  then show "card (zcells (brk w) w1) = 1" "card (zobjects (brk w) w1 - {0}) = 1"
    by (simp_all add: zcells_def zobjects_def w1_def)
qed

lemma squeezer_counts:
  fixes w :: "('l::len, 'b, 'm) world_scheme"
  assumes E: "env_ok E" "wf_world w" "allocations_succeed E w" and lvl: "f = Fmt_Zstd \<or> level_in_range lvl"
    and mk: "make_squeezer E f lvl w = Inr (v, w1)" and r: "sq_ready v w1" "wf_world w1"
  shows "card (sq_cells v w1) = zstream_cells E f" "card (sq_objects v w1 - {0}) = backend_objects E f"
    "brk w1 = brk w + zstream_cells E f"
proof -
  consider (zl) "f \<noteq> Fmt_Zstd" "has_zlib E" | (zs) "f = Fmt_Zstd" "has_zstd E"
    | (stub) "if f = Fmt_Zstd then \<not> has_zstd E else \<not> has_zlib E" by metis
  then have "card (sq_cells v w1) = zstream_cells E f \<and> card (sq_objects v w1 - {0}) = backend_objects E f \<and>
    brk w1 = brk w + zstream_cells E f"
  proof cases
    case zl
    have law: "zlib_init_ok (\<lambda>st. deflateInit2 (zlib E) st (sint (zlib_level_int lvl)) 8 (window_bits_for f) 8 0)"
      using E(1) by (simp add: env_ok_def zlib_heap_contract_def)
    obtain st L where i: "deflateInit2 (zlib E) zero_stream (sint (zlib_level_int lvl)) 8 (window_bits_for f) 8 0 (lib w) = (Z_OK, st, L)"
      using allocations_succeedD(1) [OF E(3)] lvl zl by blast
    have "make_squeezer E f lvl w = zlib_into_variant E f lvl w"
      using zl by (cases f) (simp_all add: make_squeezer_def)
    with mk have "v = Zlib_Squeezer \<lparr>zsq_stream = brk w\<rparr>"
      "w1 = w\<lparr>zstreams := (zstreams w)(brk w \<mapsto> st), brk := Suc (brk w), lib := L\<rparr>"
      by (simp_all add: into_variant_eqs zlib_squeezer_new_run [OF i])
    with zlib_handle_counts [OF law E(2) i] zl show ?thesis
      by (simp add: zstream_cells_def backend_objects_def)
  next
    case zs
    with mk obtain h where h: "zstd_squeezer_new E f (Zstd_Level (zlib_level_int lvl)) w = Inr (h, w1)" "v = Zstd_Squeezer h"
      by (auto simp: make_squeezer_def into_variant_eqs chain_Inr_iff)
    have "cctx h \<noteq> 0" using r h(2) by (auto simp: ctx_ready_def wf_world_def)
    moreover have "brk w1 = brk w" using h(1) by (auto simp: zstd_squeezer_new_def Let_def split: prod.splits if_splits)
    ultimately show ?thesis using h(2) zs by (simp add: ctx_defs zstream_cells_def backend_objects_def)
  next
    case stub
    with mk show ?thesis
      by (cases f) (auto simp: make_squeezer_def zstream_cells_def backend_objects_def)
  qed
  then show "card (sq_cells v w1) = zstream_cells E f" "card (sq_objects v w1 - {0}) = backend_objects E f"
    "brk w1 = brk w + zstream_cells E f" by blast+
qed

lemma sweller_counts:
  fixes w :: "('l::len, 'b, 'm) world_scheme"
  assumes E: "env_ok E" "wf_world w" "allocations_succeed E w"
    and mk: "make_sweller E f w = Inr (v, w1)" and r: "sw_ready v w1" "wf_world w1"
  shows "card (sw_cells v w1) = zstream_cells E f" "card (sw_objects v w1 - {0}) = backend_objects E f"
    "brk w1 = brk w + zstream_cells E f"
proof -
  consider (zl) "f \<noteq> Fmt_Zstd" "has_zlib E" | (zs) "f = Fmt_Zstd" "has_zstd E"
    | (stub) "if f = Fmt_Zstd then \<not> has_zstd E else \<not> has_zlib E" by metis
  then have "card (sw_cells v w1) = zstream_cells E f \<and> card (sw_objects v w1 - {0}) = backend_objects E f \<and>
    brk w1 = brk w + zstream_cells E f"
  proof cases
    case zl
    have law: "zlib_init_ok (\<lambda>st. inflateInit2 (zlib E) st (window_bits_for f))"
      using E(1) by (simp add: env_ok_def zlib_heap_contract_def)
    obtain st L where i: "inflateInit2 (zlib E) zero_stream (window_bits_for f) (lib w) = (Z_OK, st, L)"
      using allocations_succeedD(2) [OF E(3)] by blast
    have "make_sweller E f w = zlib_into_sweller_variant E f w"
      using zl by (cases f) (simp_all add: make_sweller_def)
    with mk have "v = Zlib_Sweller \<lparr>zsw_stream = brk w\<rparr>"
      "w1 = w\<lparr>zstreams := (zstreams w)(brk w \<mapsto> st), brk := Suc (brk w), lib := L\<rparr>"
      by (simp_all add: into_variant_eqs zlib_sweller_new_run [OF i])
    with zlib_handle_counts [OF law E(2) i] zl show ?thesis
      by (simp add: zstream_cells_def backend_objects_def)
  next
    case zs
    with mk obtain h where h: "zstd_sweller_new E f w = Inr (h, w1)" "v = Zstd_Sweller h"
      by (auto simp: make_sweller_def into_variant_eqs chain_Inr_iff)
    have "dctx h \<noteq> 0" using r h(2) by (auto simp: ctx_ready_def wf_world_def)
    moreover have "brk w1 = brk w" using h(1) by (auto simp: zstd_sweller_new_def Let_def split: prod.splits if_splits)
    ultimately show ?thesis using h(2) zs by (simp add: ctx_defs zstream_cells_def backend_objects_def)
  next
    case stub
    with mk show ?thesis
      by (cases f) (auto simp: make_sweller_def zstream_cells_def backend_objects_def)
  qed
  then show "card (sw_cells v w1) = zstream_cells E f" "card (sw_objects v w1 - {0}) = backend_objects E f"
    "brk w1 = brk w + zstream_cells E f" by blast+
qed

lemma frame_allocates:
  assumes "frame P S w w'" "P \<subseteq> dom (zstreams w')" "S - {0} \<subseteq> dom (lib w')" "wf_world w" "wf_world w'"
  shows "dom (zstreams w') = dom (zstreams w) \<union> P \<or> P \<inter> dom (zstreams w) \<noteq> {}"
    "dom (lib w') = dom (lib w) \<union> (S - {0}) \<or> S \<inter> dom (lib w) \<noteq> {}"
proof -
  have "a \<in> dom (zstreams w') \<longleftrightarrow> a \<in> dom (zstreams w) \<union> P" if "P \<inter> dom (zstreams w) = {}" for a
    using assms(1,2) that by (cases "a \<in> P") (auto simp: frame_def domIff)
  then show "dom (zstreams w') = dom (zstreams w) \<union> P \<or> P \<inter> dom (zstreams w) \<noteq> {}" by blast
  have "a \<in> dom (lib w') \<longleftrightarrow> a \<in> dom (lib w) \<union> (S - {0})" if "S \<inter> dom (lib w) = {}" for a
    using assms(1,3-5) that by (cases "a \<in> S") (auto simp: frame_def domIff wf_world_def)
  then show "dom (lib w') = dom (lib w) \<union> (S - {0}) \<or> S \<inter> dom (lib w) \<noteq> {}" by blast
qed

lemma compressor_new_allocates:
  fixes w :: "('l::len, 'b, 'm) stream_world_scheme"
  assumes acc: "accounted w" and E: "env_ok E" "allocations_succeed E w" and lvl: "f = Fmt_Zstd \<or> level_in_range lvl"
    and run: "compressor_new E f lvl w = Inr (r, w')"
  shows "r = Inr \<lparr>cp_impl = brk w\<rparr> \<and> brk w \<noteq> 0 \<and>
    allocates_exactly (Comp (brk w)) (zstream_cells E f) (backend_objects E f) w w'"
proof -
  let ?w0 = "w\<lparr>brk := Suc (brk w)\<rparr>"
  have wf0: "wf_world ?w0" using wf_world_brk accountedD(2) [OF acc] by blast
  have al: "allocations_succeed E ?w0" using E(2) by simp
  obtain v w1 where mk: "make_squeezer E f lvl ?w0 = Inr (v, w1)" and rdy: "sq_ready v w1"
    using make_squeezer_ready [OF E(1) wf0 al lvl] by auto
  note c = squeezer_variant_life.create_fresh [OF E(1) wf0 mk]
  then have fr: "frame (sq_cells v w1) (sq_objects v w1) ?w0 w1" and wf1: "wf_world w1"
    and new: "sq_cells v w1 \<inter> dom (zstreams ?w0) = {}" "sq_objects v w1 \<inter> dom (lib ?w0) = {}" by auto
  note n = squeezer_counts [OF E(1) wf0 al lvl mk rdy wf1]
  obtain v' w2 where built: "compressor_new E f lvl w = Inr (Inr \<lparr>cp_impl = brk w\<rparr>, w2)"
    "held w (Comp (brk w)) = None" "held w2 = (held w)(Comp (brk w) := Some (Inl v'))" "brk w \<noteq> 0"
    using acc E lvl by (rule compressor_new_accounted)
  have w2: "w2 = w1\<lparr>cimpls := (cimpls w1)(brk w \<mapsto> v)\<rparr>"
    using built(1) lvl mk by (auto simp: compressor_new_def level_in_range_def Let_def)
  have "held w2 (Comp (brk w)) = Some (Inl v)" by (simp add: w2 held_def)
  moreover have "sq_cells v w1 \<subseteq> dom (zstreams w1)" "sq_objects v w1 - {0} \<subseteq> dom (lib w1)"
    using ready_allocated [of "Inl v" w1] rdy by simp_all
  note frame_allocates [OF fr this wf0 wf1]
  ultimately have "allocates_exactly (Comp (brk w)) (zstream_cells E f) (backend_objects E f) w w2"
    using n new built(2,3) footprint_impls(1,3) [where h = "Inl v" and w = w1]
    by (auto simp: allocates_exactly_def cells_of_def objects_of_def w2)
  with run built(1,4) show ?thesis by simp
qed

lemma decompressor_new_allocates:
  fixes w :: "('l::len, 'b, 'm) stream_world_scheme"
  assumes acc: "accounted w" and E: "env_ok E" "allocations_succeed E w"
    and run: "decompressor_new E f w = Inr (d, w')"
  shows "d = \<lparr>dp_impl = brk w\<rparr> \<and> brk w \<noteq> 0 \<and>
    allocates_exactly (Decomp (brk w)) (zstream_cells E f) (backend_objects E f) w w'"
proof -
  let ?w0 = "w\<lparr>brk := Suc (brk w)\<rparr>"
  have wf0: "wf_world ?w0" using wf_world_brk accountedD(2) [OF acc] by blast
  have al: "allocations_succeed E ?w0" using E(2) by simp
  obtain v w1 where mk: "make_sweller E f ?w0 = Inr (v, w1)" and rdy: "sw_ready v w1"
    using make_sweller_ready [OF E(1) wf0 al] by auto
  note c = sweller_variant_life.create_fresh [OF E(1) wf0 mk]
  then have fr: "frame (sw_cells v w1) (sw_objects v w1) ?w0 w1" and wf1: "wf_world w1"
    and new: "sw_cells v w1 \<inter> dom (zstreams ?w0) = {}" "sw_objects v w1 \<inter> dom (lib ?w0) = {}" by auto
  note n = sweller_counts [OF E(1) wf0 al mk rdy wf1]
  obtain v' w2 where built: "decompressor_new E f w = Inr (\<lparr>dp_impl = brk w\<rparr>, w2)"
    "held w (Decomp (brk w)) = None" "held w2 = (held w)(Decomp (brk w) := Some (Inr v'))" "brk w \<noteq> 0"
    using acc E by (rule decompressor_new_accounted)
  have w2: "w2 = w1\<lparr>dimpls := (dimpls w1)(brk w \<mapsto> v)\<rparr>"
    using built(1) mk by (auto simp: decompressor_new_def Let_def)
  have "held w2 (Decomp (brk w)) = Some (Inr v)" by (simp add: w2 held_def)
  moreover have "sw_cells v w1 \<subseteq> dom (zstreams w1)" "sw_objects v w1 - {0} \<subseteq> dom (lib w1)"
    using ready_allocated [of "Inr v" w1] rdy by simp_all
  note frame_allocates [OF fr this wf0 wf1]
  ultimately have "allocates_exactly (Decomp (brk w)) (zstream_cells E f) (backend_objects E f) w w2"
    using n new built(2,3) footprint_impls(2,4) [where h = "Inr v" and w = w1]
    by (auto simp: allocates_exactly_def cells_of_def objects_of_def w2)
  with run built(1,4) show ?thesis by simp
qed

section \<open>Whole programs\<close>

lemma constructions_allocate:
  assumes i: "well_owned s w" and E: "env_ok E" "allocations_succeed E w"
  shows "exec E (New_Compressor x f lvl) (s, w) = Some (Inr (s', w')) \<Longrightarrow>
      if f = Fmt_Zstd \<or> level_in_range lvl
      then allocates_exactly (Comp (brk w)) (zstream_cells E f) (backend_objects E f) w w' \<and>
        owners s' = (owners s)(x \<mapsto> Comp (brk w))
      else w' = w \<and> s' = s"
    "exec E (New_Decompressor x f) (s, w) = Some (Inr (s', w')) \<Longrightarrow>
      allocates_exactly (Decomp (brk w)) (zstream_cells E f) (backend_objects E f) w w' \<and>
        owners s' = (owners s)(x \<mapsto> Decomp (brk w))"
proof -
  note acc = well_ownedD(1) [OF i]
  show "if f = Fmt_Zstd \<or> level_in_range lvl
      then allocates_exactly (Comp (brk w)) (zstream_cells E f) (backend_objects E f) w w' \<and>
        owners s' = (owners s)(x \<mapsto> Comp (brk w))
      else w' = w \<and> s' = s" if ex: "exec E (New_Compressor x f lvl) (s, w) = Some (Inr (s', w'))"
  proof (cases "f = Fmt_Zstd \<or> level_in_range lvl")
    case True
    obtain r where r: "compressor_new E f lvl w = Inr (r, w')" "s' = (case r of Inl e \<Rightarrow> s | Inr c \<Rightarrow> s(x \<mapsto> Comp_Var c))"
      using ex by (auto split: if_splits elim!: chain_InrE)
    from compressor_new_allocates [OF acc E True r(1)] r(2) True show ?thesis by simp
  next
    case False
    then have "compressor_new E f lvl w
        = Inr (Inl (Invalid_Argument ''level_unsupported: zlib levels are 0-9''), w)"
      by (auto simp: compressor_new_def level_in_range_def)
    with ex False show ?thesis by (auto split: if_splits)
  qed
  show "allocates_exactly (Decomp (brk w)) (zstream_cells E f) (backend_objects E f) w w' \<and>
      owners s' = (owners s)(x \<mapsto> Decomp (brk w))" if ex: "exec E (New_Decompressor x f) (s, w) = Some (Inr (s', w'))"
  proof -
    obtain d where d: "decompressor_new E f w = Inr (d, w')" "s' = s(x \<mapsto> Decomp_Var d)"
      using ex by (auto split: if_splits elim!: chain_InrE)
    from decompressor_new_allocates [OF acc E d(1)] d(2) show ?thesis by simp
  qed
qed

lemma moves_keep:
  assumes ex: "exec E (Move_Construct x y) (s, w) = Some (Inr (s', w'))"
  shows "w' = w \<and> owners s' = (owners s)(x := owners s y, y := None)"
proof -
  from ex obtain v where v: "s x = None" "s y = Some v" by (auto split: if_splits option.splits)
  then have "x \<noteq> y" by auto
  moreover have "w' = w \<and> owners s' = (owners s)(x := ptr v, y := None)"
    using ex v by (cases v) (auto simp: compressor_move_def decompressor_move_def)
  ultimately show ?thesis using v(2) by (simp add: owners_def)
qed

lemma assignment_frees:
  assumes i: "well_owned s w" and E: "env_ok E" and ex: "exec E (Move_Assign x y) (s, w) = Some (Inr (s', w'))"
  shows "if x = y then w' = w \<and> s' = s
    else frees_exactly (owners s x) w w' \<and> owners s' = (owners s)(x := owners s y, y := None)"
proof (cases "x = y")
  case True
  with ex show ?thesis
    by (auto simp: compressor_assign_def decompressor_assign_def split: option.splits variable.splits)
next
  case False
  consider (cp) a b where "s x = Some (Comp_Var a)" "s y = Some (Comp_Var b)"
    | (dp) a b where "s x = Some (Decomp_Var a)" "s y = Some (Decomp_Var b)"
    using ex by (auto split: option.splits variable.splits)
  then show ?thesis
  proof cases
    case cp
    then have "compressor_delete E a w = Inr w'" "s' = s(x \<mapsto> Comp_Var \<lparr>cp_impl = cp_impl b\<rparr>, y \<mapsto> Comp_Var \<lparr>cp_impl = 0\<rparr>)"
      using ex False by (auto simp: assign_eq compressor_move_def decompressor_move_def elim!: chain_InrE)
    with variable_frees(1) [OF i E cp(1)] cp False show ?thesis by (auto simp: owners_def fun_eq_iff)
  next
    case dp
    then have "decompressor_delete E a w = Inr w'" "s' = s(x \<mapsto> Decomp_Var \<lparr>dp_impl = dp_impl b\<rparr>, y \<mapsto> Decomp_Var \<lparr>dp_impl = 0\<rparr>)"
      using ex False by (auto simp: assign_eq compressor_move_def decompressor_move_def elim!: chain_InrE)
    with variable_frees(2) [OF i E dp(1)] dp False show ?thesis by (auto simp: owners_def fun_eq_iff)
  qed
qed

lemma destruction_frees:
  assumes i: "well_owned s w" and E: "env_ok E" and ex: "exec E (Destroy x) (s, w) = Some (Inr (s', w'))"
  shows "frees_exactly (owners s x) w w' \<and> owners s' = (owners s)(x := None)"
proof -
  have "s' = s(x := None)" "(\<exists>c. s x = Some (Comp_Var c) \<and> compressor_delete E c w = Inr w') \<or>
      (\<exists>d. s x = Some (Decomp_Var d) \<and> decompressor_delete E d w = Inr w')"
    using ex by (auto split: option.splits variable.splits elim!: chain_InrE)
  with variable_frees [OF i E] show ?thesis by auto
qed

lemma calls_allocate_nothing:
  assumes acc: "accounted w" and E: "env_ok E" "zstd_end_progress (zstd E)"
  shows "exec E (Push x i out) (s, w) = Some (Inr (s', w')) \<Longrightarrow> allocates_nothing w w' \<and> s' = s"
    "exec E (Flush x out) (s, w) = Some (Inr (s', w')) \<Longrightarrow> allocates_nothing w w' \<and> s' = s"
    "exec E (Finish x out) (s, w) = Some (Inr (s', w')) \<Longrightarrow> allocates_nothing w w' \<and> s' = s"
  using calls_stay [OF acc E] by (auto split: option.splits variable.splits elim!: chain_InrE)

text \<open>
  C20: the ledger of a program. In every state a program can reach, a push, a flush and a finish
  allocate no cell, free none and leave every \<open>impl\<close> in place: the program has no hidden
  allocation there (what a library keeps inside an object of its own is not in the ledger). A move
  construction does nothing to the heaps and hands the pointer over. A move assignment frees all
  that its target owned, the \<open>impl\<close>, the \<open>z_stream\<close> and the library's object, nothing else, and
  nothing at all on itself; a destruction likewise; a moved-from variable frees nothing. A
  construction allocates the \<open>impl\<close>, a \<open>z_stream\<close> exactly when zlib serves the format, and one
  library object exactly when the build has the backend; a refused level allocates nothing.
\<close>

theorem only_construction_allocates:
  assumes "reachable E s w" "env_ok E" "zstd_end_progress (zstd E)" "allocations_succeed E w"
    and "exec E st (s, w) = Some (Inr (s', w'))"
  shows "case st of
      New_Compressor x f lvl \<Rightarrow>
        if f = Fmt_Zstd \<or> level_in_range lvl
        then allocates_exactly (Comp (brk w)) (zstream_cells E f) (backend_objects E f) w w' \<and>
          owners s' = (owners s)(x \<mapsto> Comp (brk w))
        else w' = w \<and> s' = s
    | New_Decompressor x f \<Rightarrow>
        allocates_exactly (Decomp (brk w)) (zstream_cells E f) (backend_objects E f) w w' \<and>
          owners s' = (owners s)(x \<mapsto> Decomp (brk w))
    | Move_Construct x y \<Rightarrow> w' = w \<and> owners s' = (owners s)(x := owners s y, y := None)
    | Move_Assign x y \<Rightarrow>
        if x = y then w' = w \<and> s' = s
        else frees_exactly (owners s x) w w' \<and> owners s' = (owners s)(x := owners s y, y := None)
    | Destroy x \<Rightarrow> frees_exactly (owners s x) w w' \<and> owners s' = (owners s)(x := None)
    | _ \<Rightarrow> allocates_nothing w w' \<and> s' = s"
proof -
  note i = reachable_well_owned [OF assms(1-3)]
  note calls = calls_allocate_nothing [OF well_ownedD(1) [OF i] assms(2,3)]
  show ?thesis
    using assms(5) constructions_allocate [OF i assms(2,4)] moves_keep assignment_frees [OF i assms(2)]
      destruction_frees [OF i assms(2)] calls
    by (cases st) (simp_all only: stmt.case)
qed

text \<open>The program of the examples: destroying its compressor frees its cell and zlib's object.\<close>

lemma only_construction_allocates_witness:
  "\<exists>w'. compressor_delete (ref_env 3 True) \<lparr>cp_impl = 1\<rparr> (demo_zlib (Ref_Enc [] False)) = Inr w' \<and>
    brk w' = 3 \<and> dom (zstreams w') = {} \<and> dom (lib w') = {} \<and> held w' (Comp 1) = None"
proof -
  let ?E = "ref_env 3 True" and ?w = "demo_zlib (Ref_Enc [] False)" and ?s = "[''a'' \<mapsto> Comp_Var \<lparr>cp_impl = 1\<rparr>]"
  have zp: "zstd_end_progress (zstd ?E)" by (simp add: ref_zstd_progress)
  have "\<exists>w'. compressor_delete ?E \<lparr>cp_impl = 1\<rparr> ?w = Inr w' \<and> well_owned (?s(''a'' := None)) w'"
    by (rule comp_delete_step [OF _ reachable_well_owned [OF demo_reach_1 _ zp]]) simp_all
  then obtain w' where w': "compressor_delete ?E \<lparr>cp_impl = 1\<rparr> ?w = Inr w'" by blast
  then have run: "exec ?E (Destroy ''a'') (?s, ?w) = Some (Inr (?s(''a'' := None), w'))" by simp
  have "ref_fresh (lib ?w) \<noteq> None" by (simp add: ref_fresh_def demo_zlib_def upt_conv_Cons)
  from only_construction_allocates [OF demo_reach_1 ref_env_ok zp ref_allocates_in [OF this] run]
  have f: "frees_exactly (Some (Comp 1)) ?w w'" by (simp add: owners_def)
  have "held ?w (Comp 1) = Some (Inl (Zlib_Squeezer \<lparr>zsq_stream = 2\<rparr>))" by (simp add: held_def demo_zlib_def)
  then have "cells_of (Comp 1) ?w = {2}" "objects_of (Comp 1) ?w = {1}"
    by (simp_all add: cells_of_def objects_of_def zcells_def zobjects_def demo_zlib_def)
  with f have "brk w' = brk ?w \<and> dom (zstreams w') = {} \<and> dom (lib w') = {} \<and> held w' (Comp 1) = None"
    by (simp add: frees_exactly_def) (simp add: demo_zlib_def)
  with w' show ?thesis by (simp add: demo_zlib_def)
qed

end
