(* ===== verification/Cross_Layer.thy ===== *)
theory Cross_Layer
  imports Session_Properties One_Shot_Unfinished
begin

text \<open>
  The one-shot calls of \<open>src/squeeze.cpp\<close> and the streaming classes of \<open>src/stream.cpp\<close> speak the
  same formats: what either layer compressed the other one restores. The promises that the two
  layers rest on, one about whole buffers and one about pieces, meet in what counts as a complete
  stream.
\<close>

section \<open>One meaning of a stream\<close>

definition one_shot_writes ::
  "('l::len, 'b) env \<Rightarrow> 'c stream_codec \<Rightarrow> (int \<Rightarrow> int \<Rightarrow> nat \<Rightarrow> nat) \<Rightarrow> format \<Rightarrow> bool" where
  "one_shot_writes E K D f \<longleftrightarrow> (if f = Fmt_Zstd
     then \<exists>enc. zstd_encodes (zstd E) enc \<and> zstd_formats_agree enc (s_frame_of K)
     else \<exists>enc. zlib_encodes (zlib E) enc \<and> zlib_formats_agree enc (z_stream_of K) \<and>
       zlib_bound_covers (zlib E) \<and> zlib_deflate_bound (zlib E) D)"

definition one_shot_reads :: "('l::len, 'b) env \<Rightarrow> 'c stream_codec \<Rightarrow> format \<Rightarrow> bool" where
  "one_shot_reads E K f \<longleftrightarrow> (if f = Fmt_Zstd then zstd_decodes (zstd E) (s_frame_of K)
     else zlib_decodes (zlib E) (z_stream_of K))"

text \<open>The spans that a one-shot call of a format can handle without cutting them.\<close>

definition whole_spans :: "format \<Rightarrow> span \<Rightarrow> span \<Rightarrow> bool" where
  "whole_spans f i out \<longleftrightarrow> spans_valid i out \<and>
     (if f = Fmt_Zstd then span_size out \<noteq> -1 else small i \<and> small out)"

text \<open>
  The room in which a one-shot call is sure to finish its stream. The checks of \<open>squeeze\<close> see to
  it for zlib and zstd; for gzip and raw deflate it takes the size of \<open>deflateBound\<close>.
\<close>

definition room_to_finish :: "(int \<Rightarrow> int \<Rightarrow> nat \<Rightarrow> nat) \<Rightarrow> format \<Rightarrow> zlib_level \<Rightarrow> span \<Rightarrow> span \<Rightarrow> bool" where
  "room_to_finish D f lvl i out \<longleftrightarrow> f = Fmt_Zstd \<or> container_fits D f lvl (span_size i) (span_size out)"

lemma squeeze_writes_stream:
  fixes w :: "(64, 'b, 'm) world_scheme"
  assumes ok: "env_ok E" "wf_world w" "allocations_succeed E w" and wr: "one_shot_writes E K D f"
    and sq: "squeeze E f lvl i out w = Inr (Inr r, w1)" and v: "whole_spans f i out" "room_to_finish D f lvl i out"
  shows "is_stream_of K f (bytes_at (mem w1) (span_data out) (unat (bytes_written r))) (span_bytes (mem w) i)"
proof -
  have ref: "refusal E f lvl (span_size i) (span_size out) = None"
    using sq by (auto simp: squeeze_branches split: option.splits)
  have v': "spans_valid i out" using v(1) by (simp add: whole_spans_def)
  show ?thesis
  proof (cases "f = Fmt_Zstd")
    case True
    then obtain enc where enc: "zstd_encodes (zstd E) enc" "zstd_formats_agree enc (s_frame_of K)"
      using wr by (auto simp: one_shot_writes_def)
    have run: "zstd_squeeze E lvl i out w = Inr (Inr r, w1)" using sq ref True by (simp add: squeeze_branches)
    have bd: "zstd_bound E zstd_default_level (span_size i) \<le> span_size out"
      using ref True by (auto simp: refusal_None_iff bound_def backend_present_def)
    then have ne: "\<not> ZSTD_isError (zstd E) (ZSTD_compressBound (zstd E) (span_size i))"
      using v True by (auto simp: whole_spans_def zstd_bound_def Let_def word_order.extremum_unique)
    have "apart (span_data i) (unat (span_size i)) (span_data out) (unat (span_size out))"
      using v' by (simp add: spans_valid_def spans_apart_def)
    from zstd_squeeze_bytes [OF enc(1) this ne bd run] enc(2) True show ?thesis
      by (simp add: is_stream_of_def zstd_formats_agree_def)
  next
    case False
    then obtain enc where enc: "zlib_encodes (zlib E) enc" "zlib_bound_covers (zlib E)" "zlib_deflate_bound (zlib E) D"
      "zlib_formats_agree enc (z_stream_of K)"
      using wr by (auto simp: one_shot_writes_def)
    have fit: "container_fits D f lvl (span_size i) (span_size out)" using v(2) False by (simp add: room_to_finish_def)
    have sm: "unat (span_size i) < 2 ^ 32" "unat (span_size out) < 2 ^ 32"
      using v False by (simp_all add: whole_spans_def small_def)
    obtain r' w1' where "squeeze E f lvl i out w = Inr (Inr r', w1')"
      "z_stream_of K (window_bits_for f) (bytes_at (mem w1') (span_data out) (unat (bytes_written r'))) (span_bytes (mem w) i)"
      by (rule squeeze_decodable [OF ok enc(1-3) fit enc(4) refusal_zlib_format [OF ref False] ref sm v'])
    with sq False show ?thesis by (simp add: is_stream_of_def)
  qed
qed

lemma swell_reads_stream:
  fixes w :: "(64, 'b, 'm) world_scheme"
  assumes ok: "env_ok E" "wf_world w" "allocations_succeed E w" and rd: "one_shot_reads E K f" "backend_present E f"
    and zs: "is_stream_of K f (span_bytes (mem w) i) xs" and room: "length xs \<le> unat (span_size out)"
    and v: "whole_spans f i out"
  shows "\<exists>r w1. swell E f i out w = Inr (Inr r, w1) \<and> unat (bytes_written r) = length xs \<and>
    bytes_at (mem w1) (span_data out) (length xs) = xs"
proof (cases "f = Fmt_Zstd")
  case True
  have "zstd_heap_contract (zstd E)" using ok(1) by (simp add: env_ok_def)
  moreover have "apart (span_data i) (unat (span_size i)) (span_data out) (unat (span_size out))"
    using v by (simp add: whole_spans_def spans_valid_def spans_apart_def)
  ultimately show ?thesis
    using zstd_swell_bytes [OF _ ok(2,3) _ _ room] rd zs True
    by (auto simp: one_shot_reads_def is_stream_of_def swell_branches)
next
  case False
  have f: "is_zlib_format f" "has_zlib E" using rd(2) False by (auto simp: backend_present_def)
  have d: "zlib_decodes (zlib E) (z_stream_of K)" "z_stream_of K (window_bits_for f) (span_bytes (mem w) i) xs"
    using rd(1) zs False by (simp_all add: one_shot_reads_def is_stream_of_def)
  have sm: "unat (span_size i) < 2 ^ 32" "unat (span_size out) < 2 ^ 32" "spans_valid i out"
    using v False by (simp_all add: whole_spans_def small_def)
  show ?thesis by (rule swell_decodes [OF ok d(1) f d(2) room sm]) blast
qed

section \<open>Across the layers\<close>


text \<open>
  C15: \<open>swell\<close> restores what a compressor wrote. The bytes of the pushes, flushes and the finish of
  a session, put together in one span, decompress to exactly what the pushes took, at its length,
  for every format that the one-shot layer serves.
\<close>

theorem compressor_then_swell:
  fixes w w' :: "(64, 'b, 'm) stream_world_scheme" and w2 :: "(64, 'c, 'n) world_scheme"
  assumes "env_ok E" "compresses_streams E K" "zstd_end_progress (zstd E)" "stream_backend E f"
    and "compressing E f c xs ys w" "compressor_finish E c out w = Inr (Inr r, w')"
    and "bytes_produced r \<noteq> span_size out" "f = Fmt_Zstd \<or> small out"
    and "env_ok E2" "wf_world w2" "allocations_succeed E2 w2" "one_shot_reads E2 K f" "backend_present E2 f"
    and "span_bytes (mem w2) i2 = ys @ head_of (mem w') out (bytes_produced r)"
    and "length xs \<le> unat (span_size o2)" "whole_spans f i2 o2"
  shows "\<exists>q w3. swell E2 f i2 o2 w2 = Inr (Inr q, w3) \<and> unat (bytes_written q) = length xs \<and>
    bytes_at (mem w3) (span_data o2) (length xs) = xs"
proof -
  have "is_stream_of K f (span_bytes (mem w2) i2) xs"
    using compressing_finished [OF assms(5,1-4,6-8)] by (simp add: assms(14))
  then show ?thesis by (rule swell_reads_stream [OF assms(9-13) _ assms(15,16)])
qed

section \<open>Examples\<close>

lemma ref_one_shot [simp]:
  "one_shot_writes (ref_env os nd) (ref_codec os) ref_deflate_size f" "one_shot_reads (ref_env os nd) (ref_codec os) f"
proof -
  have "ref_is_frame = ref_dec 0" by (intro ext) (simp add: ref_is_frame_def)
  then have "zstd_decodes ref_zstd (ref_dec 0)" "zstd_formats_agree ref_frame (ref_dec 0)"
    using ref_zstd_decodes ref_frames_agree by simp_all
  then show "one_shot_writes (ref_env os nd) (ref_codec os) ref_deflate_size f" "one_shot_reads (ref_env os nd) (ref_codec os) f"
    using ref_zstd_encodes ref_encodes [of os] ref_bound_covers ref_deflate_bound ref_formats_agree [of os] ref_decodes
    by (auto simp: one_shot_writes_def one_shot_reads_def)
qed

lemma demo_squeezed:
  "\<exists>w1. squeeze (ref_env 3 True) Fmt_Zstd zlib_best demo_byte demo_out demo_world
    = Inr (Inr \<lparr>bytes_written = 3\<rparr>, w1) \<and> bytes_at (mem w1) 2000 3 = [1, 6, 0]"
proof -
  have "refusal (ref_env 3 True) Fmt_Zstd zlib_best 1 64 = None"
    by (simp add: refusal_None_iff backend_present_def ref_is_error_def)
  then show ?thesis
    by (simp add: squeeze_branches zstd_squeeze_def scoped_def zstd_squeezer_new_def ref_create_def
      zstd_squeezer_push_def ref_compress_def ref_enc_def length_tagged ref_is_error_def reply_def demo_byte_def
      zstd_squeezer_delete_def live_ctx_def demo_world_def bytes_at_def write_bytes_def upt_conv_Cons)
qed

lemma demo_whole: "whole_spans Fmt_Zstd demo_byte demo_out" "whole_spans Fmt_Zstd demo_frame demo_out"
  by (simp_all add: whole_spans_def spans_defs apart_def demo_byte_def demo_frame_def)

lemma demo_room: "room_to_finish ref_deflate_size Fmt_Zstd zlib_best demo_byte demo_out"
  by (simp add: room_to_finish_def)


lemma compressor_then_swell_witness:
  "\<exists>q w3. swell (ref_env 3 True) Fmt_Zstd demo_frame demo_out demo_got = Inr (Inr q, w3) \<and>
    unat (bytes_written q) = 1 \<and> bytes_at (mem w3) 2000 1 = [6]"
proof -
  have zs: "span_bytes (mem demo_got) demo_frame = [1, 6] @ head_of (mem (demo_sent\<lparr>mem := (mem demo_sent)(3000 := 0)\<rparr>)) demo_tail
      (bytes_produced \<lparr>bytes_consumed = 0, bytes_produced = 1, sr_done = True\<rparr>)"
    by (simp add: head_of_def demo_tail_def bytes_at_def)
  have w: "wf_world demo_got" by (simp add: demo_got_def demo_dzstd_def wf_world_def)
  have "ref_fresh (lib demo_got) \<noteq> None"
    by (simp add: ref_fresh_def demo_got_def demo_dzstd_def upt_conv_Cons)
  note al = ref_allocates_in [OF this, of 3 True]
  have E: "stream_backend (ref_env 3 True) Fmt_Zstd" "backend_present (ref_env 3 True) Fmt_Zstd"
    by (simp_all add: stream_backend_def backend_present_def)
  from compressor_then_swell [OF ref_env_ok ref_streams(1) _ E(1) demo_sending demo_session_finish _ _
      ref_env_ok w al ref_one_shot(2) E(2) zs _ demo_whole(2)]
  show ?thesis by (simp add: ref_zstd_progress demo_tail_def)
qed

end
