(* ===== verification/Trailing_Bytes.thy ===== *)
theory Trailing_Bytes
  imports Session_Properties
begin

text \<open>
  What \<open>decompressor::push\<close> (\<open>src/stream.cpp\<close>) makes of bytes that follow the end of a stream in
  one span: a second gzip member, another zstd frame, padding. A comment in \<open>src/detail/zstd.cpp\<close>
  names one policy for both backends, a single frame. Of the streaming calls, \<open>zlib_sweller::push_more\<close> reports how far it read and
  leaves the rest to the caller; \<open>zstd_sweller::push_more\<close> reports \<open>stream_corrupt\<close>.
\<close>

section \<open>What the libraries promise\<close>

text \<open>
  Both libraries stop at the end of the stream. When the rest of a stream is in the input, with
  anything after it, and there is room for the rest of the data, \<open>inflate\<close> returns
  \<open>Z_STREAM_END\<close> and \<open>ZSTD_decompressStream\<close> returns 0, each having read the stream and nothing
  after it, and having restored all of the data.
\<close>

definition zlib_stops ::
  "('l::len, 'b) zlib_api \<Rightarrow> (int \<Rightarrow> 'b \<Rightarrow> history \<Rightarrow> bool) \<Rightarrow> (int \<Rightarrow> u8 list \<Rightarrow> u8 list \<Rightarrow> bool) \<Rightarrow> bool" where
  "zlib_stops Z hist stream_of \<longleftrightarrow> (\<forall>wb st m L r st' m' L' b hs ys xs us vs.
     L (zstate st) = Some b \<longrightarrow> hist wb b hs \<longrightarrow> h_phase hs = Running \<longrightarrow> windows_set st \<longrightarrow>
     apart (next_in st) (unat (avail_in st)) (next_out st) (unat (avail_out st)) \<longrightarrow>
     stream_of wb ys xs \<longrightarrow> reads_in ys xs hs \<longrightarrow>
     bytes_at m (next_in st) (unat (avail_in st)) = us @ vs \<longrightarrow> h_taken hs @ us = ys \<longrightarrow>
     length xs \<le> length (h_given hs) + unat (avail_out st) \<longrightarrow>
     inflate Z st Z_NO_FLUSH m L = (r, st', m', L') \<longrightarrow>
     r = Z_STREAM_END \<and> taken st st' = length us \<and> h_given hs @ bytes_at m' (next_out st) (given st st') = xs)"

definition zstd_stops ::
  "'b zstd_api \<Rightarrow> ('b \<Rightarrow> history \<Rightarrow> bool) \<Rightarrow> (u8 list \<Rightarrow> u8 list \<Rightarrow> bool) \<Rightarrow> bool" where
  "zstd_stops S hist frame_of \<longleftrightarrow> (\<forall>a ob ib m L r ob' ib' m' L' b hs ys xs us vs.
     L a = Some b \<longrightarrow> hist b hs \<longrightarrow> h_phase hs = Running \<longrightarrow>
     ob_pos ob \<le> ob_size ob \<longrightarrow> ib_pos ib \<le> ib_size ib \<longrightarrow> buffers_apart ib ob \<longrightarrow>
     frame_of ys xs \<longrightarrow> reads_in ys xs hs \<longrightarrow>
     bytes_at m (ib_src ib + unat (ib_pos ib)) (unat (ib_size ib) - unat (ib_pos ib)) = us @ vs \<longrightarrow>
     h_taken hs @ us = ys \<longrightarrow> length xs \<le> length (h_given hs) + (unat (ob_size ob) - unat (ob_pos ob)) \<longrightarrow>
     ZSTD_decompressStream S a ob ib m L = (r, ob', ib', m', L') \<longrightarrow>
     r = 0 \<and> \<not> ZSTD_isError S r \<and> ib_between m ib ib' = us \<and> h_given hs @ ob_between m' ob ob' = xs)"

definition stops_at_end :: "('l::len, 'b) env \<Rightarrow> 'b stream_codec \<Rightarrow> bool" where
  "stops_at_end E K \<longleftrightarrow> zlib_stops (zlib E) (z_in K) (z_stream_of K) \<and> zstd_stops (zstd E) (s_in K) (s_frame_of K)"

section \<open>The calls\<close>

lemma trailing_zlib:
  fixes w :: "(64, 'b, 'm) stream_world_scheme"
  assumes E: "env_ok E" "zlib_stops (zlib E) (z_in K) (z_stream_of K)"
    and w: "wf_world w" "dimpls w (dp_impl d) = Some (Zlib_Sweller h)"
      "stream_history (z_in K) (window_bits_for f) (zsw_stream h) w hs" "h_phase hs = Running"
    and str: "z_stream_of K (window_bits_for f) zs xs" "reads_in zs xs hs"
    and i: "spans_valid i out" "small i" "small out" "span_bytes (mem w) i = us @ vs" "h_taken hs @ us = zs"
    and room: "length xs \<le> length (h_given hs) + unat (span_size out)"
  shows "\<exists>r w'. decompressor_push E d i out w = Inr (Inr r, w') \<and> sr_done r \<and> unat (bytes_consumed r) = length us \<and>
    h_given hs @ head_of (mem w') out (bytes_produced r) = xs"
proof -
  note law = lawful_backends(1) [OF E(1)]
  have "zready (zsw_stream h) w" using w(3) by (auto simp: stream_history_def zready_def)
  from zcall_defined [OF this] obtain z where z: "zcall (inflate (zlib E)) (zsw_stream h) Z_NO_FLUSH i out w = Inr z"
    by blast
  obtain st st' m L where st: "zstreams w (zsw_stream h) = Some st"
    and c: "inflate (zlib E) (set_windows i out st) Z_NO_FLUSH (mem w) (lib w) = (zc_ret z, st', m, L)"
    and wz: "zc_world z = w\<lparr>mem := m, lib := L, zstreams := (zstreams w)(zsw_stream h \<mapsto> st')\<rparr>"
    and n: "taken (set_windows i out st) st' = unat (zc_consumed z)"
      "given (set_windows i out st) st' = unat (zc_produced z)"
    using zlib_contract_steps(2) [OF law] w(1) z by (rule zcall_moves)
  obtain b where b: "lib w (zstate (set_windows i out st)) = Some b" "z_in K (window_bits_for f) b hs"
    using w(3) st by (auto simp: stream_history_def)
  have ws: "windows_set (set_windows i out st)" and ap: "spans_apart i out"
    using i(1) by (simp_all add: spans_valid_def windows_set_spans)
  have u: "unat (to_uInt (span_size i)) = unat (span_size i)" "unat (to_uInt (span_size out)) = unat (span_size out)"
    using i(2,3) by (simp_all add: small_def unat_to_uInt_small)
  have us: "bytes_at (mem w) (next_in (set_windows i out st)) (unat (avail_in (set_windows i out st))) = us @ vs"
    using i(4) u by (simp add: span_bytes_def)
  have rm: "length xs \<le> length (h_given hs) + unat (avail_out (set_windows i out st))" using room u by simp
  note k = E(2) [unfolded zlib_stops_def, rule_format, OF b w(4) ws windows_apart [OF ap] str us i(5) rm c]
  have "decompressor_push E d i out w
      = Inr (Inr \<lparr>bytes_consumed = zc_consumed z, bytes_produced = zc_produced z, sr_done = True\<rparr>, zc_world z)"
    using k by (simp add: decompressor_push_def decompressor_handle_def w(2) zlib_sweller_push_more_def z
        adapt_def stream_reply_of_def)
  then show ?thesis using k n by (simp add: head_of_def wz)
qed

lemma trailing_zstd:
  fixes w :: "(64, 'b, 'm) stream_world_scheme"
  assumes E: "env_ok E" "zstd_stops (zstd E) (s_in K) (s_frame_of K)"
    and w: "dimpls w (dp_impl d) = Some (Zstd_Sweller h)" "ctx_history (s_in K) (dctx h) w hs" "h_phase hs = Running"
    and str: "s_frame_of K zs xs" "reads_in zs xs hs"
    and i: "spans_apart i out" "span_bytes (mem w) i = us @ vs" "h_taken hs @ us = zs" "vs \<noteq> []"
    and room: "length xs \<le> length (h_given hs) + unat (span_size out)"
  shows "\<exists>e w'. decompressor_push E d i out w = Inr (Inl e, w') \<and> err_k e = Stream_Corrupt \<and> err_b e = Zstd_Id \<and>
    unat (err_pos e) = length us \<and> h_given hs @ bytes_at (mem w') (span_data out) (length xs - length (h_given hs)) = xs"
proof -
  obtain b where b: "lib w (dctx h) = Some b" "s_in K b hs" using w(2) by (auto simp: ctx_history_def)
  obtain r ob ib m L where c: "ZSTD_decompressStream (zstd E) (dctx h) (out_window out) (in_window i) (mem w) (lib w)
      = (r, ob, ib, m, L)" by (metis prod_cases5)
  have a: "buffers_apart (in_window i) (out_window out)" using i(1) by (simp add: buffers_apart_def spans_apart_def)
  have us: "bytes_at (mem w) (ib_src (in_window i) + unat (ib_pos (in_window i)))
      (unat (ib_size (in_window i)) - unat (ib_pos (in_window i))) = us @ vs"
    using i(2) by (simp add: span_bytes_def)
  have rm: "length xs \<le> length (h_given hs) + (unat (ob_size (out_window out)) - unat (ob_pos (out_window out)))"
    using room by simp
  have p: "ob_pos (out_window out) \<le> ob_size (out_window out)" "ib_pos (in_window i) \<le> ib_size (in_window i)" by simp_all
  note k = E(2) [unfolded zstd_stops_def, rule_format, OF b w(3) p a str us i(3) rm c]
  have io: "zstd_io_ok (out_window out) (in_window i) (mem w) ob ib m"
    using zstd_step_okD(1) [OF zstd_contract_steps(6) [OF lawful_backends(2) [OF E(1)]] p c] .
  have "ib_between (mem w) (in_window i) ib = us" using k by blast
  then have pos: "unat (ib_pos ib) = length us" by (auto simp: ib_between_def)
  have "length (span_bytes (mem w) i) = length us + length vs" using i(2) by simp
  then have "ib_pos ib < ib_size ib" using io pos i(4) by (simp add: zstd_io_ok_def span_bytes_def word_less_nat_alt)
  then have "decompressor_push E d i out w
      = Inr (Inl (mk_error Stream_Corrupt Zstd_Id (ib_pos ib) ''extra data after end of stream''), w\<lparr>mem := m, lib := L\<rparr>)"
    using k b by (auto simp: decompressor_push_def decompressor_handle_def w(1) zstd_sweller_push_more_def live_ctx_def c
        adapt_def stream_reply_of_def Let_def)
  moreover have g: "h_given hs @ ob_between m (out_window out) ob = xs" using k by blast
  then have "length (h_given hs) + unat (ob_pos ob) = length xs" by (auto simp: ob_between_def)
  then have "h_given hs @ bytes_at m (span_data out) (length xs - length (h_given hs)) = xs"
    using g by (simp add: ob_between_def) (metis add_diff_cancel_left')
  ultimately show ?thesis using pos by simp
qed

text \<open>
  C35: bytes after the end of a stream. A decompressor session has read \<open>rd\<close> of the stream \<open>zs\<close> of
  \<open>xs\<close> and is not done; the next span holds the rest of the stream and then something else, and
  there is room for the rest of the data. On zlib's formats the push succeeds with \<open>done\<close>, counts
  exactly the bytes of the stream as consumed and none of those after it, and has restored \<open>xs\<close>.
  On zstd the same push restores \<open>xs\<close> too, but returns \<open>stream_corrupt\<close> with the position in the
  span where the frame ended, and the counts and \<open>done\<close> are lost.
\<close>

theorem trailing_bytes_differ:
  fixes w :: "(64, 'b, 'm) stream_world_scheme"
  assumes "env_ok E" "decompresses_streams E K" "stops_at_end E K" "stream_backend E f"
    and "decompressing E f d zs rd res False w" "is_stream_of K f zs xs"
    and "spans_valid i out" "f = Fmt_Zstd \<or> small i \<and> small out"
    and "span_bytes (mem w) i = us @ vs" "rd @ us = zs" "vs \<noteq> []" "length xs \<le> length res + unat (span_size out)"
  shows "if f = Fmt_Zstd
    then \<exists>e w'. decompressor_push E d i out w = Inr (Inl e, w') \<and>
      err_k e = Stream_Corrupt \<and> err_b e = Zstd_Id \<and> unat (err_pos e) = length us \<and>
      res @ bytes_at (mem w') (span_data out) (length xs - length res) = xs
    else \<exists>r w'. decompressor_push E d i out w = Inr (Inr r, w') \<and>
      sr_done r \<and> unat (bytes_consumed r) = length us \<and> bytes_consumed r < span_size i \<and>
      res @ head_of (mem w') out (bytes_produced r) = xs"
proof -
  let ?hs = "\<lparr>h_phase = Running, h_taken = rd, h_given = res\<rparr>"
  have h: "wf_world w" "dp_history K f d w ?hs" "reads_in zs xs ?hs"
    using decompressing_history [OF assms(5,1,2,4,6)] by (simp_all add: reads_in_def)
  obtain v where v: "dimpls w (dp_impl d) = Some v" "sw_history K f v w ?hs" using h(2) by (auto simp: dp_history_def)
  have stops: "zlib_stops (zlib E) (z_in K) (z_stream_of K)" "zstd_stops (zstd E) (s_in K) (s_frame_of K)"
    using assms(3) by (simp_all add: stops_at_end_def)
  show ?thesis
  proof (cases "f = Fmt_Zstd")
    case True
    then obtain g where g: "v = Zstd_Sweller g" "ctx_history (s_in K) (dctx g) w ?hs" using v(2) by (cases v) auto
    have "s_frame_of K zs xs" "spans_apart i out" using assms(6,7) True by (simp_all add: is_stream_of_def spans_valid_def)
    from trailing_zstd [OF assms(1) stops(2) _ g(2) _ this(1) h(3) this(2) assms(9)] v(1) g(1) assms(10-12) True
    show ?thesis by simp
  next
    case False
    then obtain g where g: "v = Zlib_Sweller g" "stream_history (z_in K) (window_bits_for f) (zsw_stream g) w ?hs"
      using v(2) by (cases v) auto
    have z: "z_stream_of K (window_bits_for f) zs xs" "small i" "small out"
      using assms(6,8) False by (simp_all add: is_stream_of_def)
    have "length (span_bytes (mem w) i) = length us + length vs" using assms(9) by simp
    then have lt: "length us < unat (span_size i)" using assms(11) by (simp add: span_bytes_def)
    have dv: "dimpls w (dp_impl d) = Some (Zlib_Sweller g)" using v(1) g(1) by simp
    from trailing_zlib [OF assms(1) stops(1) h(1) dv g(2) _ z(1) h(3) assms(7) z(2,3) assms(9)] assms(10,12)
    obtain r w' where "decompressor_push E d i out w = Inr (Inr r, w')" "sr_done r" "unat (bytes_consumed r) = length us"
      "res @ head_of (mem w') out (bytes_produced r) = xs" by auto
    with lt False show ?thesis by (auto simp: word_less_nat_alt)
  qed
qed

section \<open>Example\<close>

lemma ref_scan_past:
  assumes d: "ref_dec wb ys xs" and us: "h_taken hs @ us = ys"
    and before: "ref_scan (ref_header_len wb) At_Tag (h_taken hs) = (n, md, h_given hs @ pend, [])"
    and now: "ref_scan n md (us @ vs) = (n', md', new, left)"
  shows "left = vs" "md' = At_End" "h_given hs @ pend @ new = xs"
proof -
  obtain n1 md1 new1 left1 where s: "ref_scan n md us = (n1, md1, new1, left1)" by (metis prod_cases4)
  have px: "prefix (h_taken hs @ us) ys" using us by simp
  note on = ref_scan_on [OF d px before s]
  have e: "md1 = At_End" "left1 = []" "h_given hs @ pend @ new1 = xs" using on us by auto
  have "n1 = 0" using ref_scan_skipping [OF on(2)] e(1) by fastforce
  with ref_scan_append [of n md us n1 md1 new1 vs] s e now show "left = vs" "md' = At_End" "h_given hs @ pend @ new = xs"
    by simp_all
qed

lemma ref_zlib_stops: "zlib_stops (ref_zlib os) ref_in ref_dec"
  unfolding zlib_stops_def ref_zlib_sel
proof (intro allI impI, goal_cases)
  case (1 wb st m L r st' m' L' b hs ys xs us vs)
  obtain skip md pend where b: "b = Ref_Dec skip md pend"
    and before: "ref_scan (ref_header_len wb) At_Tag (h_taken hs) = (skip, md, h_given hs @ pend, [])"
    using 1(2,3) by (cases b) auto
  obtain skip' md' new left where sc: "ref_scan skip md (us @ vs) = (skip', md', new, left)" by (metis prod_cases4)
  note p = ref_scan_past [OF 1(6,9) before sc]
  note f = ref_inflate_call [OF 1(11) 1(1) [unfolded b] sc [folded 1(8)]]
  have len: "length (us @ vs) = unat (avail_in st)" using 1(8) by (metis length_bytes_at)
  have k: "length (pend @ new) \<le> unat (avail_out st)" using 1(10) p(3) by auto
  show ?case
  proof (intro conjI)
    show "r = Z_STREAM_END" using f(7) p(2) k by blast
    show "taken st st' = length us" using f(3) p(1) len by simp
    show "h_given hs @ bytes_at m' (next_out st) (given st st') = xs" using f(5) p(3) k by simp
  qed
qed

lemma ref_zstd_stops: "zstd_stops ref_zstd (ref_in 0) (ref_dec 0)"
  unfolding zstd_stops_def ref_zstd_sel
proof (intro allI impI, goal_cases)
  case (1 a ob ib m L r ob' ib' m' L' b hs ys xs us vs)
  obtain skip md pend where b: "b = Ref_Dec skip md pend"
    and before: "ref_scan (ref_header_len 0) At_Tag (h_taken hs) = (skip, md, h_given hs @ pend, [])"
    using 1(2,3) by (cases b) auto
  obtain skip' md' new left where sc: "ref_scan skip md (us @ vs) = (skip', md', new, left)" by (metis prod_cases4)
  note p = ref_scan_past [OF 1(7,10) before sc]
  let ?k = "unat (ob_size ob) - unat (ob_pos ob)"
  have k: "length (pend @ new) \<le> ?k" using 1(11) p(3) by auto
  then have dr: "drop ?k (pend @ new) = []" "take ?k (pend @ new) = pend @ new" by (simp_all only: drop_eq_Nil take_all_iff)
  have len: "length (us @ vs) = unat (ib_size ib) - unat (ib_pos ib)" using 1(9) by (metis length_bytes_at)
  have len': "length (us @ vs) - length vs = length us" by simp
  have c: "ref_advance 0 a ob ib (length us) (pend @ new) (Ref_Dec skip' At_Tag []) m L = (r, ob', ib', m', L')"
    using 1(12) dr unfolding ref_decompress_stream_def 1(1) b ref_buffers_def 1(9)
    by (simp add: sc p(1,2) Let_def len' del: length_append drop_eq_Nil)
  have n: "length us \<le> unat (ib_size ib) - unat (ib_pos ib)" using len by simp
  note f = ref_advance_between [OF c 1(4,5) n k]
  have "ib_between m ib ib' = us"
    using f(1) 1(9) len by (metis append_eq_conv_conj le_add1 length_append take_bytes_at)
  with f p(3) show ?case by (simp add: ref_is_error_def)
qed

lemma ref_stops [simp]: "stops_at_end (ref_env os nd) (ref_codec os)"
  by (simp add: stops_at_end_def ref_zlib_stops ref_zstd_stops)

lemma trailing_bytes_differ_witness:
  "\<exists>e w'. decompressor_push (ref_env 3 True) \<lparr>dp_impl = 1\<rparr> \<lparr>span_data = 4000, span_size = 5\<rparr> demo_out demo_got
      = Inr (Inl e, w') \<and> err_k e = Stream_Corrupt \<and> unat (err_pos e) = 3 \<and> bytes_at (mem w') 2000 1 = [6]"
proof -
  let ?i = "\<lparr>span_data = 4000, span_size = 5\<rparr>"
  have v: "spans_valid ?i demo_out" by (simp add: spans_defs apart_def)
  have b: "span_bytes (mem demo_got) ?i = [1, 6, 0] @ [6, 0]"
    by (simp add: span_bytes_def demo_got_def demo_dzstd_def bytes_at_def upt_conv_Cons)
  have "stream_backend (ref_env 3 True) Fmt_Zstd" by (simp add: stream_backend_def)
  from trailing_bytes_differ [OF ref_env_ok ref_streams(2) ref_stops this demo_reading _ v _ b, of "[6]"]
  show ?thesis by (auto simp: is_stream_of_def ref_dec_def ref_header_len_def)
qed

end
