(* ===== verification/Interference.thy ===== *)
theory Interference
  imports Stream_Properties Stream_Sessions
begin

text \<open>
  What a statement of a program leaves alone: the objects it does not name, and the caller's
  memory outside the output span it was given.
\<close>

section \<open>What is kept\<close>

definition kept ::
  "owner \<Rightarrow> ('l::len, 'b, 'm) stream_world_scheme \<Rightarrow> ('l, 'b, 'm) stream_world_scheme \<Rightarrow> bool" where
  "kept o1 w w' \<longleftrightarrow> held w' o1 = held w o1 \<and> (\<forall>h. held w o1 = Some h \<longrightarrow>
     (\<forall>p \<in> h_cells h w. zstreams w' p = zstreams w p) \<and> (\<forall>a \<in> h_objects h w. lib w' a = lib w a))"

lemma kept_refl [simp]: "kept o1 w w"
  by (simp add: kept_def)

lemma touches_kept:
  assumes "touches P S w w'" "held w' o1 = held w o1"
    and "\<And>h. held w o1 = Some h \<Longrightarrow> h_cells h w \<inter> P = {} \<and> h_objects h w \<inter> S = {}"
  shows "kept o1 w w'"
  using assms unfolding kept_def touches_def by blast

lemma op_kept:
  assumes acc: "accounted w" and h: "held w o2 = Some h2" "o1 \<noteq> o2"
    and fr: "frame (h_cells h2 w) S w w1" "S - {0} = h_objects h2 w" "wf_world w1"
    and w': "zstreams w' = zstreams w1" "lib w' = lib w1" "held w' o1 = held w1 o1"
  shows "kept o1 w w'"
proof (rule touches_kept [of "h_cells h2 w" "h_objects h2 w"])
  show "touches (h_cells h2 w) (h_objects h2 w) w w'"
    using frame_touches [OF fr(1) accountedD(2) [OF acc] fr(3)] fr(2) w' by (simp add: touches_def)
  show "held w' o1 = held w o1" using fr(1) w'(3) held_more [of w1 w] by (simp add: frame_def)
  show "h_cells h w \<inter> h_cells h2 w = {} \<and> h_objects h w \<inter> h_objects h2 w = {}" if "held w o1 = Some h" for h
    using accountedD(4) [OF acc that h] .
qed

section \<open>Calls\<close>

lemma comp_call_local:
  assumes law: "handle_op (op :: compressor \<Rightarrow> span \<Rightarrow> span \<Rightarrow> ('l::len, 'b, 'm) stream_world_scheme
      \<Rightarrow> (stream_reply \<times> ('l, 'b, 'm) stream_world_scheme) run) cp_cells cp_objects cp_ready True"
    and acc: "accounted w" and v: "cimpls w (cp_impl c) = Some v" and op: "op c i out w = Inr (r, w')"
  shows "o1 \<noteq> Comp (cp_impl c) \<Longrightarrow> kept o1 w w'"
    "same_outside (mem w) (mem w') (span_data out) (unat (span_size out))"
proof -
  have h: "held w (Comp (cp_impl c)) = Some (Inl v)" using v by (simp add: held_def)
  have r: "cp_ready c w" using held_ready(1) [OF acc h refl] by (cases c) simp
  note ax = law TrueI accountedD(2) [OF acc] r op
  note fr = handle_op.op_frame [OF ax]
  have fp: "cp_cells c w = h_cells (Inl v) w" "cp_objects c w - {0} = h_objects (Inl v) w"
    using v by (simp_all add: footprint_defs over_def cp_get_def)
  show "kept o1 w w'" if "o1 \<noteq> Comp (cp_impl c)"
    by (rule op_kept [OF acc h that, of "cp_objects c w" w']) (use fr fp in simp_all)
  show "same_outside (mem w) (mem w') (span_data out) (unat (span_size out))"
    by (rule handle_op.op_writes [OF ax])
qed

lemma decomp_call_local:
  assumes law: "handle_op (op :: decompressor \<Rightarrow> span \<Rightarrow> span \<Rightarrow> ('l::len, 'b, 'm) stream_world_scheme
      \<Rightarrow> (stream_reply \<times> ('l, 'b, 'm) stream_world_scheme) run) dp_cells dp_objects dp_ready True"
    and acc: "accounted w" and v: "dimpls w (dp_impl d) = Some v" and op: "op d i out w = Inr (r, w')"
  shows "o1 \<noteq> Decomp (dp_impl d) \<Longrightarrow> kept o1 w w'"
    "same_outside (mem w) (mem w') (span_data out) (unat (span_size out))"
proof -
  have h: "held w (Decomp (dp_impl d)) = Some (Inr v)" using v by (simp add: held_def)
  have r: "dp_ready d w" using held_ready(2) [OF acc h refl] by (cases d) simp
  note ax = law TrueI accountedD(2) [OF acc] r op
  note fr = handle_op.op_frame [OF ax]
  have fp: "dp_cells d w = h_cells (Inr v) w" "dp_objects d w - {0} = h_objects (Inr v) w"
    using v by (simp_all add: footprint_defs over_def dp_get_def)
  show "kept o1 w w'" if "o1 \<noteq> Decomp (dp_impl d)"
    by (rule op_kept [OF acc h that, of "dp_objects d w" w']) (use fr fp in simp_all)
  show "same_outside (mem w) (mem w') (span_data out) (unat (span_size out))"
    by (rule handle_op.op_writes [OF ax])
qed

text \<open>All four calls at once, for whatever they return.\<close>

lemma calls_local:
  fixes w :: "('l::len, 'b, 'm) stream_world_scheme"
  assumes E: "env_ok E" "zstd_end_progress (zstd E)" and acc: "accounted w"
  shows "compressor_push E c i out w = Inr (r, w') \<Longrightarrow>
      (\<forall>o1. o1 \<noteq> Comp (cp_impl c) \<longrightarrow> kept o1 w w') \<and> same_outside (mem w) (mem w') (span_data out) (unat (span_size out))"
    "compressor_flush E c out w = Inr (r, w') \<Longrightarrow>
      (\<forall>o1. o1 \<noteq> Comp (cp_impl c) \<longrightarrow> kept o1 w w') \<and> same_outside (mem w) (mem w') (span_data out) (unat (span_size out))"
    "compressor_finish E c out w = Inr (r, w') \<Longrightarrow>
      (\<forall>o1. o1 \<noteq> Comp (cp_impl c) \<longrightarrow> kept o1 w w') \<and> same_outside (mem w) (mem w') (span_data out) (unat (span_size out))"
    "decompressor_push E d i out w = Inr (r, w') \<Longrightarrow>
      (\<forall>o1. o1 \<noteq> Decomp (dp_impl d) \<longrightarrow> kept o1 w w') \<and> same_outside (mem w) (mem w') (span_data out) (unat (span_size out))"
proof -
  note law = lawful_calls [OF E]
  have c: "\<exists>v. cimpls w (cp_impl c) = Some v" if "chain (compressor_handle c w) F = Inr x" for F and x :: 'x
    using that by (auto simp: compressor_handle_def chain_Inr_iff split: option.splits)
  have d: "\<exists>v. dimpls w (dp_impl d) = Some v" if "chain (decompressor_handle d w) F = Inr x" for F and x :: 'x
    using that by (auto simp: decompressor_handle_def chain_Inr_iff split: option.splits)
  show "(\<forall>o1. o1 \<noteq> Comp (cp_impl c) \<longrightarrow> kept o1 w w') \<and> same_outside (mem w) (mem w') (span_data out) (unat (span_size out))"
    if run: "compressor_push E c i out w = Inr (r, w')"
    using c [OF run [unfolded compressor_push_def]] comp_call_local [OF law(1) acc _ run] by blast
  show "(\<forall>o1. o1 \<noteq> Comp (cp_impl c) \<longrightarrow> kept o1 w w') \<and> same_outside (mem w) (mem w') (span_data out) (unat (span_size out))"
    if run: "compressor_flush E c out w = Inr (r, w')"
    using c [OF run [unfolded compressor_flush_def]] comp_call_local [OF law(2) acc _ run] by blast
  show "(\<forall>o1. o1 \<noteq> Comp (cp_impl c) \<longrightarrow> kept o1 w w') \<and> same_outside (mem w) (mem w') (span_data out) (unat (span_size out))"
    if run: "compressor_finish E c out w = Inr (r, w')"
    using c [OF run [unfolded compressor_finish_def]] comp_call_local [OF law(3) acc _ run] by blast
  show "(\<forall>o1. o1 \<noteq> Decomp (dp_impl d) \<longrightarrow> kept o1 w w') \<and> same_outside (mem w) (mem w') (span_data out) (unat (span_size out))"
    if run: "decompressor_push E d i out w = Inr (r, w')"
    using d [OF run [unfolded decompressor_push_def]] decomp_call_local [OF law(4) acc _ run] by blast
qed

section \<open>Construction\<close>

lemma built_kept:
  assumes acc: "accounted w" and fr: "frame P S (w\<lparr>brk := Suc (brk w)\<rparr>) w1"
    and fresh: "\<forall>a \<in> P. zstreams w a = None" "\<forall>a \<in> S. lib w a = None"
    and w': "zstreams w' = zstreams w1" "lib w' = lib w1" "held w' o1 = held w1 o1"
  shows "kept o1 w w'"
proof (rule touches_kept [of P S])
  show "touches P S w w'" using fr w'(1,2) by (simp add: frame_def touches_def)
  have "held w1 = held (w\<lparr>brk := Suc (brk w)\<rparr>)" using fr held_more [of w1 "w\<lparr>brk := Suc (brk w)\<rparr>"] by (simp add: frame_def)
  then show "held w' o1 = held w o1" using w'(3) by (simp add: held_def split: owner.split)
  show "h_cells h w \<inter> P = {} \<and> h_objects h w \<inter> S = {}" if "held w o1 = Some h" for h
    using ready_allocated [OF accountedD(3) [OF acc that]] fresh by fastforce
qed

lemma new_owner_free:
  assumes "accounted w" "held w o1 = Some h"
  shows "o1 \<noteq> Comp (brk w)" "o1 \<noteq> Decomp (brk w)"
  using accountedD(1) [OF assms(1)] assms(2) by (auto simp: wf_stream_def held_def)

lemma compressor_new_local:
  assumes E: "env_ok E" and acc: "accounted w" and run: "compressor_new E f lvl w = Inr (r, w')"
  shows "held w o1 = Some h \<Longrightarrow> kept o1 w w'" "mem w' = mem w"
proof -
  let ?w0 = "w\<lparr>brk := Suc (brk w)\<rparr>"
  have "(held w o1 = Some h \<longrightarrow> kept o1 w w') \<and> mem w' = mem w"
  proof (cases r)
    case (Inl e)
    with run have "w' = w" by (auto simp: compressor_new_def Let_def elim!: chain_InrE split: if_splits)
    then show ?thesis by simp
  next
    case (Inr c)
    with run obtain v w1 where mk: "make_squeezer E f lvl ?w0 = Inr (v, w1)" and w': "w' = w1\<lparr>cimpls := (cimpls w1)(brk w \<mapsto> v)\<rparr>"
      by (auto simp: compressor_new_def Let_def chain_Inr_iff split: if_splits)
    note c = squeezer_variant_life.create_fresh [OF E wf_world_brk [OF accountedD(2) [OF acc]] mk]
    have "kept o1 w w'" if h: "held w o1 = Some h"
      by (rule built_kept [OF acc, of "sq_cells v w1" "sq_objects v w1" w1])
        (use c new_owner_free [OF acc h] in \<open>simp_all add: w' held_impls\<close>)
    with c show ?thesis by (simp add: w')
  qed
  then show "held w o1 = Some h \<Longrightarrow> kept o1 w w'" "mem w' = mem w" by blast+
qed

lemma decompressor_new_local:
  assumes E: "env_ok E" and acc: "accounted w" and run: "decompressor_new E f w = Inr (d, w')"
  shows "held w o1 = Some h \<Longrightarrow> kept o1 w w'" "mem w' = mem w"
proof -
  let ?w0 = "w\<lparr>brk := Suc (brk w)\<rparr>"
  from run obtain v w1 where mk: "make_sweller E f ?w0 = Inr (v, w1)" and w': "w' = w1\<lparr>dimpls := (dimpls w1)(brk w \<mapsto> v)\<rparr>"
    by (auto simp: decompressor_new_def Let_def chain_Inr_iff)
  note c = sweller_variant_life.create_fresh [OF E wf_world_brk [OF accountedD(2) [OF acc]] mk]
  show "kept o1 w w'" if h: "held w o1 = Some h"
    by (rule built_kept [OF acc, of "sw_cells v w1" "sw_objects v w1" w1])
      (use c new_owner_free [OF acc h] in \<open>simp_all add: w' held_impls\<close>)
  show "mem w' = mem w" using c by (simp add: w')
qed

section \<open>Destruction\<close>

lemma compressor_delete_local:
  assumes E: "env_ok E" and acc: "accounted w" and run: "compressor_delete E c w = Inr w'"
  shows "o1 \<noteq> Comp (cp_impl c) \<Longrightarrow> kept o1 w w'" "mem w' = mem w"
proof -
  have "(o1 \<noteq> Comp (cp_impl c) \<longrightarrow> kept o1 w w') \<and> mem w' = mem w"
  proof (cases "cp_impl c = 0")
    case True
    with run show ?thesis by (simp add: compressor_delete_def)
  next
    case False
    from run False obtain v w1 where v: "cimpls w (cp_impl c) = Some v" "squeezer_variant_delete E v w = Inr w1"
      and w': "w' = w1\<lparr>cimpls := (cimpls w1)(cp_impl c := None)\<rparr>"
      by (auto simp: compressor_delete_def compressor_impl_delete_def compressor_handle_def chain_Inr_iff split: option.splits)
    have h: "held w (Comp (cp_impl c)) = Some (Inl v)" using v(1) by (simp add: held_def)
    have "sq_owned v w" using accountedD(3) [OF acc h] ready_owned(1) by simp
    with squeezer_variant_life.destroy_frees [OF E accountedD(2) [OF acc]] v(2)
    have d: "wf_world w1" "frame (sq_cells v w) (sq_objects v w) w w1" "mem w1 = mem w" by force+
    have "kept o1 w w'" if "o1 \<noteq> Comp (cp_impl c)"
      by (rule op_kept [OF acc h that, of "sq_objects v w" w1]) (use d that in \<open>simp_all add: w' held_impls\<close>)
    with d show ?thesis by (simp add: w')
  qed
  then show "o1 \<noteq> Comp (cp_impl c) \<Longrightarrow> kept o1 w w'" "mem w' = mem w" by blast+
qed

lemma decompressor_delete_local:
  assumes E: "env_ok E" and acc: "accounted w" and run: "decompressor_delete E d w = Inr w'"
  shows "o1 \<noteq> Decomp (dp_impl d) \<Longrightarrow> kept o1 w w'" "mem w' = mem w"
proof -
  have "(o1 \<noteq> Decomp (dp_impl d) \<longrightarrow> kept o1 w w') \<and> mem w' = mem w"
  proof (cases "dp_impl d = 0")
    case True
    with run show ?thesis by (simp add: decompressor_delete_def)
  next
    case False
    from run False obtain v w1 where v: "dimpls w (dp_impl d) = Some v" "sweller_variant_delete E v w = Inr w1"
      and w': "w' = w1\<lparr>dimpls := (dimpls w1)(dp_impl d := None)\<rparr>"
      by (auto simp: decompressor_delete_def decompressor_impl_delete_def decompressor_handle_def chain_Inr_iff split: option.splits)
    have h: "held w (Decomp (dp_impl d)) = Some (Inr v)" using v(1) by (simp add: held_def)
    have "sw_owned v w" using accountedD(3) [OF acc h] ready_owned(2) by simp
    with sweller_variant_life.destroy_frees [OF E accountedD(2) [OF acc]] v(2)
    have e: "wf_world w1" "frame (sw_cells v w) (sw_objects v w) w w1" "mem w1 = mem w" by force+
    have "kept o1 w w'" if "o1 \<noteq> Decomp (dp_impl d)"
      by (rule op_kept [OF acc h that, of "sw_objects v w" w1]) (use e that in \<open>simp_all add: w' held_impls\<close>)
    with e show ?thesis by (simp add: w')
  qed
  then show "o1 \<noteq> Decomp (dp_impl d) \<Longrightarrow> kept o1 w w'" "mem w' = mem w" by blast+
qed

section \<open>Statements\<close>

fun mentions :: "stmt \<Rightarrow> string set" where
  "mentions (New_Compressor x f lvl) = {x}"
| "mentions (New_Decompressor x f) = {x}"
| "mentions (Push x i out) = {x}"
| "mentions (Flush x out) = {x}"
| "mentions (Finish x out) = {x}"
| "mentions (Move_Construct x y) = {x, y}"
| "mentions (Move_Assign x y) = {x, y}"
| "mentions (Destroy x) = {x}"

text \<open>The span a statement may write.\<close>

fun written :: "stmt \<Rightarrow> span" where
  "written (Push x i out) = out"
| "written (Flush x out) = out"
| "written (Finish x out) = out"
| "written _ = empty_span"

lemma other_owner:
  assumes "well_owned s w" "owners s z = Some o1" "s x = Some v" "z \<noteq> x"
  shows "v = Comp_Var c \<Longrightarrow> o1 \<noteq> Comp (cp_impl c)" "v = Decomp_Var d \<Longrightarrow> o1 \<noteq> Decomp (dp_impl d)"
proof -
  have u: "owners s x \<noteq> Some o1" using well_ownedD(2) [OF assms(1)] assms(2,4) by (auto simp: unique_def)
  have nz: "o1 \<noteq> Comp 0 \<and> o1 \<noteq> Decomp 0"
    using assms(2) by (auto simp: owners_def elim!: ptr.elims split: option.splits if_splits)
  show "o1 \<noteq> Comp (cp_impl c)" if "v = Comp_Var c"
    using u nz assms(3) that by (auto simp: owners_def split: if_splits)
  show "o1 \<noteq> Decomp (dp_impl d)" if "v = Decomp_Var d"
    using u nz assms(3) that by (auto simp: owners_def split: if_splits)
qed

lemma exec_other_slots:
  assumes "exec E st (s, w) = Some (Inr (s', w'))" "z \<notin> mentions st"
  shows "s' z = s z"
  using assms
  by (cases st) (auto simp: chain_Inr_iff Let_def split: if_splits option.splits variable.splits prod.splits sum.split)

lemma assign_local:
  assumes E: "env_ok E" and acc: "accounted w"
  shows "compressor_assign E b c c2 w = Inr (cs, w') \<Longrightarrow>
      (\<forall>o1. o1 \<noteq> Comp (cp_impl c) \<longrightarrow> kept o1 w w') \<and> mem w' = mem w"
    "decompressor_assign E b d d2 w = Inr (ds, w') \<Longrightarrow>
      (\<forall>o1. o1 \<noteq> Decomp (dp_impl d) \<longrightarrow> kept o1 w w') \<and> mem w' = mem w"
proof -
  show "(\<forall>o1. o1 \<noteq> Comp (cp_impl c) \<longrightarrow> kept o1 w w') \<and> mem w' = mem w"
    if "compressor_assign E b c c2 w = Inr (cs, w')"
    using that compressor_delete_local [OF E acc]
    by (cases b) (auto simp: compressor_assign_def assign_eq(1) [unfolded compressor_assign_def, simplified] chain_Inr_iff)
  show "(\<forall>o1. o1 \<noteq> Decomp (dp_impl d) \<longrightarrow> kept o1 w w') \<and> mem w' = mem w"
    if "decompressor_assign E b d d2 w = Inr (ds, w')"
    using that decompressor_delete_local [OF E acc]
    by (cases b) (auto simp: decompressor_assign_def assign_eq(2) [unfolded decompressor_assign_def, simplified] chain_Inr_iff)
qed

lemma exec_local:
  fixes w :: "('l::len, 'b, 'm) stream_world_scheme"
  assumes E: "env_ok E" "zstd_end_progress (zstd E)" and i: "well_owned s w"
    and run: "exec E st (s, w) = Some (Inr (s', w'))"
  shows "z \<notin> mentions st \<Longrightarrow> owners s z = Some o1 \<Longrightarrow> kept o1 w w'"
    "same_outside (mem w) (mem w') (span_data (written st)) (unat (span_size (written st)))"
proof -
  note acc = well_ownedD(1) [OF i]
  note calls = calls_local [OF E acc] and ends = compressor_delete_local [OF E(1) acc] decompressor_delete_local [OF E(1) acc]
    and news = compressor_new_local [OF E(1) acc] decompressor_new_local [OF E(1) acc] and moves = assign_local [OF E(1) acc]
  show "kept o1 w w'" if z: "z \<notin> mentions st" "owners s z = Some o1"
  proof -
    obtain h where h: "held w o1 = Some h" using well_ownedD(4) [OF i z(2)] by blast
    note other = other_owner [OF i z(2)]
    show ?thesis
    proof (cases st)
      case (New_Compressor x f lvl)
      then show ?thesis using run news(1) [OF _ h] by (auto simp: chain_Inr_iff split: if_splits)
    next
      case (New_Decompressor x f)
      then show ?thesis using run news(3) [OF _ h] by (auto simp: chain_Inr_iff split: if_splits)
    next
      case (Push x sp out)
      then obtain v where v: "s x = Some v" "z \<noteq> x" using run z(1) by (auto split: option.splits)
      show ?thesis
      proof (cases v)
        case (Comp_Var c)
        then obtain r where "compressor_push E c sp out w = Inr (r, w')" using run v(1) Push by (auto simp: chain_Inr_iff)
        from calls(1) [OF this] other(1) [OF v Comp_Var] show ?thesis by blast
      next
        case (Decomp_Var d)
        then obtain r where "decompressor_push E d sp out w = Inr (r, w')" using run v(1) Push by (auto simp: chain_Inr_iff)
        from calls(4) [OF this] other(2) [OF v Decomp_Var] show ?thesis by blast
      qed
    next
      case (Flush x out)
      then obtain c r where v: "s x = Some (Comp_Var c)" "z \<noteq> x" and c: "compressor_flush E c out w = Inr (r, w')"
        using run z(1) by (auto simp: chain_Inr_iff split: option.splits variable.splits)
      from calls(2) [OF c] other(1) [OF v refl] show ?thesis by blast
    next
      case (Finish x out)
      then obtain c r where v: "s x = Some (Comp_Var c)" "z \<noteq> x" and c: "compressor_finish E c out w = Inr (r, w')"
        using run z(1) by (auto simp: chain_Inr_iff split: option.splits variable.splits)
      from calls(3) [OF c] other(1) [OF v refl] show ?thesis by blast
    next
      case (Move_Construct x y)
      then have "w' = w" using run by (auto simp: Let_def split: if_splits option.splits variable.splits prod.splits)
      then show ?thesis by simp
    next
      case (Move_Assign x y)
      have no: "s x = Some v \<Longrightarrow> v = Comp_Var c \<Longrightarrow> o1 \<noteq> Comp (cp_impl c)" "s x = Some v \<Longrightarrow> v = Decomp_Var d \<Longrightarrow> o1 \<noteq> Decomp (dp_impl d)" for v c d
        using other z(1) Move_Assign by auto
      show ?thesis using run no Move_Assign by (auto simp: chain_Inr_iff split: option.splits variable.splits dest!: moves)
    next
      case (Destroy x)
      then obtain v where v: "s x = Some v" "z \<noteq> x" using run z(1) by (auto split: option.splits)
      then show ?thesis using run Destroy other(1) [OF v] other(2) [OF v] ends(1,3)
        by (cases v) (auto simp: chain_Inr_iff)
    qed
  qed
  show "same_outside (mem w) (mem w') (span_data (written st)) (unat (span_size (written st)))"
  proof (cases st)
    case (Push x i out)
    then show ?thesis using run by (auto simp: chain_Inr_iff split: option.splits variable.splits dest: calls(1,4))
  next
    case (Flush x out)
    then show ?thesis using run by (auto simp: chain_Inr_iff split: option.splits variable.splits dest: calls(2))
  next
    case (Finish x out)
    then show ?thesis using run by (auto simp: chain_Inr_iff split: option.splits variable.splits dest: calls(3))
  next
    case (Move_Assign x y)
    then show ?thesis using run by (auto simp: chain_Inr_iff split: option.splits variable.splits dest!: moves)
  next
    case (Destroy x)
    then show ?thesis using run by (auto simp: chain_Inr_iff split: option.splits variable.splits dest!: ends(2,4))
  qed (use run in \<open>auto simp: chain_Inr_iff Let_def split: if_splits option.splits variable.splits prod.splits dest!: news(2,4)\<close>)
qed

section \<open>Non-interference\<close>

text \<open>
  C13: objects do not interfere. In every reachable state, a statement leaves each variable it does
  not name as it is, and everything that variable's object owns: its \<open>impl\<close>, its \<open>z_stream\<close> cell
  and its library object. Whatever a statement does to its own objects, of memory it changes at
  most the output span it was given.
\<close>

theorem objects_do_not_interfere:
  assumes "reachable E s w" "env_ok E" "zstd_end_progress (zstd E)"
    and "exec E st (s, w) = Some (Inr (s', w'))"
  shows "(z \<notin> mentions st \<longrightarrow> s' z = s z \<and> (\<forall>o1. owners s z = Some o1 \<longrightarrow> kept o1 w w')) \<and>
    same_outside (mem w) (mem w') (span_data (written st)) (unat (span_size (written st)))"
  using exec_local [OF assms(2,3) reachable_well_owned [OF assms(1-3)] assms(4)] exec_other_slots [OF assms(4)]
  by blast

text \<open>In the program of the examples: a second object is built, and the first is as it was.\<close>

lemma objects_do_not_interfere_witness:
  "\<exists>s' w'. exec (ref_env 3 True) (New_Decompressor ''b'' Fmt_Zstd)
      ([''a'' \<mapsto> Comp_Var \<lparr>cp_impl = 1\<rparr>], demo_zlib (Ref_Enc [] False)) = Some (Inr (s', w')) \<and>
    s' ''a'' = Some (Comp_Var \<lparr>cp_impl = 1\<rparr>) \<and> kept (Comp 1) (demo_zlib (Ref_Enc [] False)) w'"
proof -
  let ?E = "ref_env 3 True" and ?w = "demo_zlib (Ref_Enc [] False)" and ?s = "[''a'' \<mapsto> Comp_Var \<lparr>cp_impl = 1\<rparr>]"
  have zp: "zstd_end_progress (zstd ?E)" by (simp add: ref_zstd_progress)
  have "\<exists>d w'. decompressor_new ?E Fmt_Zstd ?w = Inr (d, w') \<and> well_owned (?s(''b'' \<mapsto> Decomp_Var d)) w'"
    by (rule new_decompressor_ok [OF _ _ reachable_well_owned [OF demo_reach_1 _ zp]]) simp_all
  then obtain d w' where "decompressor_new ?E Fmt_Zstd ?w = Inr (d, w')" by blast
  then have run: "exec ?E (New_Decompressor ''b'' Fmt_Zstd) (?s, ?w) = Some (Inr (?s(''b'' \<mapsto> Decomp_Var d), w'))" by simp
  show ?thesis
    using run objects_do_not_interfere [OF demo_reach_1 _ zp run, of "''a''"] by (simp add: owners_def)
qed

end
