(* ===== verification/Program_Streams.thy ===== *)
theory Program_Streams
  imports Interference Session_Properties Allocation_Ledger Stream_Scopes
begin

text \<open>
  Whole programs against an abstract machine of streams. A program over the streaming classes
  runs on \<open>impl\<close> objects, handles and library states; the abstract machine has, for each
  variable, only what its stream has taken and given. Every run of a program is a run of the
  machine, in whatever order the objects are built, called, moved and destroyed.
\<close>

section \<open>The abstract machine\<close>

text \<open>
  \<open>Emptied\<close> is moved from. \<open>Unspecified\<close> is an object whose libraries promise nothing any more:
  a call failed or was made outside the documented order, or its backend is not compiled in.
\<close>

datatype abs_object = Packer format history | Unpacker format history | Emptied | Unspecified

type_synonym store = "string \<rightharpoonup> abs_object"

text \<open>A decompressor is fed a stream \<open>ys\<close> of \<open>xs\<close>: what it has read, and now gets, is a part of it.\<close>

definition fed ::
  "'b stream_codec \<Rightarrow> format \<Rightarrow> history \<Rightarrow> memory \<Rightarrow> span \<Rightarrow> u8 list \<Rightarrow> u8 list \<Rightarrow> bool" where
  "fed K f hs m i ys xs \<longleftrightarrow> is_stream_of K f ys xs \<and> reads_in ys xs hs \<and> feeds ys hs m i"

text \<open>The calls that the documentation promises something about.\<close>

fun promised :: "'b stream_codec \<Rightarrow> memory \<Rightarrow> stmt \<Rightarrow> abs_object \<Rightarrow> bool" where
  "promised K m (Push x i out) (Packer f hs) \<longleftrightarrow> h_phase hs = Running \<and> spans_apart i out"
| "promised K m (Flush x out) (Packer f hs) \<longleftrightarrow> h_phase hs = Running"
| "promised K m (Finish x out) (Packer f hs) \<longleftrightarrow> h_phase hs \<noteq> Ended"
| "promised K m (Push x i out) (Unpacker f hs) \<longleftrightarrow> h_phase hs = Running \<and> spans_valid i out \<and> (\<exists>ys xs. fed K f hs m i ys xs)"
| "promised K m _ _ \<longleftrightarrow> False"

text \<open>
  One statement, with the reply its caller sees and the memory before and after it. \<open>has f\<close> says
  that the backend of a format is compiled in. A promised call on a decompressor does not fail.
\<close>

inductive abs_step ::
  "'b stream_codec \<Rightarrow> (format \<Rightarrow> bool) \<Rightarrow> stmt \<Rightarrow> stream_reply option \<Rightarrow> memory \<Rightarrow> memory \<Rightarrow> store \<Rightarrow> store \<Rightarrow> bool"
  for K has where
  packer_built: "A x = None \<Longrightarrow> f = Fmt_Zstd \<or> level_in_range lvl \<Longrightarrow>
    abs_step K has (New_Compressor x f lvl) q m m' A (A(x \<mapsto> if has f then Packer f new_history else Unspecified))"
| packer_refused: "A x = None \<Longrightarrow> \<not> (f = Fmt_Zstd \<or> level_in_range lvl) \<Longrightarrow>
    abs_step K has (New_Compressor x f lvl) q m m' A A"
| unpacker_built: "A x = None \<Longrightarrow>
    abs_step K has (New_Decompressor x f) q m m' A (A(x \<mapsto> if has f then Unpacker f new_history else Unspecified))"
| packed: "A x = Some (Packer f hs) \<Longrightarrow> h_phase hs = Running \<Longrightarrow> spans_apart i out \<Longrightarrow>
    abs_step K has (Push x i out) (Some (Inr r)) m m' A
      (A(x \<mapsto> Packer f (moved Running m i (bytes_consumed r) m' out (bytes_produced r) hs)))"
| packer_flushed: "A x = Some (Packer f hs) \<Longrightarrow> h_phase hs = Running \<Longrightarrow>
    abs_step K has (Flush x out) (Some (Inr r)) m m' A
      (A(x \<mapsto> Packer f (moved Running m empty_span 0 m' out (bytes_produced r) hs)))"
| packer_finished: "A x = Some (Packer f hs) \<Longrightarrow> h_phase hs \<noteq> Ended \<Longrightarrow> ph \<noteq> Running \<Longrightarrow>
    hs' = moved ph m empty_span 0 m' out (bytes_produced r) hs \<Longrightarrow>
    ph = Ended \<longrightarrow> is_stream_of K f (h_given hs') (h_taken hs') \<Longrightarrow>
    bytes_produced r \<noteq> span_size out \<longrightarrow> f = Fmt_Zstd \<or> small out \<longrightarrow> ph = Ended \<Longrightarrow>
    abs_step K has (Finish x out) (Some (Inr r)) m m' A (A(x \<mapsto> Packer f hs'))"
| unpacked: "A x = Some (Unpacker f hs) \<Longrightarrow> h_phase hs = Running \<Longrightarrow> spans_valid i out \<Longrightarrow> fed K f hs m i us vs \<Longrightarrow>
    hs' = moved (if sr_done r then Ended else Running) m i (bytes_consumed r) m' out (bytes_produced r) hs \<Longrightarrow>
    \<forall>ys xs. fed K f hs m i ys xs \<longrightarrow> reads_in ys xs hs' \<and> (sr_done r \<longleftrightarrow> h_taken hs' = ys \<and> h_given hs' = xs) \<Longrightarrow>
    abs_step K has (Push x i out) (Some (Inr r)) m m' A (A(x \<mapsto> Unpacker f hs'))"
| given_up: "A x = Some a \<Longrightarrow> target st = Some x \<Longrightarrow> a \<noteq> Emptied \<Longrightarrow>
    promised K m st a \<longrightarrow> (\<exists>f hs e. a = Packer f hs \<and> q = Some (Inl e)) \<Longrightarrow>
    abs_step K has st q m m' A (A(x \<mapsto> Unspecified))"
| move_constructed: "A x = None \<Longrightarrow> A y = Some a \<Longrightarrow>
    abs_step K has (Move_Construct x y) q m m' A (A(x \<mapsto> a, y \<mapsto> Emptied))"
| move_assigned: "A x = Some b \<Longrightarrow> A y = Some a \<Longrightarrow>
    abs_step K has (Move_Assign x y) q m m' A (if x = y then A else A(x \<mapsto> a, y \<mapsto> Emptied))"
| destroyed: "A x = Some a \<Longrightarrow> abs_step K has (Destroy x) q m m' A (A(x := None))"

section \<open>Programs with what their caller sees\<close>

datatype event = Event stmt "stream_reply option" memory memory

definition reply_in :: "(stream_reply \<times> 'w) run \<Rightarrow> stream_reply option" where
  "reply_in r = (case r of Inl e \<Rightarrow> None | Inr (q, w) \<Rightarrow> Some q)"

lemma reply_in_simps [simp]: "reply_in (Inr (q, w)) = Some q" "reply_in (Inl e) = None"
  by (simp_all add: reply_in_def)

fun seen_reply ::
  "('l::len, 'b) env \<Rightarrow> stmt \<Rightarrow> slots \<times> ('l, 'b, 'm) stream_world_scheme \<Rightarrow> stream_reply option" where
  "seen_reply E (Push x i out) (s, w) = (case s x of
     Some (Comp_Var c) \<Rightarrow> reply_in (compressor_push E c i out w)
   | Some (Decomp_Var d) \<Rightarrow> reply_in (decompressor_push E d i out w)
   | None \<Rightarrow> None)"
| "seen_reply E (Flush x out) (s, w) = (case s x of
     Some (Comp_Var c) \<Rightarrow> reply_in (compressor_flush E c out w)
   | _ \<Rightarrow> None)"
| "seen_reply E (Finish x out) (s, w) = (case s x of
     Some (Comp_Var c) \<Rightarrow> reply_in (compressor_finish E c out w)
   | _ \<Rightarrow> None)"
| "seen_reply E _ _ = None"

text \<open>
  Between two statements the caller may write its own memory and use the one-shot layer.
\<close>

inductive program ::
  "('l::len, 'b) env \<Rightarrow> event list \<Rightarrow> slots \<Rightarrow> ('l, 'b, 'm) stream_world_scheme \<Rightarrow> bool" for E where
  begun: "empty_heaps w \<Longrightarrow> program E [] Map.empty w"
| ran: "program E tr s w \<Longrightarrow> allocations_succeed E w \<Longrightarrow> exec E st (s, w) = Some (Inr (s', w')) \<Longrightarrow>
    program E (tr @ [Event st (seen_reply E st (s, w)) (mem w) (mem w')]) s' w'"
| wrote: "program E tr s w \<Longrightarrow> program E tr s (w\<lparr>mem := m\<rparr>)"
| squeezed: "program E tr s w \<Longrightarrow> squeeze E f lvl i out w = Inr (r, w') \<Longrightarrow> program E tr s w'"
| swelled: "program E tr s w \<Longrightarrow> swell E f i out w = Inr (r, w') \<Longrightarrow> program E tr s w'"

inductive abs_run ::
  "'b stream_codec \<Rightarrow> (format \<Rightarrow> bool) \<Rightarrow> event list \<Rightarrow> store \<Rightarrow> bool" for K has where
  abs_begun: "abs_run K has [] Map.empty"
| abs_ran: "abs_run K has tr A \<Longrightarrow> abs_step K has st q m m' A A' \<Longrightarrow> abs_run K has (tr @ [Event st q m m']) A'"

section \<open>The simulation relation\<close>

fun obj_rel ::
  "'b stream_codec \<Rightarrow> ('l::len, 'b, 'm) stream_world_scheme \<Rightarrow> variable \<Rightarrow> abs_object \<Rightarrow> bool" where
  "obj_rel K w (Comp_Var c) (Packer f hs) \<longleftrightarrow> cp_history K f c w hs"
| "obj_rel K w (Decomp_Var d) (Unpacker f hs) \<longleftrightarrow> dp_history K f d w hs"
| "obj_rel K w v Emptied \<longleftrightarrow> ptr v = None"
| "obj_rel K w v Unspecified \<longleftrightarrow> ptr v \<noteq> None"
| "obj_rel K w _ _ \<longleftrightarrow> False"

definition simulates ::
  "'b stream_codec \<Rightarrow> slots \<Rightarrow> ('l::len, 'b, 'm) stream_world_scheme \<Rightarrow> store \<Rightarrow> bool" where
  "simulates K s w A \<longleftrightarrow> well_owned s w \<and> (\<forall>x. rel_option (obj_rel K w) (s x) (A x))"

lemma simulatesD:
  assumes "simulates K s w A"
  shows "well_owned s w" "s x = None \<longleftrightarrow> A x = None" "s x = Some v \<Longrightarrow> \<exists>a. A x = Some a \<and> obj_rel K w v a"
proof -
  have r: "rel_option (obj_rel K w) (s x) (A x)" using assms by (simp add: simulates_def)
  show "well_owned s w" using assms by (simp add: simulates_def)
  show "s x = None \<longleftrightarrow> A x = None" using r by (cases "s x"; cases "A x") simp_all
  show "\<exists>a. A x = Some a \<and> obj_rel K w v a" if "s x = Some v" using r that by (cases "A x") simp_all
qed

lemma impl_eqs [simp]: "\<lparr>cp_impl = cp_impl c\<rparr> = c" "\<lparr>dp_impl = dp_impl d\<rparr> = d"
  by simp_all

text \<open>An object that is kept keeps its place in the relation.\<close>

lemma kept_untouched:
  assumes wf: "wf_world w" "wf_world w'"
  shows "cimpls w (cp_impl c) = Some v \<Longrightarrow> kept (Comp (cp_impl c)) w w' \<Longrightarrow> cp_untouched c w w'"
    "dimpls w (dp_impl d) = Some u \<Longrightarrow> kept (Decomp (dp_impl d)) w w' \<Longrightarrow> dp_untouched d w w'"
proof -
  have z: "lib w' 0 = lib w 0" using wf by (simp add: wf_world_def domIff)
  show "cp_untouched c w w'" if v: "cimpls w (cp_impl c) = Some v" and k: "kept (Comp (cp_impl c)) w w'"
  proof -
    have "lib w' a = lib w a" if "a \<in> sq_objects v w" for a
      using k v z that by (cases "a = 0") (simp_all add: kept_def held_def)
    then show ?thesis using k v wf(2)
      by (auto simp: cp_untouched_def kept_def held_def cp_cells_def cp_objects_def over_def cp_get_def split: option.splits)
  qed
  show "dp_untouched d w w'" if u: "dimpls w (dp_impl d) = Some u" and k: "kept (Decomp (dp_impl d)) w w'"
  proof -
    have "lib w' a = lib w a" if "a \<in> sw_objects u w" for a
      using k u z that by (cases "a = 0") (simp_all add: kept_def held_def)
    then show ?thesis using k u wf(2)
      by (auto simp: dp_untouched_def kept_def held_def dp_cells_def dp_objects_def over_def dp_get_def split: option.splits)
  qed
qed

lemma obj_rel_ptr:
  assumes "wf_stream w" "obj_rel K w v a" "a \<noteq> Emptied"
  shows "\<exists>o1. ptr v = Some o1"
proof (cases v)
  case (Comp_Var c)
  with assms show ?thesis by (cases a; cases "cp_impl c = 0") (auto simp: cp_history_def wf_stream_def domIff)
next
  case (Decomp_Var d)
  with assms show ?thesis by (cases a; cases "dp_impl d = 0") (auto simp: dp_history_def wf_stream_def domIff)
qed

lemma obj_rel_kept:
  assumes wf: "wf_stream w" "wf_world w'" and r: "obj_rel K w v a"
    and k: "\<And>o1. ptr v = Some o1 \<Longrightarrow> kept o1 w w'"
  shows "obj_rel K w' v a"
proof (cases a)
  case (Packer f hs)
  with r obtain c where v: "v = Comp_Var c" "cp_history K f c w hs" by (cases v) auto
  then obtain u where u: "cimpls w (cp_impl c) = Some u" by (auto simp: cp_history_def)
  have "ptr v = Some (Comp (cp_impl c))" using obj_rel_ptr [OF wf(1) r] Packer v(1) by (auto split: if_splits)
  then have "cp_untouched c w w'" using kept_untouched(1) [OF _ wf(2) u k] wf(1) by (simp add: wf_stream_def)
  with v cp_untouched_history show ?thesis by (auto simp: Packer)
next
  case (Unpacker f hs)
  with r obtain d where v: "v = Decomp_Var d" "dp_history K f d w hs" by (cases v) auto
  then obtain u where u: "dimpls w (dp_impl d) = Some u" by (auto simp: dp_history_def)
  have "ptr v = Some (Decomp (dp_impl d))" using obj_rel_ptr [OF wf(1) r] Unpacker v(1) by (auto split: if_splits)
  then have "dp_untouched d w w'" using kept_untouched(2) [OF _ wf(2) u k] wf(1) by (simp add: wf_stream_def)
  with v dp_untouched_history show ?thesis by (auto simp: Unpacker)
qed (use r in \<open>cases v; simp\<close>)+

section \<open>Every statement is a step of the machine\<close>

text \<open>What is left to show of a step: the variables that the statement names.\<close>

lemma simulates_after:
  fixes w :: "('l::len, 'b, 'm) stream_world_scheme"
  assumes sim: "simulates K s w A" and E: "env_ok E" "zstd_end_progress (zstd E)" "allocations_succeed E w"
    and run: "exec E st (s, w) = Some (Inr (s', w'))"
    and A: "\<And>z. z \<notin> mentions st \<Longrightarrow> A' z = A z"
    and new: "\<And>z. z \<in> mentions st \<Longrightarrow> rel_option (obj_rel K w') (s' z) (A' z)"
  shows "simulates K s' w' A'"
proof -
  note i = simulatesD(1) [OF sim]
  from exec_ok [OF E i run] have i': "well_owned s' w'" by (auto simp: stmt_ok_def split: if_splits)
  have wf: "wf_stream w" "wf_world w'"
    using accountedD(1) [OF well_ownedD(1) [OF i]] accountedD(2) [OF well_ownedD(1) [OF i']] by simp_all
  have "rel_option (obj_rel K w') (s' z) (A' z)" for z
  proof (cases "z \<in> mentions st")
    case False
    have k: "kept o1 w w'" if "s z = Some v" "ptr v = Some o1" for v o1
      using exec_local(1) [OF E(1,2) i run False] that by (simp add: owners_def)
    have "rel_option (obj_rel K w) (s z) (A z)" using sim by (simp add: simulates_def)
    then have "rel_option (obj_rel K w') (s z) (A z)"
      by (cases "s z"; cases "A z") (auto intro: obj_rel_kept [OF wf] k)
    then show ?thesis using exec_other_slots [OF run False] A [OF False] by simp
  qed (rule new)
  with i' show ?thesis by (simp add: simulates_def)
qed

lemma nonnull_after:
  fixes w :: "('l::len, 'b, 'm) stream_world_scheme"
  assumes "accounted w"
  shows "compressor_new E f lvl w = Inr (Inr c, w') \<Longrightarrow> ptr (Comp_Var c) \<noteq> None"
    "decompressor_new E f w = Inr (d, w') \<Longrightarrow> ptr (Decomp_Var d) \<noteq> None"
proof -
  have b: "brk w \<noteq> 0" using accountedD(2) [OF assms] by (simp add: wf_world_def)
  show "ptr (Comp_Var c) \<noteq> None" if "compressor_new E f lvl w = Inr (Inr c, w')"
    using that b by (auto simp: compressor_new_def Let_def chain_Inr_iff split: if_splits)
  show "ptr (Decomp_Var d) \<noteq> None" if "decompressor_new E f w = Inr (d, w')"
    using that b by (auto simp: decompressor_new_def Let_def chain_Inr_iff)
qed

lemma simulates_new:
  fixes w :: "(64, 'b, 'm) stream_world_scheme"
  assumes sim: "simulates K s w A" and E: "env_ok E" "zstd_end_progress (zstd E)" "allocations_succeed E w"
    and K: "compresses_streams E K" "decompresses_streams E K"
    and run: "exec E st (s, w) = Some (Inr (s', w'))"
  shows "st = New_Compressor x f lvl \<Longrightarrow> \<exists>A'. abs_step K (stream_backend E) st q m m' A A' \<and> simulates K s' w' A'"
    "st = New_Decompressor x f \<Longrightarrow> \<exists>A'. abs_step K (stream_backend E) st q m m' A A' \<and> simulates K s' w' A'"
proof -
  note acc = well_ownedD(1) [OF simulatesD(1) [OF sim]] and after = simulates_after [OF sim E run]
  show "\<exists>A'. abs_step K (stream_backend E) st q m m' A A' \<and> simulates K s' w' A'" if st: "st = New_Compressor x f lvl"
  proof -
    obtain r where x: "s x = None" and r: "compressor_new E f lvl w = Inr (r, w')"
      and s': "s' = (case r of Inl e \<Rightarrow> s | Inr c \<Rightarrow> s(x \<mapsto> Comp_Var c))"
      using run st by (auto simp: chain_Inr_iff split: if_splits)
    have Ax: "A x = None" using simulatesD(2) [OF sim] x by blast
    show ?thesis
    proof (cases r)
      case (Inl e)
      then have no: "\<not> (f = Fmt_Zstd \<or> level_in_range lvl)" and w': "w' = w"
        using r by (auto simp: compressor_new_def level_in_range_def Let_def chain_Inr_iff split: if_splits)
      have "abs_step K (stream_backend E) st q m m' A A" unfolding st by (rule packer_refused [of A x, OF Ax no])
      with sim show ?thesis by (auto simp: s' Inl w')
    next
      case (Inr c)
      then have lvl: "f = Fmt_Zstd \<or> level_in_range lvl"
        using r by (auto simp: compressor_new_def level_in_range_def Let_def split: if_splits)
      let ?a = "if stream_backend E f then Packer f new_history else Unspecified"
      have "obj_rel K w' (Comp_Var c) ?a"
        using compressor_new_history [OF K(1) _ E(3)] nonnull_after(1) [OF acc] r Inr by auto
      then have "simulates K s' w' (A(x \<mapsto> ?a))" by (intro after) (auto simp: st s' Inr)
      moreover have "abs_step K (stream_backend E) st q m m' A (A(x \<mapsto> ?a))" unfolding st by (rule packer_built [of A x, OF Ax lvl])
      ultimately show ?thesis by blast
    qed
  qed
  show "\<exists>A'. abs_step K (stream_backend E) st q m m' A A' \<and> simulates K s' w' A'" if st: "st = New_Decompressor x f"
  proof -
    obtain d where x: "s x = None" and d: "decompressor_new E f w = Inr (d, w')" and s': "s' = s(x \<mapsto> Decomp_Var d)"
      using run st by (auto simp: chain_Inr_iff split: if_splits)
    have Ax: "A x = None" using simulatesD(2) [OF sim] x by blast
    let ?a = "if stream_backend E f then Unpacker f new_history else Unspecified"
    have "obj_rel K w' (Decomp_Var d) ?a"
      using decompressor_new_history [OF K(2) _ E(3) d] nonnull_after(2) [OF acc d] by auto
    then have "simulates K s' w' (A(x \<mapsto> ?a))" by (intro after) (auto simp: st s')
    moreover have "abs_step K (stream_backend E) st q m m' A (A(x \<mapsto> ?a))" unfolding st by (rule unpacker_built [of A x, OF Ax])
    ultimately show ?thesis by blast
  qed
qed

lemma simulates_moves:
  fixes w :: "('l::len, 'b, 'm) stream_world_scheme"
  assumes sim: "simulates K s w A" and E: "env_ok E" "zstd_end_progress (zstd E)" "allocations_succeed E w"
    and run: "exec E st (s, w) = Some (Inr (s', w'))"
  shows "st = Move_Construct x y \<Longrightarrow> \<exists>A'. abs_step K has st q m m' A A' \<and> simulates K s' w' A'"
    "st = Move_Assign x y \<Longrightarrow> \<exists>A'. abs_step K has st q m m' A A' \<and> simulates K s' w' A'"
    "st = Destroy x \<Longrightarrow> \<exists>A'. abs_step K has st q m m' A A' \<and> simulates K s' w' A'"
proof -
  note i = simulatesD(1) [OF sim]
  note acc = well_ownedD(1) [OF i] and after = simulates_after [OF sim E run]
  show "\<exists>A'. abs_step K has st q m m' A A' \<and> simulates K s' w' A'" if st: "st = Move_Construct x y"
  proof -
    obtain v where x: "s x = None" "s y = Some v" and w': "w' = w"
      using run st by (auto simp: Let_def split: if_splits option.splits variable.splits prod.splits)
    obtain a where a: "A y = Some a" "obj_rel K w v a" using simulatesD(3) [OF sim x(2)] by blast
    have Ax: "A x = None" using simulatesD(2) [OF sim] x(1) by blast
    have xy: "x \<noteq> y" using x by auto
    have "rel_option (obj_rel K w) (s' x) (Some a) \<and> rel_option (obj_rel K w) (s' y) (Some Emptied)"
      using run st x a(2) xy by (cases v) (auto simp: compressor_move_def decompressor_move_def)
    then have "simulates K s' w' (A(x \<mapsto> a, y \<mapsto> Emptied))"
      by (intro after) (use xy in \<open>auto simp: st w'\<close>)
    with move_constructed [of A x y, OF Ax a(1)] show ?thesis unfolding st by blast
  qed
  show "\<exists>A'. abs_step K has st q m m' A A' \<and> simulates K s' w' A'" if st: "st = Move_Assign x y"
  proof -
    obtain u v where x: "s x = Some u" "s y = Some v"
      using run st by (auto split: option.splits variable.splits)
    obtain b a where a: "A x = Some b" "A y = Some a" "obj_rel K w v a"
      using simulatesD(3) [OF sim x(1)] simulatesD(3) [OF sim x(2)] by blast
    have "simulates K s' w' (if x = y then A else A(x \<mapsto> a, y \<mapsto> Emptied))"
    proof (cases "x = y")
      case True
      then have "s' = s \<and> w' = w" using run st x
        by (auto simp: compressor_assign_def decompressor_assign_def split: variable.splits)
      with True sim show ?thesis by simp
    next
      case False
      have wf: "wf_stream w" "wf_world w'"
        using accountedD(1) [OF acc] exec_ok [OF E i run] by (auto simp: stmt_ok_def st dest: well_ownedD(1) accountedD(2) split: if_splits)
      have k: "kept o1 w w'" if "ptr v = Some o1" for o1
      proof -
        have o1: "owners s y = Some o1" using x(2) that by (simp add: owners_def)
        show ?thesis using run st x False other_owner [OF i o1 x(1)] assign_local [OF E(1) acc]
          by (cases u; cases v) (fastforce simp: chain_Inr_iff)+
      qed
      have "rel_option (obj_rel K w') (s' x) (Some a) \<and> rel_option (obj_rel K w') (s' y) (Some Emptied)"
        using run st x False obj_rel_kept [OF wf a(3) k]
        by (cases u; cases v) (auto simp: chain_Inr_iff assign_eq compressor_move_def decompressor_move_def)
      then show ?thesis using False by (intro after) (auto simp: st)
    qed
    with move_assigned [of A x _ y, OF a(1,2)] show ?thesis unfolding st by blast
  qed
  show "\<exists>A'. abs_step K has st q m m' A A' \<and> simulates K s' w' A'" if st: "st = Destroy x"
  proof -
    obtain v where x: "s x = Some v" "s' = s(x := None)"
      using run st by (auto simp: chain_Inr_iff split: option.splits variable.splits)
    obtain a where a: "A x = Some a" using simulatesD(3) [OF sim x(1)] by blast
    have "simulates K s' w' (A(x := None))" by (intro after) (auto simp: st x(2))
    with destroyed [of A x, OF a] show ?thesis unfolding st by blast
  qed
qed

text \<open>A call names one variable, which has an object; it changes no variable.\<close>

lemma called:
  fixes w :: "('l::len, 'b, 'm) stream_world_scheme"
  assumes sim: "simulates K s w A" and E: "env_ok E" "zstd_end_progress (zstd E)" "allocations_succeed E w"
    and run: "exec E st (s, w) = Some (Inr (s', w'))" and t: "target st = Some x"
  obtains v a where "s x = Some v" "A x = Some a" "obj_rel K w v a" "a \<noteq> Emptied" "ptr v \<noteq> None" "s' = s" "mentions st = {x}"
proof -
  have "\<not> uses_moved_from st s" using exec_ok [OF E simulatesD(1) [OF sim] run] by (auto simp: stmt_ok_def)
  then obtain v where v: "s x = Some v" "ptr v \<noteq> None" using t by (auto simp: uses_moved_from_def owners_def split: option.splits)
  obtain a where a: "A x = Some a" "obj_rel K w v a" using simulatesD(3) [OF sim v(1)] by blast
  have "a \<noteq> Emptied" using a(2) v(2) by auto
  moreover have "s' = s" "mentions st = {x}"
    using run t by (cases st; auto simp: chain_Inr_iff split: option.splits variable.splits)+
  ultimately show thesis using that v a by blast
qed

lemma simulates_call:
  fixes w :: "('l::len, 'b, 'm) stream_world_scheme"
  assumes sim: "simulates K s w A" and E: "env_ok E" "zstd_end_progress (zstd E)" "allocations_succeed E w"
    and run: "exec E st (s, w) = Some (Inr (s', w'))" and t: "target st = Some x"
    and x: "s x = Some v" and a: "obj_rel K w' v a" and step: "abs_step K has st q m m' A (A(x \<mapsto> a))"
  shows "\<exists>A'. abs_step K has st q m m' A A' \<and> simulates K s' w' A'"
proof -
  obtain "s' = s" "mentions st = {x}" by (rule called [OF sim E run t])
  then have "simulates K s' w' (A(x \<mapsto> a))" by (intro simulates_after [OF sim E run]) (use x a in auto)
  with step show ?thesis by blast
qed

lemma gives_up:
  fixes w :: "('l::len, 'b, 'm) stream_world_scheme"
  assumes sim: "simulates K s w A" and E: "env_ok E" "zstd_end_progress (zstd E)" "allocations_succeed E w"
    and run: "exec E st (s, w) = Some (Inr (s', w'))" and t: "target st = Some x"
    and no: "\<And>a. A x = Some a \<Longrightarrow> promised K m st a \<Longrightarrow> \<exists>f hs e. a = Packer f hs \<and> q = Some (Inl e)"
  shows "\<exists>A'. abs_step K has st q m m' A A' \<and> simulates K s' w' A'"
proof -
  obtain v a where x: "s x = Some v" "A x = Some a" "a \<noteq> Emptied" "ptr v \<noteq> None"
    by (rule called [OF sim E run t])
  have "abs_step K has st q m m' A (A(x \<mapsto> Unspecified))"
    by (rule given_up [of A x, OF x(2) t x(3)]) (use no [OF x(2)] in blast)
  then show ?thesis by (rule simulates_call [OF sim E run t x(1), rotated]) (use x(4) in simp)
qed

lemma simulates_comp_calls:
  fixes w :: "(64, 'b, 'm) stream_world_scheme"
  assumes sim: "simulates K s w A" and E: "env_ok E" "zstd_end_progress (zstd E)" "allocations_succeed E w"
    and K: "compresses_streams E K" and x: "s x = Some (Comp_Var c)"
    and run: "exec E st (s, w) = Some (Inr (s', w'))"
  shows "st = Push x i out \<Longrightarrow> \<exists>A'. abs_step K has st (seen_reply E st (s, w)) (mem w) (mem w') A A' \<and> simulates K s' w' A'"
    "st = Flush x out \<Longrightarrow> \<exists>A'. abs_step K has st (seen_reply E st (s, w)) (mem w) (mem w') A A' \<and> simulates K s' w' A'"
    "st = Finish x out \<Longrightarrow> \<exists>A'. abs_step K has st (seen_reply E st (s, w)) (mem w) (mem w') A A' \<and> simulates K s' w' A'"
proof -
  note wf = accountedD(2) [OF well_ownedD(1) [OF simulatesD(1) [OF sim]]]
  obtain a where a: "A x = Some a" "obj_rel K w (Comp_Var c) a" using simulatesD(3) [OF sim x] by blast
  have history: "cp_history K f c w hs" if "a = Packer f hs" for f hs using a(2) that by simp
  have no_unpacker: "a \<noteq> Unpacker f hs" for f hs using a(2) by auto
  note give = gives_up [OF sim E run] and go = simulates_call [OF sim E run _ x]
  show "\<exists>A'. abs_step K has st (seen_reply E st (s, w)) (mem w) (mem w') A A' \<and> simulates K s' w' A'" if st: "st = Push x i out"
  proof -
    obtain r where r: "compressor_push E c i out w = Inr (r, w')" and q: "seen_reply E st (s, w) = Some r"
      using run x by (auto simp: st chain_Inr_iff)
    show ?thesis
    proof (cases "\<exists>f hs k. a = Packer f hs \<and> h_phase hs = Running \<and> spans_apart i out \<and> r = Inr k")
      case True
      then obtain f hs k where p: "a = Packer f hs" "h_phase hs = Running" "spans_apart i out" and k: "r = Inr k" by blast
      have "obj_rel K w' (Comp_Var c) (Packer f (moved Running (mem w) i (bytes_consumed k) (mem w') out (bytes_produced k) hs))"
        using compressor_push_history(1) [OF E(1) K wf history [OF p(1)] p(2,3) r [unfolded k]] by simp
      then show ?thesis unfolding q k
        by (rule go [rotated]) (use a(1) p in \<open>auto simp: st intro!: packed\<close>)
    next
      case False
      have "\<exists>f hs e. b = Packer f hs \<and> Some r = Some (Inl e)" if "A x = Some b" "promised K (mem w) st b" for b
        using that False a(1) no_unpacker by (cases b; cases r) (auto simp: st)
      then show ?thesis unfolding q by (intro give [of x]) (simp_all add: st)
    qed
  qed
  show "\<exists>A'. abs_step K has st (seen_reply E st (s, w)) (mem w) (mem w') A A' \<and> simulates K s' w' A'" if st: "st = Flush x out"
  proof -
    obtain r where r: "compressor_flush E c out w = Inr (r, w')" and q: "seen_reply E st (s, w) = Some r"
      using run x by (auto simp: st chain_Inr_iff)
    show ?thesis
    proof (cases "\<exists>f hs k. a = Packer f hs \<and> h_phase hs = Running \<and> r = Inr k")
      case True
      then obtain f hs k where p: "a = Packer f hs" "h_phase hs = Running" and k: "r = Inr k" by blast
      have "obj_rel K w' (Comp_Var c) (Packer f (moved Running (mem w) empty_span 0 (mem w') out (bytes_produced k) hs))"
        using compressor_flush_history(1) [OF E(1) K wf history [OF p(1)] p(2) r [unfolded k]] by simp
      then show ?thesis unfolding q k
        by (rule go [rotated]) (use a(1) p in \<open>auto simp: st intro!: packer_flushed\<close>)
    next
      case False
      have "\<exists>f hs e. b = Packer f hs \<and> Some r = Some (Inl e)" if "A x = Some b" "promised K (mem w) st b" for b
        using that False a(1) no_unpacker by (cases b; cases r) (auto simp: st)
      then show ?thesis unfolding q by (intro give [of x]) (simp_all add: st)
    qed
  qed
  show "\<exists>A'. abs_step K has st (seen_reply E st (s, w)) (mem w) (mem w') A A' \<and> simulates K s' w' A'" if st: "st = Finish x out"
  proof -
    obtain r where r: "compressor_finish E c out w = Inr (r, w')" and q: "seen_reply E st (s, w) = Some r"
      using run x by (auto simp: st chain_Inr_iff)
    show ?thesis
    proof (cases "\<exists>f hs k. a = Packer f hs \<and> h_phase hs \<noteq> Ended \<and> r = Inr k")
      case True
      then obtain f hs k where p: "a = Packer f hs" "h_phase hs \<noteq> Ended" and k: "r = Inr k" by blast
      obtain ph where ph: "ph \<noteq> Running"
        "cp_history K f c w' (moved ph (mem w) empty_span 0 (mem w') out (bytes_produced k) hs)"
        "ph = Ended \<longrightarrow> is_stream_of K f (h_given hs @ head_of (mem w') out (bytes_produced k)) (h_taken hs)"
        "bytes_produced k \<noteq> span_size out \<longrightarrow> f = Fmt_Zstd \<or> small out \<longrightarrow> ph = Ended"
        using compressor_finish_history(1) [OF E(1) K E(2) wf history [OF p(1)] p(2) r [unfolded k]]
        by (auto simp: finished_def)
      have "obj_rel K w' (Comp_Var c) (Packer f (moved ph (mem w) empty_span 0 (mem w') out (bytes_produced k) hs))"
        using ph(2) by simp
      then show ?thesis unfolding q k
        by (rule go [rotated]) (use a(1) p ph in \<open>auto simp: st intro!: packer_finished\<close>)
    next
      case False
      have "\<exists>f hs e. b = Packer f hs \<and> Some r = Some (Inl e)" if "A x = Some b" "promised K (mem w) st b" for b
        using that False a(1) no_unpacker by (cases b; cases r) (auto simp: st)
      then show ?thesis unfolding q by (intro give [of x]) (simp_all add: st)
    qed
  qed
qed

lemma simulates_decomp_call:
  fixes w :: "(64, 'b, 'm) stream_world_scheme"
  assumes sim: "simulates K s w A" and E: "env_ok E" "zstd_end_progress (zstd E)" "allocations_succeed E w"
    and K: "decompresses_streams E K" and x: "s x = Some (Decomp_Var d)" and st: "st = Push x i out"
    and run: "exec E st (s, w) = Some (Inr (s', w'))"
  shows "\<exists>A'. abs_step K has st (seen_reply E st (s, w)) (mem w) (mem w') A A' \<and> simulates K s' w' A'"
proof -
  note wf = accountedD(2) [OF well_ownedD(1) [OF simulatesD(1) [OF sim]]]
  obtain a where a: "A x = Some a" "obj_rel K w (Decomp_Var d) a" using simulatesD(3) [OF sim x] by blast
  obtain r where r: "decompressor_push E d i out w = Inr (r, w')" and q: "seen_reply E st (s, w) = Some r"
    using run x by (auto simp: st chain_Inr_iff)
  show ?thesis
  proof (cases "promised K (mem w) st a")
    case False
    then show ?thesis by (intro gives_up [OF sim E run, of x]) (simp_all add: st a(1))
  next
    case True
    with a(2) obtain f hs us vs where p: "a = Unpacker f hs" "h_phase hs = Running" "spans_valid i out" "fed K f hs (mem w) i us vs"
      by (cases a) (auto simp: st)
    have h: "dp_history K f d w hs" using a(2) p(1) by simp
    have push: "\<exists>k. r = Inr k \<and> reads_on K f d i out w hs ys xs k w'" if "fed K f hs (mem w) i ys xs" for ys xs
    proof -
      have y: "is_stream_of K f ys xs" "reads_in ys xs hs" "feeds ys hs (mem w) i" using that by (simp_all add: fed_def)
      from decompressor_push_reads [OF E(1) K wf h p(2,3) y] r show ?thesis by force
    qed
    obtain k where k: "r = Inr k" using push [OF p(4)] by blast
    let ?hs = "moved (if sr_done k then Ended else Running) (mem w) i (bytes_consumed k) (mem w') out (bytes_produced k) hs"
    have "obj_rel K w' (Decomp_Var d) (Unpacker f ?hs)"
      using push [OF p(4)] unfolding k reads_on_def Let_def sum.inject obj_rel.simps by blast
    moreover have "\<forall>ys xs. fed K f hs (mem w) i ys xs \<longrightarrow> reads_in ys xs ?hs \<and> (sr_done k \<longleftrightarrow> h_taken ?hs = ys \<and> h_given ?hs = xs)"
      using push unfolding k reads_on_def Let_def sum.inject by blast
    then have "abs_step K has st (Some (Inr k)) (mem w) (mem w') A (A(x \<mapsto> Unpacker f ?hs))"
      unfolding st by (rule unpacked [of A x, OF a(1) [unfolded p(1)] p(2-4) refl])
    ultimately show ?thesis unfolding q k by (rule simulates_call [OF sim E run _ x, rotated]) (simp add: st)
  qed
qed

lemma simulation_step:
  fixes w :: "(64, 'b, 'm) stream_world_scheme"
  assumes sim: "simulates K s w A" and E: "env_ok E" "zstd_end_progress (zstd E)" "allocations_succeed E w"
    and K: "compresses_streams E K" "decompresses_streams E K"
    and run: "exec E st (s, w) = Some (Inr (s', w'))"
  shows "\<exists>A'. abs_step K (stream_backend E) st (seen_reply E st (s, w)) (mem w) (mem w') A A' \<and> simulates K s' w' A'"
proof (cases st)
  case (Push x i out)
  obtain v where x: "s x = Some v" using run by (auto simp: Push split: option.splits)
  then show ?thesis
    using simulates_comp_calls(1) [OF sim E K(1) _ run Push] simulates_decomp_call [OF sim E K(2) _ Push run] by (cases v) blast+
next
  case (Flush x out)
  obtain c where "s x = Some (Comp_Var c)" using run by (auto simp: Flush split: option.splits variable.splits)
  then show ?thesis by (rule simulates_comp_calls(2) [OF sim E K(1) _ run Flush])
next
  case (Finish x out)
  obtain c where "s x = Some (Comp_Var c)" using run by (auto simp: Finish split: option.splits variable.splits)
  then show ?thesis by (rule simulates_comp_calls(3) [OF sim E K(1) _ run Finish])
next
  case (New_Compressor x f lvl)
  then show ?thesis by (rule simulates_new(1) [OF sim E K run])
next
  case (New_Decompressor x f)
  then show ?thesis by (rule simulates_new(2) [OF sim E K run])
next
  case (Move_Construct x y)
  then show ?thesis by (rule simulates_moves(1) [OF sim E run])
next
  case (Move_Assign x y)
  then show ?thesis by (rule simulates_moves(2) [OF sim E run])
next
  case (Destroy x)
  then show ?thesis by (rule simulates_moves(3) [OF sim E run])
qed

section \<open>Every program is a run of the machine\<close>

lemma simulates_start: "empty_heaps w \<Longrightarrow> simulates K Map.empty w Map.empty"
  by (simp add: simulates_def well_owned_start)

text \<open>Memory is not part of any object, and a one-shot call leaves the heap as it was.\<close>

lemma footprints_same:
  assumes "zstreams w' = zstreams w" "lib w' = lib w"
  shows "sq_cells v w' = sq_cells v w" "sq_objects v w' = sq_objects v w" "sq_ready v w' = sq_ready v w"
    "sw_cells u w' = sw_cells u w" "sw_objects u w' = sw_objects u w" "sw_ready u w' = sw_ready u w"
proof -
  have z: "zobjects p w' = zobjects p w" "zready p w' = zready p w" "zcells p w' = zcells p w" for p
    by (simp_all add: zobjects_def zready_def zcells_def assms split: option.split)
  have c: "ctx_ready a w' = ctx_ready a w" "ctx_cells a w' = ctx_cells a w" "ctx_objects a w' = ctx_objects a w" for a
    by (simp_all add: ctx_ready_def ctx_cells_def ctx_objects_def assms)
  show "sq_cells v w' = sq_cells v w" "sq_objects v w' = sq_objects v w" "sq_ready v w' = sq_ready v w"
    by (cases v; simp add: z c)+
  show "sw_cells u w' = sw_cells u w" "sw_objects u w' = sw_objects u w" "sw_ready u w' = sw_ready u w"
    by (cases u; simp add: z c)+
qed

lemma simulates_same_heap:
  fixes w w' :: "('l::len, 'b, 'm) stream_world_scheme"
  assumes sim: "simulates K s w A" and same: "same_heap w w'" "brk w \<le> brk w'" "wf_world w'"
  shows "simulates K s w' A"
proof -
  note i = simulatesD(1) [OF sim]
  have wfs: "wf_stream w" using accountedD(1) [OF well_ownedD(1) [OF i]] .
  have hp: "zstreams w' = zstreams w" "lib w' = lib w" "world.more w' = world.more w"
    using same(1) by (simp_all add: same_heap_def)
  have hd: "held w' = held w" by (rule held_more [OF hp(3)])
  have fp: "h_cells h w' = h_cells h w" "h_objects h w' = h_objects h w" "h_ready h w' = h_ready h w" for h
    by (simp_all add: h_defs footprints_same [OF hp(1,2)] split: sum.split)
  have "wf_stream w'" by (rule same_heap_wf_stream [OF wfs same(1,3,2)])
  then have "accounted w'" using well_ownedD(1) [OF i] by (simp add: accounted_def owned_def hd fp hp)
  with i have "well_owned s w'" by (simp add: well_owned_def hd)
  moreover have "kept o1 w w'" for o1 by (simp add: kept_def hd hp)
  then have "rel_option (obj_rel K w') (s x) (A x)" for x
    using sim unfolding simulates_def
    by (cases "s x"; cases "A x") (auto intro: obj_rel_kept [OF wfs same(3)] dest!: spec [of _ x])
  ultimately show ?thesis by (simp add: simulates_def)
qed

lemma simulates_mem:
  fixes w :: "('l::len, 'b, 'm) stream_world_scheme"
  assumes "simulates K s w A"
  shows "simulates K s (w\<lparr>mem := m\<rparr>) A"
proof (rule simulates_same_heap [OF assms])
  show "same_heap w (w\<lparr>mem := m\<rparr>)" by (cases w) (simp add: same_heap_def)
  show "wf_world (w\<lparr>mem := m\<rparr>)"
    using accountedD(2) [OF well_ownedD(1) [OF simulatesD(1) [OF assms]]] by (simp add: wf_world_def)
qed simp

lemma scoped_brk:
  assumes "scoped create body destroy w = Inr (r, w')"
    and "\<And>h w1. create w = Inr (h, w1) \<Longrightarrow> brk w \<le> brk w1"
    and "\<And>h w1 r w2. body h w1 = Inr (r, w2) \<Longrightarrow> brk w2 = brk w1"
    and "\<And>h w2 w3. destroy h w2 = Inr w3 \<Longrightarrow> brk w3 = brk w2"
  shows "brk w \<le> brk w'"
  using assms by (elim scopedE) metis

lemma one_shot_ops_brk:
  "zlib_sweller_push E u i out w = Inr (q, w') \<Longrightarrow> brk w' = brk w"
  "zstd_squeezer_push E h i out w = Inr (q, w') \<Longrightarrow> brk w' = brk w"
  "zstd_sweller_push E k i out w = Inr (q, w') \<Longrightarrow> brk w' = brk w"
  "reply (x, w) = Inr (r, w') \<Longrightarrow> brk w' = brk w"
  "reply_patched f out (x, w) = Inr (r, w') \<Longrightarrow> brk w' = brk w"
proof -
  show "zlib_sweller_push E u i out w = Inr (q, w') \<Longrightarrow> brk w' = brk w"
    unfolding zlib_sweller_push_def by (erule zop_brk) (auto split: if_splits)
  show "zstd_squeezer_push E h i out w = Inr (q, w') \<Longrightarrow> brk w' = brk w"
    "zstd_sweller_push E k i out w = Inr (q, w') \<Longrightarrow> brk w' = brk w"
    by (auto simp: zstd_squeezer_push_def zstd_sweller_push_def Let_def split: prod.splits if_splits)
  show "reply (x, w) = Inr (r, w') \<Longrightarrow> brk w' = brk w" using reply_keeps by fastforce
  show "reply_patched f out (x, w) = Inr (r, w') \<Longrightarrow> brk w' = brk w" using reply_patched_keeps by fastforce
qed

lemma news_brk:
  "zlib_squeezer_new E f lvl w = Inr (h1, w') \<Longrightarrow> brk w \<le> brk w'"
  "zlib_sweller_new E f w = Inr (h2, w') \<Longrightarrow> brk w \<le> brk w'"
  "zstd_squeezer_new E f zl w = Inr (h3, w') \<Longrightarrow> brk w \<le> brk w'"
  "zstd_sweller_new E f w = Inr (h4, w') \<Longrightarrow> brk w \<le> brk w'"
  by (auto simp: zlib_squeezer_new_def zlib_sweller_new_def zstd_squeezer_new_def zstd_sweller_new_def
      new_zstream_def Let_def split: prod.splits if_splits)

lemma one_shot_brk:
  "squeeze E f lvl i out w = Inr (r, w') \<Longrightarrow> brk w \<le> brk w'"
  "swell E f i out w = Inr (r, w') \<Longrightarrow> brk w \<le> brk w'"
proof -
  note ends = deletes_brk(1) [of E "Zlib_Squeezer h" for h, simplified] deletes_brk(1) [of E "Zstd_Squeezer h" for h, simplified]
    deletes_brk(2) [of E "Zlib_Sweller h" for h, simplified] deletes_brk(2) [of E "Zstd_Sweller h" for h, simplified]
  have zq: "brk w \<le> brk w'" if "zlib_squeeze E f lvl i out w = Inr (r, w')"
    using that unfolding zlib_squeeze_def
    by (rule scoped_brk) (auto dest!: news_brk(1) ops_brk(1) one_shot_ops_brk(5) ends(1) elim!: chain_InrE)
  have sq: "brk w \<le> brk w'" if "zstd_squeeze E lvl i out w = Inr (r, w')"
    using that unfolding zstd_squeeze_def
    by (rule scoped_brk) (auto dest!: news_brk(3) one_shot_ops_brk(2,4) ends(2) elim!: chain_InrE)
  have zw: "brk w \<le> brk w'" if "zlib_swell E f i out w = Inr (r, w')"
    using that unfolding zlib_swell_def
    by (rule scoped_brk) (auto dest!: news_brk(2) one_shot_ops_brk(1,4) ends(3) elim!: chain_InrE)
  have sw: "brk w \<le> brk w'" if "zstd_swell E i out w = Inr (r, w')"
    using that unfolding zstd_swell_def
    by (rule scoped_brk) (auto dest!: news_brk(4) one_shot_ops_brk(3,4) ends(4) elim!: chain_InrE)
  show "squeeze E f lvl i out w = Inr (r, w') \<Longrightarrow> brk w \<le> brk w'"
    using zq sq by (auto simp: squeeze_branches split: option.splits if_splits)
  show "swell E f i out w = Inr (r, w') \<Longrightarrow> brk w \<le> brk w'"
    using zw sw by (auto simp: swell_branches split: if_splits)
qed

lemma simulates_one_shot:
  fixes w :: "('l::len, 'b, 'm) stream_world_scheme"
  assumes sim: "simulates K s w A" and E: "env_ok E"
  shows "squeeze E f lvl i out w = Inr (r, w') \<Longrightarrow> simulates K s w' A"
    "swell E f i out w = Inr (r, w') \<Longrightarrow> simulates K s w' A"
proof -
  note wf = accountedD(2) [OF well_ownedD(1) [OF simulatesD(1) [OF sim]]]
  show "squeeze E f lvl i out w = Inr (r, w') \<Longrightarrow> simulates K s w' A"
    using squeeze_keeps [OF E wf] one_shot_brk(1) simulates_same_heap [OF sim] by blast
  show "swell E f i out w = Inr (r, w') \<Longrightarrow> simulates K s w' A"
    using swell_keeps [OF E wf] one_shot_brk(2) simulates_same_heap [OF sim] by blast
qed

text \<open>An ended object of the machine has a complete stream.\<close>

fun complete :: "'b stream_codec \<Rightarrow> abs_object \<Rightarrow> bool" where
  "complete K (Packer f hs) \<longleftrightarrow> (h_phase hs = Ended \<longrightarrow> is_stream_of K f (h_given hs) (h_taken hs))"
| "complete K (Unpacker f hs) \<longleftrightarrow> (h_phase hs = Ended \<longrightarrow> is_stream_of K f (h_taken hs) (h_given hs))"
| "complete K _ \<longleftrightarrow> True"

lemma abs_step_complete:
  assumes "abs_step K has st q m m' A A'" "\<forall>x a. A x = Some a \<longrightarrow> complete K a"
  shows "\<forall>x a. A' x = Some a \<longrightarrow> complete K a"
  using assms
proof (induction rule: abs_step.induct)
  case (unpacked A x f hs i out m us vs hs' r m')
  have "sr_done r" if "h_phase hs' = Ended" using that by (simp add: unpacked.hyps(5) split: if_splits)
  then have "complete K (Unpacker f hs')" using unpacked.hyps(4,6) by (auto simp: fed_def)
  with unpacked.prems show ?case by auto
next
  case (packer_finished A x f hs ph hs' m m' out r)
  then have "complete K (Packer f hs')" by auto
  with packer_finished.prems show ?case by auto
qed (auto split: if_splits)

lemma abs_run_complete: "abs_run K has tr A \<Longrightarrow> A x = Some a \<Longrightarrow> complete K a"
proof (induction arbitrary: x a rule: abs_run.induct)
  case (abs_ran tr A st q m m' A')
  then show ?case using abs_step_complete by blast
qed simp


text \<open>A program that builds a compressor, pushes one byte and finishes, and what its caller sees.\<close>

definition demo_trace :: "event list" where
  "demo_trace = [Event (New_Compressor ''a'' Fmt_Zstd zlib_best) None (mem demo_stream) (mem demo_stream),
     Event (Push ''a'' demo_byte demo_out) (Some (Inr \<lparr>bytes_consumed = 1, bytes_produced = 2, sr_done = False\<rparr>))
       (mem demo_stream) (mem demo_sent),
     Event (Finish ''a'' demo_tail) (Some (Inr \<lparr>bytes_consumed = 0, bytes_produced = 1, sr_done = True\<rparr>))
       (mem demo_sent) ((mem demo_sent)(3000 := 0))]"

lemma demo_zstd_allocates [simp]:
  "allocations_succeed (ref_env os nd) (demo_zstd x)" "allocations_succeed (ref_env os nd) demo_sent"
proof -
  have l: "lib (demo_zstd x) = [1 \<mapsto> x]" "lib demo_sent = [1 \<mapsto> Ref_Enc [] False]" for x
    by (simp_all add: demo_sent_def demo_zstd_def)
  have "ref_fresh [1 \<mapsto> x] = Some 2" for x :: ref_state by (simp add: ref_fresh_def upt_conv_Cons)
  then show "allocations_succeed (ref_env os nd) (demo_zstd x)" "allocations_succeed (ref_env os nd) demo_sent"
    using l by (intro ref_allocates_in; simp)+
qed

lemma demo_program:
  "program (ref_env 3 True) demo_trace [''a'' \<mapsto> Comp_Var \<lparr>cp_impl = 1\<rparr>] (demo_sent\<lparr>mem := (mem demo_sent)(3000 := 0)\<rparr>)"
proof -
  let ?E = "ref_env 3 True" and ?s = "[''a'' \<mapsto> Comp_Var \<lparr>cp_impl = 1\<rparr>]"
  have m: "mem (demo_zstd x) = mem demo_stream" for x by (simp add: demo_zstd_def)
  have 1: "program ?E [Event (New_Compressor ''a'' Fmt_Zstd zlib_best) None (mem demo_stream) (mem demo_stream)] ?s
      (demo_zstd (Ref_Enc [] False))"
    using ran [OF begun, of demo_stream ?E "New_Compressor ''a'' Fmt_Zstd zlib_best" ?s "demo_zstd (Ref_Enc [] False)"]
    by (simp add: demo_zstd_new m del: One_nat_def)
  from ran [OF 1, of "Push ''a'' demo_byte demo_out" ?s demo_sent]
  have 2: "program ?E (take 2 demo_trace) ?s demo_sent" by (simp add: demo_trace_def demo_session_push m del: One_nat_def)
  from ran [OF 2, of "Finish ''a'' demo_tail" ?s "demo_sent\<lparr>mem := (mem demo_sent)(3000 := 0)\<rparr>"]
  show ?thesis by (simp add: demo_trace_def demo_session_finish del: One_nat_def)
qed


end
