(* ===== verification/Spec2Isabelle.thy ===== *)
theory Spec2Isabelle
  imports One_Shot_Properties One_Shot_Unfinished Backend_Dispatch Stream_Properties Session_Properties
    Backend_Properties Bench_Streaming Fuzz_Target Fuzz_Stream Allocation_Failures Allocation_Ledger Cross_Layer
    Trailing_Bytes Interference Program_Streams
begin

text \<open>
  A verification development for polliwog, a C++23 compression library with one interface over
  zlib and zstd.

  The program. \<open>squeeze\<close>, \<open>swell\<close> and \<open>bound\<close> (\<open>src/squeeze.cpp\<close>) are the one-shot layer;
  \<open>compressor\<close> and \<open>decompressor\<close> (\<open>src/stream.cpp\<close>) are the streaming layer, each a pointer to
  an \<open>impl\<close> that holds a variant of backend handles. Both layers sit on two backends
  (\<open>src/detail/zlib.cpp\<close>, \<open>src/detail/zstd.cpp\<close>) whose move-only handles own a C library's state.
  Errors are values (\<open>include/polliwog/error.hpp\<close>); the caller owns all buffers.

  Where each part is.
  \<^item> \<open>Polliwog_Prelude\<close>: widths, spans, byte memory, the three ways a run can end badly, and the
    lemmas about them. A \<open>run\<close> is a fault (undefined behaviour, a failed \<open>assert\<close>, a loop that
    never ends) or a value; an \<open>error\<close> of the library is a value.
  \<^item> \<open>Error_Format\<close>: \<open>error.hpp\<close> and \<open>format.hpp\<close>.
  \<^item> \<open>Zlib_Api\<close>, \<open>Zstd_Api\<close>: the boundary to the two C libraries. They are not part of the
    repository: their entry points are fields of a record that every definition takes as an
    argument, and what the code relies on are named predicates over such a record, taken from
    the libraries' documentation.
  \<^item> \<open>World\<close>: the state of a run (caller memory, \<open>z_stream\<close> cells, the libraries' heap) and the
    build environment (\<open>POLLIWOG_HAS_ZLIB\<close>, \<open>POLLIWOG_HAS_ZSTD\<close>, \<open>NDEBUG\<close>, the two libraries).
  \<^item> \<open>Backend_Contract\<close>: \<open>include/detail/backend.hpp\<close> as locales. \<open>Zlib_Backend\<close> and
    \<open>Zstd_Backend\<close> hold the handles, one definition per member function, and interpret them.
  \<^item> \<open>Handle_Creation\<close>: what a construction does where allocations succeed.
  \<^item> \<open>One_Shot\<close>, \<open>One_Shot_Codec\<close>, \<open>One_Shot_Properties\<close>: \<open>squeeze.cpp\<close>; the byte-level facts
    under the codec promises; the properties.
  \<^item> \<open>Stream_Variants\<close>, \<open>Streaming\<close>: the unnamed namespace and the public half of \<open>stream.cpp\<close>.
    A \<open>unique_ptr\<close> is an address, 0 when null; the defaulted special members are written out.
  \<^item> \<open>Ownership\<close>, \<open>Client_Program\<close>: a statement language over the two classes (construct, call,
    move, assign, destroy), its step relation and the ownership invariant.
  \<^item> \<open>Stream_Properties\<close>, \<open>Backend_Properties\<close>: the properties of the streaming layer and of the
    backends on their own. \<open>Variant_Types\<close>: which alternative an \<open>impl\<close> can hold.
    \<open>Allocation_Ledger\<close>: what each statement of a program allocates and frees, exactly.
  \<^item> \<open>Backend_Dispatch\<close>: the concept of \<open>backend.hpp\<close> as a record of operations, the two backend
    types as values of it, and the formats that the one-shot layer serves in a build.
    \<open>One_Shot_Unfinished\<close>: what \<open>squeeze\<close> does where the bound is too small.
    \<open>Allocation_Failures\<close>: what the one-shot calls do where the libraries have no memory.
  \<^item> \<open>Stream_History\<close>: the abstract stream (what it has taken and given, and its phase) and what
    zlib and zstd promise about it. \<open>Stream_Codec\<close>, \<open>Stream_Refinement\<close>, \<open>Stream_Sessions\<close>: the
    simulation, for handles, variants and objects, and whole sessions of an object.
    \<open>Session_Properties\<close>: the refinement, the streaming round trip, the typing of variants.
    \<open>Cross_Layer\<close>: each layer restores what the other one compressed. \<open>Trailing_Bytes\<close>: a push
    that holds the rest of a stream and then something else.
  \<^item> \<open>Interference\<close>: what a statement of a program leaves alone. \<open>Program_Streams\<close>: whole programs,
    with what their caller sees of each statement, against an abstract machine that has one byte
    history for each variable; a forward simulation, statement by statement.
  \<^item> \<open>Stream_Scopes\<close>: objects as local variables. \<open>Benchmarks\<close>: \<open>bench/squeeze_bench.cpp\<close>, every
    benchmark as a client of the two layers; \<open>Bench_Properties\<close> and \<open>Bench_Streaming\<close> prove that
    none of them dereferences an error and that the streaming loops end, unless the vector of
    compressed bytes, whose size is \<open>compressBound\<close>'s, gets full. \<open>Fuzz_Target\<close>:
    \<open>fuzz/fuzz_squeeze.cpp\<close>. \<open>Fuzz_Stream\<close>: \<open>fuzz/fuzz_stream.cpp\<close>, over the two members it reads
    that \<open>stream_result\<close> does not declare.
  \<^item> \<open>Reference_Engine\<close>, \<open>Reference_Streams\<close>: a small codec for which every named hypothesis is
    proved. It models nothing of the program; it is the instance on which the examples run.

  How sources are read. A span is an address and a 64-bit size. zlib's \<open>uInt\<close> is 32 bits and the
  cut of a size to it is written out (\<open>to_uInt\<close>); the width of its \<open>uLong\<close> is the type parameter
  \<open>'l\<close>, 64 on Linux and macOS and 32 on Windows. A handle that is null, moved from or freed is
  undefined to use, as in C++. A block with a local handle is \<open>scoped\<close>: construct, run, destroy
  on every path. \<open>assert\<close> is a fault where \<open>NDEBUG\<close> is not set. An enum value outside \<open>format\<close>
  takes the branch of \<open>lz4_frame\<close>.

  What the lemmas show. Containment: every call returns, frees what it allocates, writes only its
  output span, and touches only its own state. Ownership: over whole programs nothing leaks, each
  allocation has one owner, and only use after move goes wrong. Errors: for each entry point the
  complete list of errors, with their kind, backend and position. Codec: under the promises zlib
  and zstd make about their own streams, the bytes of \<open>squeeze\<close> are the promised stream (with
  gzip's OS byte patched) and \<open>swell\<close> restores the input. \<open>compressBound\<close>, which \<open>bound\<close> asks,
  is a promise for the zlib container alone; for gzip and raw deflate these properties require
  an output of the size of \<open>deflateBound\<close>, and without it \<open>squeeze\<close> can report a stream that has
  no end as a success. Refinement: each call of the streaming
  classes moves an abstract stream by exactly the bytes it reports, so what a compressor gave in
  any pieces a decompressor restores, and either layer reads what the other wrote. That holds in
  whole programs: objects do not interfere, and moves carry a stream along. Bounds: honest
  byte counts, and the places where 32-bit lengths break them. Failed allocations: which of the
  calls then report a wrong error, which do not notice and which are undefined.

  Termination. All definitions are total but five loops, each a \<open>partial_function\<close> whose
  \<open>None\<close> is a loop that never ends: the \<open>do\<close> loop of \<open>zstd_squeezer::finish\<close>, proved to return for
  every output span from the documented progress of \<open>ZSTD_e_end\<close> with the room left in the
  output as measure; the two loops of the streaming benchmark, proved to return with the
  input left as measure unless \<open>c_off\<close> reaches the size of the vector; and the two of the
  streaming fuzz target, whose measures are the input left together with what the stream holds
  back. A timed loop runs a given number of times.
  No definition uses fuel.

  Not modelled: \<open>brood.hpp\<close> (a design note without declarations), the tests and the build. The
  environment variables and the file system, of which the corpus benchmarks read one file, are
  parameters. The member functions of the stub handles are never called and have no definition.
  Out of scope of the model: threads (a handle is single-threaded by contract), failure of
  \<open>operator new\<close>, which would throw, and the extents of the arrays and vectors that callers own.
\<close>

end
